(* ===== verification/Kernel_Prelude.thy ===== *)
theory Kernel_Prelude
  imports Main "HOL-Library.Word"
begin

text \<open>
  Shared vocabulary of the Queen OS development.

  The kernel is built with \<^verbatim>\<open>cargo rustc --release\<close> (Makefile and justfile): overflow
  checks are off, so \<open>usize\<close> arithmetic is arithmetic on \<open>64 word\<close>, which wraps, and
  \<^verbatim>\<open>debug_assert!\<close> is not compiled in. What still stops the kernel in that profile (an index
  out of range, \<^verbatim>\<open>unwrap\<close> on \<^verbatim>\<open>None\<close>, \<^verbatim>\<open>assert!\<close>, \<^verbatim>\<open>unimplemented!\<close>,
  \<^verbatim>\<open>panic!\<close>) is a value of \<open>panic\<close>; an operation that can stop returns
  \<open>panic + 'a\<close>. The panic handler never returns (\<^verbatim>\<open>lang.rs\<close>), so the state after a
  panic is not observable and is not part of the result.
\<close>

unbundle bit_operations_syntax

section \<open>Machine integers and addresses\<close>

type_synonym usize = "64 word"
type_synonym u64 = "64 word"
type_synonym u32 = "32 word"
type_synonym u16 = "16 word"
type_synonym u8 = "8 word"
type_synonym VirtAddr = usize
type_synonym PhysAddr = usize

section \<open>Panics as values\<close>

datatype panic =
    IndexOutOfRange
  | UnwrapNone
  | ExpectFailed string
  | AssertFailed string
  | Unimplemented
  | Todo
  | Unreachable
  | Panicked string

type_synonym 'a outcome = "panic + 'a"

named_theorems outcome_simps \<open>equations that run an operation which may stop\<close>

definition bindE :: "'e + 'a \<Rightarrow> ('a \<Rightarrow> 'e + 'b) \<Rightarrow> 'e + 'b" where
  "bindE m f = (case m of Inl e \<Rightarrow> Inl e | Inr x \<Rightarrow> f x)"

lemma bindE_simps [simp, outcome_simps]:
  "bindE (Inl e) f = Inl e"
  "bindE (Inr x) f = f x"
  by (simp_all add: bindE_def)

lemma bindE_eq_Inr: "bindE m f = Inr y \<longleftrightarrow> (\<exists>x. m = Inr x \<and> f x = Inr y)"
  by (cases m) auto

lemma bindE_InrE [elim]:
  assumes "bindE m f = Inr y"
  obtains x where "m = Inr x" and "f x = Inr y"
  using assms by (auto simp: bindE_eq_Inr)

lemma bindE_cong [fundef_cong]:
  "m = m' \<Longrightarrow> (\<And>x. m' = Inr x \<Longrightarrow> f x = f' x) \<Longrightarrow> bindE m f = bindE m' f'"
  by (cases m') auto

text \<open>\<^verbatim>\<open>Option::unwrap\<close> and \<^verbatim>\<open>Option::expect\<close>.\<close>

definition unwrap :: "'a option \<Rightarrow> 'a outcome" where
  "unwrap v = (case v of None \<Rightarrow> Inl UnwrapNone | Some x \<Rightarrow> Inr x)"

definition expect :: "string \<Rightarrow> 'a option \<Rightarrow> 'a outcome" where
  "expect msg v = (case v of None \<Rightarrow> Inl (ExpectFailed msg) | Some x \<Rightarrow> Inr x)"

lemma unwrap_simps [simp, outcome_simps]:
  "unwrap None = Inl UnwrapNone" "unwrap (Some x) = Inr x"
  by (simp_all add: unwrap_def)

lemma expect_simps [simp, outcome_simps]:
  "expect msg None = Inl (ExpectFailed msg)" "expect msg (Some x) = Inr x"
  by (simp_all add: expect_def)

lemma unwrap_eq_Inr [simp]: "unwrap v = Inr x \<longleftrightarrow> v = Some x"
  by (cases v) auto

lemma expect_eq_Inr [simp]: "expect msg v = Inr x \<longleftrightarrow> v = Some x"
  by (cases v) auto

text \<open>A \<^verbatim>\<open>for\<close> loop over a list whose body may stop the kernel.\<close>

fun iterE :: "('a \<Rightarrow> 's \<Rightarrow> 'e + 's) \<Rightarrow> 'a list \<Rightarrow> 's \<Rightarrow> 'e + 's" where
  "iterE f [] s = Inr s"
| "iterE f (x # xs) s = bindE (f x s) (iterE f xs)"

lemma iterE_append: "iterE f (xs @ ys) s = bindE (iterE f xs s) (iterE f ys)"
  by (induction xs arbitrary: s) (auto simp: bindE_def split: sum.splits)

text \<open>The loop rule: an invariant indexed by what is still to be visited.\<close>

lemma iterE_total:
  assumes "P xs s"
    and "\<And>x zs t. P (x # zs) t \<Longrightarrow> \<exists>t'. f x t = Inr t' \<and> P zs t'"
  shows "\<exists>s'. iterE f xs s = Inr s' \<and> P [] s'"
  using assms(1)
proof (induction xs arbitrary: s)
  case (Cons x xs)
  then obtain t where "f x s = Inr t" "P xs t" using assms(2) by blast
  with Cons.IH show ?case by simp
qed simp

lemma iterE_partial:
  assumes "iterE f xs s = Inr s'" and "P xs s"
    and "\<And>x zs t t'. P (x # zs) t \<Longrightarrow> f x t = Inr t' \<Longrightarrow> P zs t'"
  shows "P [] s'"
  using assms(1,2)
proof (induction xs arbitrary: s)
  case (Cons x xs)
  from Cons.prems(1) obtain t where t: "f x s = Inr t" "iterE f xs t = Inr s'"
    by (auto simp: bindE_eq_Inr)
  from assms(3)[OF Cons.prems(2) t(1)] have "P xs t" .
  from Cons.IH[OF t(2) this] show ?case .
qed simp

section \<open>Three-way comparison\<close>

text \<open>\<^verbatim>\<open>core::cmp::Ordering\<close>, with \<^verbatim>\<open>Ord::max\<close> and \<^verbatim>\<open>Ord::min\<close> as the standard
  library derives them from \<^verbatim>\<open>cmp\<close>.\<close>

datatype ordering = Less | Equal | Greater

fun reverse :: "ordering \<Rightarrow> ordering" where
  "reverse Less = Greater"
| "reverse Equal = Equal"
| "reverse Greater = Less"

definition cmp_of :: "'a::linorder \<Rightarrow> 'a \<Rightarrow> ordering" where
  "cmp_of a b = (if a < b then Less else if a = b then Equal else Greater)"

definition max_by :: "('a \<Rightarrow> 'a \<Rightarrow> ordering) \<Rightarrow> 'a \<Rightarrow> 'a \<Rightarrow> 'a" where
  "max_by c a b = (case c a b of Greater \<Rightarrow> a | _ \<Rightarrow> b)"

definition min_by :: "('a \<Rightarrow> 'a \<Rightarrow> ordering) \<Rightarrow> 'a \<Rightarrow> 'a \<Rightarrow> 'a" where
  "min_by c a b = (case c a b of Greater \<Rightarrow> b | _ \<Rightarrow> a)"

lemma cmp_of_simps:
  "cmp_of a b = Less \<longleftrightarrow> a < b"
  "cmp_of a b = Equal \<longleftrightarrow> a = b"
  "cmp_of a b = Greater \<longleftrightarrow> b < a"
  by (auto simp: cmp_of_def)

lemma reverse_simps [simp]:
  "reverse x = Less \<longleftrightarrow> x = Greater"
  "reverse x = Equal \<longleftrightarrow> x = Equal"
  "reverse x = Greater \<longleftrightarrow> x = Less"
  by (cases x; simp)+

section \<open>Words as natural numbers\<close>

lemmas unat_arith_simps = unat_word_ariths

lemma unat_add_no_wrap:
  fixes a b :: usize
  assumes "unat a + unat b < 2 ^ 64"
  shows "unat (a + b) = unat a + unat b"
  using assms by (simp add: unat_word_ariths)

lemma unat_mult_no_wrap:
  fixes a b :: usize
  assumes "unat a * unat b < 2 ^ 64"
  shows "unat (a * b) = unat a * unat b"
  using assms by (simp add: unat_word_ariths)

lemma unat_sub_no_wrap:
  fixes a b :: usize
  assumes "b \<le> a"
  shows "unat (a - b) = unat a - unat b"
  using assms by (simp add: unat_sub)

lemma unat_lt_64: "unat (a :: usize) < 2 ^ 64"
  using unsigned_less[of a, where ?'a = nat] by simp

lemma unat_shift_right: "unat (drop_bit n w) = unat w div 2 ^ n"
  by (simp only: unat_drop_bit_eq drop_bit_eq_div [where ?'a = nat])

lemma unat_cast: "unat (ucast (w :: 'a::len word) :: 'b::len word) = unat w mod 2 ^ LENGTH('b)"
  by (simp add: unsigned_ucast_eq take_bit_eq_mod)

lemma unat_cast_128 [simp]: "unat (ucast (w :: usize) :: 128 word) = unat w"
  using unat_lt_64[of w] by (simp add: unat_cast)

lemma unat_max_u32 [simp]: "unat (- 1 :: u32) = 4294967295"
  by (simp add: unsigned_minus_1_eq_mask mask_eq_exp_minus_1)

section \<open>The signed reading of \<open>usize\<close>\<close>

text \<open>\<^verbatim>\<open>x as isize\<close> is \<open>sint x\<close>.\<close>

lemma uint_less_63: "unat (c :: usize) < 2 ^ 63 \<Longrightarrow> uint c < 2 ^ 63"
proof -
  assume "unat c < 2 ^ 63"
  then have "int (unat c) < int (2 ^ 63)" by (simp only: of_nat_less_iff)
  then show ?thesis by (simp only: uint_nat of_nat_power of_nat_numeral)
qed

lemma sint_range: "- (2 ^ 63) \<le> sint (c :: usize)" "sint (c :: usize) < 2 ^ 63"
  using sint_greater_eq[of c] sint_less[of c] by simp_all

lemma signed_63: "- (2 ^ 63) \<le> x \<Longrightarrow> x < 2 ^ 63 \<Longrightarrow> signed_take_bit 63 x = (x :: int)"
  by (rule signed_take_bit_int_eq_self)

lemma sint_small:
  fixes c :: usize
  assumes "unat c < 2 ^ 63"
  shows "sint c = uint c"
proof -
  have "sint c = signed_take_bit 63 (uint c)" by (simp add: sint_uint)
  also have "\<dots> = uint c"
    using uint_less_63[OF assms] uint_ge_0[of c] by (intro signed_63) linarith+
  finally show ?thesis .
qed

lemma sint_sub_window:
  fixes a b :: usize
  assumes "unat a < 2 ^ 63" "unat b < 2 ^ 63"
  shows "sint (a - b) = uint a - uint b"
proof -
  have "sint (a - b) = signed_take_bit 63 (sint a - sint b)"
    using sint_word_ariths(2)[of a b] by simp
  also have "\<dots> = signed_take_bit 63 (uint a - uint b)" by (simp only: sint_small assms)
  also have "\<dots> = uint a - uint b"
    using uint_less_63[OF assms(1)] uint_less_63[OF assms(2)] uint_ge_0[of a] uint_ge_0[of b]
    by (intro signed_63) linarith+
  finally show ?thesis .
qed

lemma sint_uminus:
  fixes c :: usize
  assumes "sint c \<noteq> - (2 ^ 63)"
  shows "sint (- c) = - sint c"
proof -
  have "sint (- c) = signed_take_bit 63 (- sint c)"
    using sint_word_ariths(4)[of c] by simp
  also have "\<dots> = - sint c"
    using assms sint_range[of c] by (intro signed_63) linarith+
  finally show ?thesis .
qed

lemma sint_sub_swap:
  fixes a b :: usize
  shows "sint (a - b) \<noteq> - (2 ^ 63) \<Longrightarrow> sint (b - a) = - sint (a - b)"
  using sint_uminus[of "a - b"] by simp

lemma sint_antipode: "sint (c :: usize) = - (2 ^ 63) \<longleftrightarrow> c = 2 ^ 63"
proof
  assume c: "sint c = - (2 ^ 63)"
  have "word_of_int (sint c) = c" by simp
  then show "c = 2 ^ 63" unfolding c by simp
qed simp

end
