(* ===== verification/Sched_Arith.thy ===== *)
theory Sched_Arith
  imports Kernel_Prelude
begin

text \<open>
  The fixed-point arithmetic of the fair scheduler, from
  \<^verbatim>\<open>src/kernel/src/task/executor/mod.rs\<close>: virtual runtimes compared modulo \<open>2\<^sup>6\<^sup>4\<close>
  (\<open>VRuntime\<close>), load weights with their 32-bit reciprocals (\<open>LoadWeight\<close>), the nice table,
  \<open>calc_delta\<close> and \<open>sched_period\<close>.
\<close>

section \<open>Constants and feature bits\<close>

definition SCHED_LATENCY :: usize where "SCHED_LATENCY = 6000000"
definition SCHED_MIN_GRANULARITY :: usize where "SCHED_MIN_GRANULARITY = 750000"
definition SCHED_NR_LATENCY :: usize where "SCHED_NR_LATENCY = 8"
definition SCHED_CHILD_RUNS_FIRST :: bool where "SCHED_CHILD_RUNS_FIRST = False"

text \<open>\<^verbatim>\<open>MAX_NICE\<close> and \<^verbatim>\<open>MIN_NICE\<close> as two's complement \<open>isize\<close> values.\<close>

definition MAX_NICE :: usize where "MAX_NICE = 19"
definition MIN_NICE :: usize where "MIN_NICE = - 20"

definition GENTLE_FAIR_SLEEPERS :: u32 where "GENTLE_FAIR_SLEEPERS = 0b00000001"
definition START_DEBIT :: u32 where "START_DEBIT = 0b00000010"
definition LAST_BUDDY :: u32 where "LAST_BUDDY = 0b00001000"
definition CACHE_HOT_BUDDY :: u32 where "CACHE_HOT_BUDDY = 0b00010000"
definition WAKEUP_PREEMPTION :: u32 where "WAKEUP_PREEMPTION = 0b00100000"

definition SchedFeatures_new :: u32 where
  "SchedFeatures_new = GENTLE_FAIR_SLEEPERS OR START_DEBIT OR LAST_BUDDY OR CACHE_HOT_BUDDY
     OR WAKEUP_PREEMPTION"

definition features_contain :: "u32 \<Rightarrow> u32 \<Rightarrow> bool" where
  "features_contain self other \<longleftrightarrow> self AND other = other"

lemmas sched_consts = SCHED_LATENCY_def SCHED_MIN_GRANULARITY_def SCHED_NR_LATENCY_def
  SCHED_CHILD_RUNS_FIRST_def

lemmas sched_feature_defs = SchedFeatures_new_def features_contain_def GENTLE_FAIR_SLEEPERS_def
  START_DEBIT_def LAST_BUDDY_def CACHE_HOT_BUDDY_def WAKEUP_PREEMPTION_def

lemma SCHED_FEAT_contains [simp]:
  "features_contain SchedFeatures_new START_DEBIT"
  "features_contain SchedFeatures_new GENTLE_FAIR_SLEEPERS"
  by (simp_all add: sched_feature_defs)

section \<open>Virtual runtime\<close>

datatype VRuntime = VRuntime (vr: usize)

text \<open>\<^verbatim>\<open>self.0 as isize - other.0 as isize\<close>: a wrapping subtraction read as signed.\<close>

definition vr_delta :: "VRuntime \<Rightarrow> VRuntime \<Rightarrow> int" where
  "vr_delta a b = sint (vr a - vr b)"

definition vr_cmp :: "VRuntime \<Rightarrow> VRuntime \<Rightarrow> ordering" where
  "vr_cmp a b = cmp_of (sint (vr a - vr b)) 0"

definition vr_add :: "VRuntime \<Rightarrow> usize \<Rightarrow> VRuntime" where
  "vr_add v n = VRuntime (vr v + n)"

definition vr_sub :: "VRuntime \<Rightarrow> usize \<Rightarrow> VRuntime" where
  "vr_sub v n = VRuntime (vr v - n)"

definition vr_add_vr :: "VRuntime \<Rightarrow> VRuntime \<Rightarrow> VRuntime" where
  "vr_add_vr v w = VRuntime (vr v + vr w)"

definition vr_sub_vr :: "VRuntime \<Rightarrow> VRuntime \<Rightarrow> VRuntime" where
  "vr_sub_vr v w = VRuntime (vr v - vr w)"

definition vr_max :: "VRuntime \<Rightarrow> VRuntime \<Rightarrow> VRuntime" where
  "vr_max = max_by vr_cmp"

definition vr_min :: "VRuntime \<Rightarrow> VRuntime \<Rightarrow> VRuntime" where
  "vr_min = min_by vr_cmp"

lemmas vr_defs = vr_delta_def vr_cmp_def vr_add_def vr_sub_def vr_add_vr_def vr_sub_vr_def
  vr_max_def vr_min_def max_by_def min_by_def

section \<open>Load weights\<close>

record LoadWeight =
  weight :: usize
  inv_weight :: "u32 option"

definition WMULT_CONST :: u32 where "WMULT_CONST = NOT 0"
definition WMULT_SHIFT :: usize where "WMULT_SHIFT = 32"

definition LoadWeight_new :: "usize \<Rightarrow> LoadWeight" where
  "LoadWeight_new w = \<lparr>weight = w, inv_weight = None\<rparr>"

definition get_inv_weight :: "LoadWeight \<Rightarrow> u32" where
  "get_inv_weight lw =
     (case inv_weight lw of
        Some i \<Rightarrow> i
      | None \<Rightarrow>
          if weight lw = 0 then WMULT_CONST
          else if weight lw \<le> ucast WMULT_CONST then WMULT_CONST div ucast (weight lw)
          else 1)"

definition lw_add :: "LoadWeight \<Rightarrow> LoadWeight \<Rightarrow> LoadWeight" where
  "lw_add a b = LoadWeight_new (weight a + weight b)"

definition lw_sub :: "LoadWeight \<Rightarrow> LoadWeight \<Rightarrow> LoadWeight" where
  "lw_sub a b = LoadWeight_new (weight a - weight b)"

lemma LoadWeight_new_sel [simp]:
  "weight (LoadWeight_new w) = w" "inv_weight (LoadWeight_new w) = None"
  by (simp_all add: LoadWeight_new_def)

lemma lw_arith_sel [simp]:
  "weight (lw_add a b) = weight a + weight b" "inv_weight (lw_add a b) = None"
  "weight (lw_sub a b) = weight a - weight b" "inv_weight (lw_sub a b) = None"
  by (simp_all add: lw_add_def lw_sub_def)

section \<open>The nice table\<close>

definition NICE_TO_WEIGHT :: "usize list" where
  "NICE_TO_WEIGHT =
     [88761, 71755, 56483, 46273, 36291,
      29154, 23254, 18705, 14949, 11916,
       9548,  7620,  6100,  4904,  3906,
       3121,  2501,  1991,  1586,  1277,
       1024,   820,   655,   526,   423,
        335,   272,   215,   172,   137,
        110,    87,    70,    56,    45,
         36,    29,    23,    18,    15]"

text \<open>\<^verbatim>\<open>NICE_TO_WEIGHT[(nice + 20) as usize]\<close>: the bounds check is part of the profile.\<close>

definition nice_to_weight :: "usize \<Rightarrow> usize outcome" where
  "nice_to_weight nice =
     (let i = unat (nice + 20)
      in if i < length NICE_TO_WEIGHT then Inr (NICE_TO_WEIGHT ! i) else Inl IndexOutOfRange)"

definition NICE_0_WEIGHT :: usize where "NICE_0_WEIGHT = 1024"

section \<open>Scaling by a ratio of weights\<close>

text \<open>The normalising loop \<^verbatim>\<open>while (fact >> 32) != 0 { fact >>= 1; shift -= 1; }\<close>.\<close>

function calc_norm :: "usize \<Rightarrow> usize \<Rightarrow> usize \<times> usize" where
  "calc_norm fct shift =
     (if drop_bit 32 fct \<noteq> 0 then calc_norm (drop_bit 1 fct) (shift - 1) else (fct, shift))"
  by pat_completeness auto
termination
proof (relation "measure (\<lambda>(fct, shift). unat fct)", goal_cases)
  case (2 fct shift)
  then have "fct \<noteq> 0" by auto
  then have "0 < unat fct" by (simp add: unat_gt_0)
  then show ?case using unat_shift_right[of 1 fct] by simp
qed simp

declare calc_norm.simps [simp del]

text \<open>The factor and the shift that \<open>calc_delta\<close> ends with.\<close>

definition calc_parts :: "usize \<Rightarrow> LoadWeight \<Rightarrow> usize \<times> usize" where
  "calc_parts w lw =
     (let (fct, shift) = calc_norm w WMULT_SHIFT;
          fct = fct * ucast (get_inv_weight lw)
      in calc_norm fct shift)"

definition calc_delta :: "usize \<Rightarrow> usize \<Rightarrow> LoadWeight \<Rightarrow> usize" where
  "calc_delta delta_exec w lw =
     (let (fct, shift) = calc_parts w lw
      in ucast (drop_bit (unat shift mod 128) (ucast delta_exec * ucast fct :: 128 word)))"

definition sched_period :: "usize \<Rightarrow> usize" where
  "sched_period nr_running =
     (if nr_running > SCHED_NR_LATENCY then nr_running * SCHED_MIN_GRANULARITY else SCHED_LATENCY)"

section \<open>The normalising loop on natural numbers\<close>

text \<open>How often \<open>calc_norm\<close> halves its factor.\<close>

function norm_steps :: "nat \<Rightarrow> nat" where
  "norm_steps n = (if 2 ^ 32 \<le> n then Suc (norm_steps (n div 2)) else 0)"
  by pat_completeness auto
termination by (relation "measure id") auto
declare norm_steps.simps [simp del]

lemma norm_steps_bound: "n div 2 ^ norm_steps n < 2 ^ 32"
proof (induction n rule: norm_steps.induct)
  case (1 n)
  then show ?case
    by (cases "2 ^ 32 \<le> n") (simp_all add: norm_steps.simps[of n] div_mult2_eq)
qed

lemma norm_steps_tight: "0 < norm_steps n \<Longrightarrow> 2 ^ 31 \<le> n div 2 ^ norm_steps n"
proof (induction n rule: norm_steps.induct)
  case (1 n)
  show ?case
  proof (cases "2 ^ 32 \<le> n")
    case True
    show ?thesis
    proof (cases "norm_steps (n div 2) = 0")
      case True
      with \<open>2 ^ 32 \<le> n\<close> show ?thesis by (simp add: norm_steps.simps[of n])
    next
      case False
      with 1 True show ?thesis by (simp add: norm_steps.simps[of n] div_mult2_eq)
    qed
  next
    case False
    with 1 show ?thesis by (simp add: norm_steps.simps[of n])
  qed
qed

lemma norm_steps_le: "n < 2 ^ (32 + k) \<Longrightarrow> norm_steps n \<le> k"
proof (induction n arbitrary: k rule: norm_steps.induct)
  case (1 n)
  show ?case
  proof (cases "2 ^ 32 \<le> n")
    case True
    with 1(2) obtain j where j: "k = Suc j" by (cases k) auto
    with 1(2) have "n < 2 ^ Suc (32 + j)" by simp
    then have "n div 2 < 2 ^ (32 + j)"
      by (intro less_mult_imp_div_less) (simp only: power_Suc2)
    with 1(1)[OF True] True j show ?thesis by (simp add: norm_steps.simps[of n])
  qed (simp add: norm_steps.simps[of n])
qed

lemma shift32_zero_iff: "drop_bit 32 (f :: usize) = 0 \<longleftrightarrow> unat f < 2 ^ 32"
proof -
  have "drop_bit 32 f = 0 \<longleftrightarrow> unat (drop_bit 32 f) = 0" by (simp only: unat_eq_0)
  also have "\<dots> \<longleftrightarrow> unat f < 2 ^ 32" by (simp add: unat_shift_right div_eq_0_iff)
  finally show ?thesis .
qed

lemma calc_norm_eq:
  "calc_norm f s = (drop_bit (norm_steps (unat f)) f, s - of_nat (norm_steps (unat f)))"
proof (induction f s rule: calc_norm.induct)
  case (1 f s)
  show ?case
  proof (cases "drop_bit 32 f = 0")
    case True
    then have "norm_steps (unat f) = 0" by (simp add: norm_steps.simps[of "unat f"] shift32_zero_iff)
    with True show ?thesis by (simp add: calc_norm.simps[of f s])
  next
    case False
    then have k: "norm_steps (unat f) = Suc (norm_steps (unat (drop_bit 1 f)))"
      using unat_shift_right[of 1 f]
      by (simp add: norm_steps.simps[of "unat f"] shift32_zero_iff not_less)
    from False have "calc_norm f s = calc_norm (drop_bit 1 f) (s - 1)"
      by (simp add: calc_norm.simps[of f s])
    also have "\<dots> = (drop_bit (norm_steps (unat f)) f, s - of_nat (norm_steps (unat f)))"
      using 1 False k by (simp add: drop_bit_drop_bit)
    finally show ?thesis .
  qed
qed

lemma unat_mul128: "unat (ucast (d :: usize) * ucast (f :: usize) :: 128 word) = unat d * unat f"
proof -
  have "unat d * unat f < 2 ^ 64 * 2 ^ 64" by (rule mult_strict_mono') (simp_all add: unat_lt_64[simplified])
  then show ?thesis by (simp add: unat_word_ariths)
qed

lemma unat_inv_weight:
  assumes "inv_weight lw = None" "0 < weight lw" "unat (weight lw) < 2 ^ 32"
  shows "unat (get_inv_weight lw) = (2 ^ 32 - 1) div unat (weight lw)"
proof -
  have c: "unat (ucast WMULT_CONST :: usize) = 2 ^ 32 - 1" "unat WMULT_CONST = 2 ^ 32 - 1"
    by (simp_all add: WMULT_CONST_def unat_cast)
  with assms have "weight lw \<le> ucast WMULT_CONST" by (simp add: word_le_nat_alt)
  moreover have "unat (ucast (weight lw) :: u32) = unat (weight lw)"
    using assms(3) by (simp add: unat_cast)
  ultimately show ?thesis using assms c by (simp add: get_inv_weight_def unat_div_distrib word_neq_0_conv)
qed

lemma norm_steps_upper: "n < 2 ^ (32 + norm_steps n)"
proof -
  have "n < 2 ^ 32 * 2 ^ norm_steps n"
    using norm_steps_bound[of n] by (subst (asm) div_less_iff_less_mult) simp_all
  then show ?thesis by (simp add: power_add)
qed

lemma norm_steps_lower: "0 < norm_steps n \<Longrightarrow> 2 ^ (31 + norm_steps n) \<le> n"
proof -
  assume "0 < norm_steps n"
  then have "2 ^ 31 \<le> n div 2 ^ norm_steps n" by (rule norm_steps_tight)
  then have "2 ^ 31 * 2 ^ norm_steps n \<le> n div 2 ^ norm_steps n * 2 ^ norm_steps n"
    by (rule mult_le_mono1)
  also have "\<dots> \<le> n" by (rule div_times_less_eq_dividend)
  finally show ?thesis by (simp add: power_add)
qed

lemma norm_steps_mono: "m \<le> n \<Longrightarrow> norm_steps m \<le> norm_steps n"
  using norm_steps_upper[of n] by (intro norm_steps_le) simp

definition trunc32 :: "nat \<Rightarrow> nat" where
  "trunc32 x = x div 2 ^ norm_steps x * 2 ^ norm_steps x"

lemma trunc32_le: "trunc32 x \<le> x"
  by (simp add: trunc32_def)

lemma trunc32_exact: "x < 2 ^ 32 \<Longrightarrow> trunc32 x = x"
  by (simp add: trunc32_def norm_steps.simps[of x])

lemma trunc32_error: "x < trunc32 x + 2 ^ norm_steps x"
  unfolding trunc32_def using dividend_less_div_times[of "2 ^ norm_steps x" x] by simp

lemma trunc32_mono: "x \<le> y \<Longrightarrow> trunc32 x \<le> trunc32 y"
proof (cases "norm_steps x = norm_steps y")
  case True
  assume "x \<le> y"
  with True show ?thesis by (simp add: trunc32_def div_le_mono)
next
  case False
  assume xy: "x \<le> y"
  with False have lt: "norm_steps x < norm_steps y" using norm_steps_mono by (simp add: le_neq_implies_less)
  then have "2 ^ 31 \<le> y div 2 ^ norm_steps y" by (intro norm_steps_tight) simp
  then have "2 ^ 31 * 2 ^ norm_steps y \<le> trunc32 y" unfolding trunc32_def by (rule mult_le_mono1)
  moreover have "x < 2 ^ 31 * 2 ^ norm_steps y"
  proof -
    have "x < 2 ^ (32 + norm_steps x)" by (rule norm_steps_upper)
    also have "\<dots> \<le> 2 ^ (31 + norm_steps y)" using lt by (intro power_increasing) simp_all
    finally show ?thesis by (simp add: power_add)
  qed
  ultimately show ?thesis using trunc32_le[of x] by simp
qed

text \<open>The value \<open>calc_delta\<close> computes, on natural numbers.\<close>

definition scaled :: "nat \<Rightarrow> nat \<Rightarrow> nat" where
  "scaled d x = d * trunc32 x div 2 ^ 32"

lemma scaled_mono: "d \<le> d' \<Longrightarrow> x \<le> y \<Longrightarrow> scaled d x \<le> scaled d' y"
  unfolding scaled_def by (intro div_le_mono mult_le_mono trunc32_mono)

lemma scaled_le: "scaled d x \<le> d * x div 2 ^ 32"
  unfolding scaled_def by (intro div_le_mono mult_le_mono2 trunc32_le)

lemma scaled_shift:
  assumes "norm_steps x \<le> 32"
  shows "d * (x div 2 ^ norm_steps x) div 2 ^ (32 - norm_steps x) = scaled d x"
proof -
  let ?k = "norm_steps x"
  have "(2::nat) ^ 32 = 2 ^ (32 - ?k) * 2 ^ ?k"
    using assms by (simp flip: power_add)
  then have "scaled d x = d * (x div 2 ^ ?k) * 2 ^ ?k div (2 ^ (32 - ?k) * 2 ^ ?k)"
    unfolding scaled_def trunc32_def by (simp only: mult.assoc)
  then show ?thesis by simp
qed

lemma calc_parts_eq:
  assumes "unat w < 2 ^ 32" and "inv_weight lw = None"
  defines "x \<equiv> unat w * unat (get_inv_weight lw)"
  shows "calc_parts w lw = (of_nat (x div 2 ^ norm_steps x), 32 - of_nat (norm_steps x))"
    and "norm_steps x \<le> 32" and "x < 2 ^ 64"
proof -
  have "unat (get_inv_weight lw) < 2 ^ 32"
    using unsigned_less[of "get_inv_weight lw", where ?'a = nat] by simp
  with assms(1) have lt: "x < 2 ^ 32 * 2 ^ 32"
    unfolding x_def by (intro mult_strict_mono') simp_all
  then show "x < 2 ^ 64" by simp
  then show "norm_steps x \<le> 32" by (intro norm_steps_le) simp
  have cast: "unat (ucast (get_inv_weight lw) :: usize) = unat (get_inv_weight lw)"
    using unsigned_less[of "get_inv_weight lw", where ?'a = nat] by (simp add: unat_cast)
  have ux: "unat (w * ucast (get_inv_weight lw)) = x"
    using lt cast unfolding x_def by (subst unat_mult_no_wrap) (simp_all add: cast)
  have n0: "norm_steps (unat w) = 0"
    using assms(1) by (simp add: norm_steps.simps)
  have d: "drop_bit k (w * ucast (get_inv_weight lw)) = of_nat (x div 2 ^ k)" for k
    using unat_shift_right[of k "w * ucast (get_inv_weight lw)"] unfolding ux
    by (metis of_nat_unat ucast_id)
  show "calc_parts w lw = (of_nat (x div 2 ^ norm_steps x), 32 - of_nat (norm_steps x))"
    by (simp add: calc_parts_def WMULT_SHIFT_def n0 calc_norm_eq ux d Let_def)
qed

lemma calc_delta_eq:
  assumes "unat w < 2 ^ 32" and "inv_weight lw = None"
  shows "unat (calc_delta d w lw) = scaled (unat d) (unat w * unat (get_inv_weight lw)) mod 2 ^ 64"
proof -
  define x where "x = unat w * unat (get_inv_weight lw)"
  note parts = calc_parts_eq[OF assms, folded x_def]
  let ?k = "norm_steps x"
  have sh: "unat (32 - of_nat ?k :: usize) = 32 - ?k"
    using parts(2) by (subst unat_sub_no_wrap) (auto simp: word_le_nat_alt unat_of_nat)
  have "x div 2 ^ ?k < 2 ^ 64"
    using norm_steps_bound[of x] by simp
  then have uf: "unat (of_nat (x div 2 ^ ?k) :: usize) = x div 2 ^ ?k"
    by (simp add: unat_of_nat)
  have "unat (calc_delta d w lw) = (unat d * (x div 2 ^ ?k) div 2 ^ (32 - ?k)) mod 2 ^ 64"
    unfolding calc_delta_def parts(1) Let_def prod.case unat_cast[where ?'b = 64] unat_shift_right sh
    using parts(2) by (simp add: unat_mul128 uf)
  then show ?thesis using scaled_shift[OF parts(2)] by (simp add: x_def)
qed

lemma inv_weight_mult_le:
  assumes "inv_weight lw = None" "0 < weight lw" "unat (weight lw) < 2 ^ 32"
  shows "unat (get_inv_weight lw) * unat (weight lw) < 2 ^ 32"
proof -
  have "(2 ^ 32 - 1) div unat (weight lw) * unat (weight lw) \<le> 2 ^ 32 - 1"
    by (rule div_times_less_eq_dividend)
  then have "(2 ^ 32 - 1) div unat (weight lw) * unat (weight lw) < 2 ^ 32"
    by (rule le_less_trans) simp
  then show ?thesis by (simp only: unat_inv_weight[OF assms])
qed

lemma scaled_le_ratio:
  assumes "iw * l \<le> 2 ^ 32" "0 < l"
  shows "scaled d (w * iw) \<le> d * w div l"
proof -
  let ?q = "scaled d (w * iw)"
  have "?q * 2 ^ 32 \<le> d * (w * iw)"
    using scaled_le[of d "w * iw"] by (metis div_times_less_eq_dividend le_trans mult_le_mono1)
  then have "?q * 2 ^ 32 * l \<le> d * (w * iw) * l" by (rule mult_le_mono1)
  also have "\<dots> = (d * w) * (iw * l)" by (simp add: ac_simps)
  also have "\<dots> \<le> (d * w) * 2 ^ 32" using assms(1) by (rule mult_le_mono2)
  finally have "?q * l \<le> d * w" by (simp add: ac_simps)
  then show ?thesis using assms(2) by (simp add: less_eq_div_iff_mult_less_eq)
qed

section \<open>Order, table and scaling properties\<close>

lemma vr_cmp_key:
  assumes "unat (vr a - base) < 2 ^ 63" "unat (vr b - base) < 2 ^ 63"
  shows "vr_cmp a b = cmp_of (unat (vr a - base)) (unat (vr b - base))"
proof -
  have "vr a - vr b = (vr a - base) - (vr b - base)" by simp
  then have "vr_cmp a b = cmp_of (uint (vr a - base) - uint (vr b - base)) 0"
    unfolding vr_cmp_def by (simp only: sint_sub_window[OF assms])
  also have "\<dots> = cmp_of (uint (vr a - base)) (uint (vr b - base))" unfolding cmp_of_def by simp
  also have "\<dots> = cmp_of (unat (vr a - base)) (unat (vr b - base))"
    unfolding cmp_of_def by (simp only: uint_nat of_nat_less_iff of_nat_eq_iff)
  finally show ?thesis .
qed

text \<open>the ordering of virtual runtimes survives the wrap-around of the counter: two values that lie
  less than \<open>2\<^sup>6\<^sup>3\<close> ahead of a common base, wherever that base is, compare as their distances from
  the base do.\<close>
lemma vr_cmp_window:
  assumes "unat d1 < 2 ^ 63" "unat d2 < 2 ^ 63"
  shows "vr_cmp (VRuntime (x + d1)) (VRuntime (x + d2)) = cmp_of d1 d2"
  using vr_cmp_key[of "VRuntime (x + d1)" x "VRuntime (x + d2)"] assms
  by (auto simp: cmp_of_def word_less_nat_alt word_unat_eq_iff)

lemma vr_max_forward:
  assumes "sint (vr a - vr b) \<noteq> - (2 ^ 63)"
  shows "0 \<le> vr_delta (vr_max a b) a"
proof (cases "vr_cmp a b = Greater")
  case True
  then show ?thesis by (simp add: vr_max_def max_by_def vr_delta_def)
next
  case False
  then have "sint (vr a - vr b) \<le> 0" by (simp add: vr_cmp_def cmp_of_simps)
  moreover have "vr_max a b = b"
    using False by (cases "vr_cmp a b") (simp_all add: vr_max_def max_by_def)
  ultimately show ?thesis using sint_sub_swap[OF assms] by (simp add: vr_delta_def)
qed


lemma sint_index: "k < 40 \<Longrightarrow> sint (of_nat k - 20 :: usize) = int k - 20"
  by (subst sint_sub_window) (simp_all add: unat_of_nat uint_nat)

lemma nice_index:
  "unat (n + 20 :: usize) < 40 \<longleftrightarrow> - 20 \<le> sint n \<and> sint n \<le> 19"
  "unat (n + 20 :: usize) < 40 \<Longrightarrow> unat (n + 20) = nat (sint n + 20)"
proof -
  have fwd: "sint n = int (unat (n + 20)) - 20" if "unat (n + 20) < 40"
  proof -
    have "n = of_nat (unat (n + 20)) - 20" by simp
    then show ?thesis using sint_index[OF that] by metis
  qed
  then show "unat (n + 20) < 40 \<Longrightarrow> unat (n + 20) = nat (sint n + 20)" by linarith
  have "unat (n + 20) < 40" if "- 20 \<le> sint n" "sint n \<le> 19"
  proof -
    have "n + 20 = word_of_int (sint n + 20)" by simp
    also have "\<dots> = of_nat (nat (sint n + 20))" using that(1) by simp
    finally show ?thesis using that by (simp only: unat_of_nat) simp
  qed
  with fwd show "unat (n + 20) < 40 \<longleftrightarrow> - 20 \<le> sint n \<and> sint n \<le> 19" by linarith
qed

lemma NICE_TO_WEIGHT_length [simp]: "length NICE_TO_WEIGHT = 40"
  by (simp add: NICE_TO_WEIGHT_def)

lemma NICE_TO_WEIGHT_steps:
  "successively (\<lambda>w w'. 120 * unat w' \<le> 100 * unat w \<and> 100 * unat w \<le> 128 * unat w') NICE_TO_WEIGHT"
  by (simp add: NICE_TO_WEIGHT_def)

lemma nice_0: "nice_to_weight 0 = Inr NICE_0_WEIGHT"
  by (simp add: nice_to_weight_def NICE_TO_WEIGHT_def NICE_0_WEIGHT_def)

text \<open>the nice table is indexed without a panic exactly for the nice levels \<open>-20\<close> to \<open>19\<close>, and one
  level changes the weight by a factor between \<open>1.20\<close> and \<open>1.28\<close>, around the documented \<open>1.25\<close>.\<close>
lemma nice_to_weight_levels:
  "(nice_to_weight n = Inl IndexOutOfRange \<longleftrightarrow> sint n < - 20 \<or> 19 < sint n) \<and>
   (- 20 \<le> sint n \<and> sint n < 19 \<longrightarrow>
     (\<exists>w w'. nice_to_weight n = Inr w \<and> nice_to_weight (n + 1) = Inr w' \<and>
       120 * unat w' \<le> 100 * unat w \<and> 100 * unat w \<le> 128 * unat w'))"
proof (intro conjI impI)
  show "nice_to_weight n = Inl IndexOutOfRange \<longleftrightarrow> sint n < - 20 \<or> 19 < sint n"
    using nice_index(1)[of n] by (auto simp: nice_to_weight_def Let_def)
next
  assume n: "- 20 \<le> sint n \<and> sint n < 19"
  define k where "k = unat (n + 20)"
  have "k = nat (sint n + 20)" using n nice_index[of n] by (simp add: k_def)
  with n have k: "k < 39" by linarith
  have "n + 1 + 20 = (n + 20) + 1" by simp
  then have "unat (n + 1 + 20) = Suc k"
    using k unat_add_no_wrap[of "n + 20" 1] by (simp add: k_def)
  then have "nice_to_weight n = Inr (NICE_TO_WEIGHT ! k)" "nice_to_weight (n + 1) = Inr (NICE_TO_WEIGHT ! Suc k)"
    using k by (simp_all add: nice_to_weight_def flip: k_def)
  moreover have "120 * unat (NICE_TO_WEIGHT ! Suc k) \<le> 100 * unat (NICE_TO_WEIGHT ! k) \<and>
      100 * unat (NICE_TO_WEIGHT ! k) \<le> 128 * unat (NICE_TO_WEIGHT ! Suc k)"
    using NICE_TO_WEIGHT_steps k unfolding successively_conv_nth by simp
  ultimately show "\<exists>w w'. nice_to_weight n = Inr w \<and> nice_to_weight (n + 1) = Inr w' \<and>
      120 * unat w' \<le> 100 * unat w \<and> 100 * unat w \<le> 128 * unat w'" by blast
qed

text \<open>the shift of \<open>calc_delta\<close> stays positive, as its comment claims: it is at least 22 when the
  factor is the nice-0 weight, and is never reduced at all when the factor is at most the load it is
  divided by.\<close>
lemma calc_parts_shift:
  assumes "inv_weight lw = None"
  shows "22 \<le> unat (snd (calc_parts NICE_0_WEIGHT lw)) \<and> unat (snd (calc_parts NICE_0_WEIGHT lw)) \<le> 32 \<and>
    (w \<le> weight lw \<and> unat (weight lw) < 2 ^ 32 \<longrightarrow> snd (calc_parts w lw) = WMULT_SHIFT)"
proof (intro conjI impI)
  let ?x = "unat NICE_0_WEIGHT * unat (get_inv_weight lw)"
  have iw: "unat (get_inv_weight lw) < 2 ^ 32"
    using unsigned_less[of "get_inv_weight lw", where ?'a = nat] by simp
  then have "norm_steps ?x \<le> 10" by (intro norm_steps_le) (simp add: NICE_0_WEIGHT_def)
  moreover have "unat (32 - of_nat k :: usize) = 32 - k" if "k \<le> 10" for k
    using that by (subst unat_sub_no_wrap) (auto simp: word_le_nat_alt unat_of_nat)
  moreover have "snd (calc_parts NICE_0_WEIGHT lw) = 32 - of_nat (norm_steps ?x)"
    using calc_parts_eq(1)[of NICE_0_WEIGHT lw] assms by (simp add: NICE_0_WEIGHT_def)
  ultimately show "22 \<le> unat (snd (calc_parts NICE_0_WEIGHT lw))"
    "unat (snd (calc_parts NICE_0_WEIGHT lw)) \<le> 32" by simp_all
next
  assume w: "w \<le> weight lw \<and> unat (weight lw) < 2 ^ 32"
  then have w': "unat w \<le> unat (weight lw)" "unat w < 2 ^ 32" by (auto simp: word_le_nat_alt)
  have "unat w * unat (get_inv_weight lw) < 2 ^ 32"
  proof (cases "weight lw = 0")
    case False
    have "unat w * unat (get_inv_weight lw) \<le> unat (get_inv_weight lw) * unat (weight lw)"
      using w'(1) by simp
    also have "\<dots> < 2 ^ 32"
      using inv_weight_mult_le[OF assms] False w by (simp add: word_neq_0_conv)
    finally show ?thesis .
  qed (use w' in simp)
  then have "norm_steps (unat w * unat (get_inv_weight lw)) = 0" by (simp add: norm_steps.simps)
  then show "snd (calc_parts w lw) = WMULT_SHIFT"
    using calc_parts_eq(1)[OF w'(2) assms] by (simp add: WMULT_SHIFT_def)
qed

lemma trunc32_rel: "x * (2 ^ 31 - 1) \<le> trunc32 x * 2 ^ 31"
proof (cases "norm_steps x = 0")
  case True
  then show ?thesis by (simp add: trunc32_def)
next
  case False
  then have "2 ^ 31 * 2 ^ norm_steps x \<le> x"
    using norm_steps_lower[of x] by (simp add: power_add)
  then show ?thesis using trunc32_error[of x] by simp
qed

lemma calc_delta_scaled:
  assumes "inv_weight lw = None" "0 < weight lw" "unat (weight lw) < 2 ^ 32" "unat w < 2 ^ 32"
    and "unat d * unat w div unat (weight lw) < 2 ^ 64"
  shows "unat (calc_delta d w lw) = scaled (unat d) (unat w * unat (get_inv_weight lw))"
    and "unat (calc_delta d w lw) \<le> unat d * unat w div unat (weight lw)"
proof -
  let ?x = "unat w * unat (get_inv_weight lw)"
  have le: "scaled (unat d) ?x \<le> unat d * unat w div unat (weight lw)"
    using inv_weight_mult_le[OF assms(1-3)] assms(2)
    by (intro scaled_le_ratio) (simp_all add: word_less_nat_alt)
  with assms(5) show "unat (calc_delta d w lw) = scaled (unat d) ?x"
    by (simp add: calc_delta_eq[OF assms(4,1)])
  with le show "unat (calc_delta d w lw) \<le> unat d * unat w div unat (weight lw)" by simp
qed

text \<open>C39: \<open>calc_delta\<close> computes \<open>delta_exec * weight / lw.weight\<close>: never more than the exact quotient,
  and below the product with the truncated 32-bit reciprocal of the divisor by a relative error of at
  most \<open>2\<^sup>-\<^sup>3\<^sup>1\<close> and one unit.\<close>
theorem calc_delta_accuracy:
  assumes "inv_weight lw = None" "0 < weight lw" "unat (weight lw) < 2 ^ 32" "unat w < 2 ^ 32"
    and "unat d * unat w div unat (weight lw) < 2 ^ 64"
  shows "unat (calc_delta d w lw) \<le> unat d * unat w div unat (weight lw) \<and>
    unat d * (unat w * ((2 ^ 32 - 1) div unat (weight lw))) * (2 ^ 31 - 1)
      < (unat (calc_delta d w lw) + 1) * 2 ^ 63"
proof
  let ?x = "unat w * unat (get_inv_weight lw)"
  show "unat (calc_delta d w lw) \<le> unat d * unat w div unat (weight lw)"
    by (rule calc_delta_scaled(2)[OF assms])
  have "unat d * ?x * (2 ^ 31 - 1) \<le> unat d * trunc32 ?x * 2 ^ 31"
    unfolding mult.assoc by (intro mult_le_mono2) (simp only: trunc32_rel flip: mult.assoc)
  also have "\<dots> < (scaled (unat d) ?x + 1) * 2 ^ 32 * 2 ^ 31"
    unfolding scaled_def
    using dividend_less_div_times[of "2 ^ 32 :: nat" "unat d * trunc32 ?x"] by simp
  finally show "unat d * (unat w * ((2 ^ 32 - 1) div unat (weight lw))) * (2 ^ 31 - 1)
      < (unat (calc_delta d w lw) + 1) * 2 ^ 63"
    unfolding calc_delta_scaled(1)[OF assms] unat_inv_weight[OF assms(1-3)]
    by (simp only: mult.assoc flip: power_add) simp
qed

theorem calc_delta_accuracy_witness:
  "unat (calc_delta 6000000 1024 (LoadWeight_new 3072)) \<le> 2000000 \<and>
   1999998 < unat (calc_delta 6000000 1024 (LoadWeight_new 3072))"
  using calc_delta_accuracy[of "LoadWeight_new 3072" 1024 6000000] by simp

end
