(* ===== verification/Sched_Queue.thy ===== *)
theory Sched_Queue
  imports Sched_Arith
begin

text \<open>
  The run queues of the fair scheduler and the operations on them, from
  \<^verbatim>\<open>src/kernel/src/task/executor/mod.rs\<close>.

  A \<open>SchedTaskRef\<close> (\<^verbatim>\<open>Arc<Mutex<SchedTask>>\<close>) is an address of the task store \<open>tasks\<close>, a
  \<open>RunQueueRef\<close> is the position of its executor. A locked region is one atomic operation; whether a
  \<^verbatim>\<open>try_lock\<close> succeeds and what the timer reads are arguments. The priority queue
  (\<^verbatim>\<open>priority_queue\<close>), the arena (\<^verbatim>\<open>vec_arena\<close>) and the runnables
  (\<^verbatim>\<open>async_task\<close>) are other crates: their operations are the record \<open>crates\<close>, an argument of
  every definition that calls them.
\<close>

section \<open>State\<close>

type_synonym Tid = usize
type_synonym SchedTaskRef = nat
type_synonym RunQueueRef = nat

record SchedTask =
  tid :: Tid
  t_load :: LoadWeight
  nice :: usize
  on_rq :: bool
  run_queue :: RunQueueRef
  exec_start :: usize
  sum_exec_runtime :: usize
  prev_sum_exec_runtime :: usize
  vruntime :: VRuntime

text \<open>\<open>ReadyTask\<close> is ordered by the reverse of its virtual runtime, so that the greatest element of the
  ready queue is the one that ran least.\<close>

record 'r ReadyTask =
  rt_vruntime :: VRuntime
  runnable :: 'r

definition rt_cmp :: "'r ReadyTask \<Rightarrow> 'r ReadyTask \<Rightarrow> ordering" where
  "rt_cmp a b = reverse (vr_cmp (rt_vruntime a) (rt_vruntime b))"

record 'q RunQueue =
  ready_tasks :: 'q
  current_task :: "(Tid \<times> SchedTaskRef) option"
  rq_load :: LoadWeight
  min_vruntime :: VRuntime
  nr_running :: usize

record ('q, 'a) GlobalState =
  active_tasks :: 'a
  executors :: "'q RunQueue list"
  tasks :: "SchedTaskRef \<Rightarrow> SchedTask"
  next_ref :: SchedTaskRef

type_synonym task_store = "SchedTaskRef \<Rightarrow> SchedTask"

text \<open>What the kernel calls of the three crates.\<close>

record ('q, 'a, 'r) crates =
  pq_empty :: 'q
  pq_push :: "Tid \<Rightarrow> 'r ReadyTask \<Rightarrow> 'q \<Rightarrow> 'q"
  pq_remove :: "Tid \<Rightarrow> 'q \<Rightarrow> (Tid \<times> 'r ReadyTask) option \<times> 'q"
  pq_peek :: "'q \<Rightarrow> (Tid \<times> 'r ReadyTask) option"
  pq_pop :: "'q \<Rightarrow> (Tid \<times> 'r ReadyTask) option \<times> 'q"
  pq_change_priority_by :: "Tid \<Rightarrow> ('r ReadyTask \<Rightarrow> 'r ReadyTask) \<Rightarrow> 'q \<Rightarrow> 'q"
  pq_len :: "'q \<Rightarrow> nat"
  ar_empty :: 'a
  ar_next_vacant :: "'a \<Rightarrow> Tid"
  ar_insert :: "SchedTaskRef \<Rightarrow> 'a \<Rightarrow> 'a"
  ar_get :: "'a \<Rightarrow> Tid \<Rightarrow> SchedTaskRef option"
  ar_remove :: "Tid \<Rightarrow> 'a \<Rightarrow> 'a"
  spawn_unchecked :: "SchedTaskRef \<Rightarrow> 'r"

section \<open>Operations on a task\<close>

definition SchedTask_new :: "Tid \<Rightarrow> usize \<Rightarrow> RunQueueRef \<Rightarrow> VRuntime \<Rightarrow> SchedTask outcome" where
  "SchedTask_new i n rq v =
     bindE (nice_to_weight n) (\<lambda>w. Inr
       \<lparr>tid = i, t_load = LoadWeight_new w, nice = n, on_rq = False, run_queue = rq,
        exec_start = 0, sum_exec_runtime = 0, prev_sum_exec_runtime = 0, vruntime = v\<rparr>)"

definition delta_fair :: "SchedTask \<Rightarrow> usize \<Rightarrow> usize" where
  "delta_fair t delta_exec =
     (if weight (t_load t) = NICE_0_WEIGHT then delta_exec
      else calc_delta delta_exec NICE_0_WEIGHT (t_load t))"

definition tick :: "usize \<Rightarrow> SchedTask \<Rightarrow> SchedTask" where
  "tick now t =
     (let delta_exec = now - exec_start t
      in t\<lparr>exec_start := now, sum_exec_runtime := sum_exec_runtime t + delta_exec,
           vruntime := vr_add (vruntime t) (delta_fair t delta_exec)\<rparr>)"

section \<open>Operations on a run queue\<close>

definition RunQueue_new :: "('q, 'a, 'r) crates \<Rightarrow> 'q RunQueue" where
  "RunQueue_new K = \<lparr>ready_tasks = pq_empty K, current_task = None, rq_load = LoadWeight_new 0,
     min_vruntime = VRuntime 0, nr_running = 0\<rparr>"

definition sched_slice :: "'q RunQueue \<Rightarrow> SchedTask \<Rightarrow> usize" where
  "sched_slice rq t =
     (let period = sched_period (nr_running rq + (if on_rq t then 0 else 1));
          ld = (if \<not> on_rq t then lw_add (rq_load rq) (t_load t) else rq_load rq)
      in calc_delta period (weight (t_load t)) ld)"

definition sched_vslice :: "'q RunQueue \<Rightarrow> SchedTask \<Rightarrow> usize" where
  "sched_vslice rq t = delta_fair t (sched_slice rq t)"

definition is_current_task :: "'q RunQueue \<Rightarrow> Tid \<Rightarrow> bool" where
  "is_current_task rq i = (case current_task rq of Some (c, _) \<Rightarrow> c = i | None \<Rightarrow> False)"

definition insert_task ::
  "('q, 'a, 'r) crates \<Rightarrow> Tid \<Rightarrow> 'r ReadyTask \<Rightarrow> LoadWeight \<Rightarrow> 'q RunQueue \<Rightarrow> 'q RunQueue" where
  "insert_task K i rt ld rq =
     (let rq = (if (case current_task rq of Some (c, _) \<Rightarrow> c \<noteq> i | None \<Rightarrow> True)
                then rq\<lparr>nr_running := nr_running rq + 1, rq_load := lw_add (rq_load rq) ld\<rparr>
                else rq)
      in rq\<lparr>ready_tasks := pq_push K i rt (ready_tasks rq)\<rparr>)"

definition update_min_vruntime ::
  "('q, 'a, 'r) crates \<Rightarrow> task_store \<Rightarrow> 'q RunQueue \<Rightarrow> 'q RunQueue" where
  "update_min_vruntime K ts rq =
     (let v = min_vruntime rq;
          v = (case current_task rq of
                 Some (_, r) \<Rightarrow> if on_rq (ts r) then vruntime (ts r) else v
               | None \<Rightarrow> v);
          v = (case pq_peek K (ready_tasks rq) of
                 Some (_, nxt) \<Rightarrow>
                   if current_task rq = None then rt_vruntime nxt else vr_min v (rt_vruntime nxt)
               | None \<Rightarrow> v)
      in rq\<lparr>min_vruntime := vr_max (min_vruntime rq) v\<rparr>)"

definition remove_task ::
  "('q, 'a, 'r) crates \<Rightarrow> SchedTaskRef \<Rightarrow> task_store \<times> 'q RunQueue \<Rightarrow> task_store \<times> 'q RunQueue" where
  "remove_task K r = (\<lambda>(ts, rq).
     let ts = ts(r := (ts r)\<lparr>on_rq := False\<rparr>);
         t = ts r;
         (removed, q) = pq_remove K (tid t) (ready_tasks rq);
         rq = rq\<lparr>ready_tasks := q\<rparr>;
         contained = (removed \<noteq> None \<or>
           (case current_task rq of Some (c, _) \<Rightarrow> c = tid t | None \<Rightarrow> False))
     in if contained
        then (ts, update_min_vruntime K ts
                    (rq\<lparr>nr_running := nr_running rq - 1, rq_load := lw_sub (rq_load rq) (t_load t)\<rparr>))
        else (ts, rq))"

definition task_tick ::
  "('q, 'a, 'r) crates \<Rightarrow> usize \<Rightarrow> SchedTaskRef \<Rightarrow> task_store \<times> 'q RunQueue
     \<Rightarrow> task_store \<times> 'q RunQueue" where
  "task_tick K now r = (\<lambda>(ts, rq).
     let t = tick now (ts r);
         ts = ts(r := t);
         rq = rq\<lparr>ready_tasks := pq_change_priority_by K (tid t)
                    (\<lambda>rt. rt\<lparr>rt_vruntime := vruntime t\<rparr>) (ready_tasks rq)\<rparr>
     in (ts, update_min_vruntime K ts rq))"

definition peek :: "('q, 'a, 'r) crates \<Rightarrow> 'q RunQueue \<Rightarrow> (Tid \<times> 'r ReadyTask) outcome" where
  "peek K rq = unwrap (pq_peek K (ready_tasks rq))"

text \<open>The choice of the next task, the middle part of \<open>pop_task_to_run\<close>: whether the current task has
  to give way, and which task follows.\<close>

definition preempt_current ::
  "('q, 'a, 'r) crates \<Rightarrow> SchedTask \<Rightarrow> 'q RunQueue \<Rightarrow> bool outcome" where
  "preempt_current K cur rq =
     (let ideal_runtime = sched_slice rq cur;
          delta_exec = sum_exec_runtime cur - prev_sum_exec_runtime cur
      in if \<not> on_rq cur \<or> delta_exec > ideal_runtime then Inr True
         else if delta_exec < SCHED_MIN_GRANULARITY then Inr False
         else bindE (peek K rq) (\<lambda>(_, next_task).
           Inr (vr_delta (vruntime cur) (rt_vruntime next_task) > sint ideal_runtime)))"

definition next_task ::
  "('q, 'a, 'r) crates \<Rightarrow> task_store \<Rightarrow> 'q RunQueue \<Rightarrow> (Tid \<times> 'q RunQueue) outcome" where
  "next_task K ts rq =
     (if nr_running rq < 2 then bindE (peek K rq) (\<lambda>(i, _). Inr (i, rq))
      else case current_task rq of
        Some (cur_tid, r) \<Rightarrow>
          bindE (preempt_current K (ts r) rq) (\<lambda>preempt.
            if preempt then
              (let (current, q) = pq_remove K cur_tid (ready_tasks rq)
               in bindE (unwrap (pq_peek K q)) (\<lambda>(next_tid, _).
                    let q = (case current of Some (i, rt) \<Rightarrow> pq_push K i rt q | None \<Rightarrow> q)
                    in Inr (next_tid, rq\<lparr>ready_tasks := q\<rparr>)))
            else Inr (cur_tid, rq))
      | None \<Rightarrow> bindE (peek K rq) (\<lambda>(i, _). Inr (i, rq)))"

section \<open>Operations on the global state\<close>

definition other_run_queues :: "('q, 'a) GlobalState \<Rightarrow> RunQueueRef \<Rightarrow> RunQueueRef list" where
  "other_run_queues g cpu = [cpu + 1 ..< length (executors g)] @ [0 ..< cpu]"

text \<open>The stealing loop, on the queue that steals, the queue stolen from, the task store and the tasks
  to push back; \<open>free r\<close> says whether \<^verbatim>\<open>try_lock\<close> on the task \<open>r\<close> succeeds.\<close>

fun steal_loop ::
  "('q, 'a, 'r) crates \<Rightarrow> 'a \<Rightarrow> RunQueueRef \<Rightarrow> (SchedTaskRef \<Rightarrow> bool) \<Rightarrow> nat \<Rightarrow>
   'q RunQueue \<times> 'q RunQueue \<times> task_store \<times> (Tid \<times> 'r ReadyTask) list \<Rightarrow>
   ('q RunQueue \<times> 'q RunQueue \<times> task_store \<times> (Tid \<times> 'r ReadyTask) list) outcome" where
  "steal_loop K act self_ref free 0 st = Inr st"
| "steal_loop K act self_ref free (Suc count) (me, rq, ts, back) =
     (case pq_pop K (ready_tasks rq) of
        (None, _) \<Rightarrow> Inl UnwrapNone
      | (Some (i, rt), q) \<Rightarrow>
          let rq = rq\<lparr>ready_tasks := q\<rparr>
          in if is_current_task rq i then steal_loop K act self_ref free count (me, rq, ts, back @ [(i, rt)])
             else bindE (unwrap (ar_get K act i)) (\<lambda>r.
               if free r then
                 let t = ts r;
                     t = t\<lparr>vruntime := vr_sub_vr (vruntime t) (min_vruntime rq)\<rparr>;
                     t = t\<lparr>vruntime := vr_add_vr (vruntime t) (min_vruntime me)\<rparr>;
                     me = me\<lparr>ready_tasks := pq_push K i rt (ready_tasks me)\<rparr>;
                     t = t\<lparr>run_queue := self_ref\<rparr>
                 in steal_loop K act self_ref free count (me, rq, ts(r := t), back)
               else steal_loop K act self_ref free count (me, rq, ts, back @ [(i, rt)])))"

definition try_steal_tasks ::
  "('q, 'a, 'r) crates \<Rightarrow> RunQueueRef \<Rightarrow> (RunQueueRef \<Rightarrow> bool) \<Rightarrow> (SchedTaskRef \<Rightarrow> bool) \<Rightarrow>
   ('q, 'a) GlobalState \<Rightarrow> ('q, 'a) GlobalState outcome" where
  "try_steal_tasks K cpu rq_free task_free g =
     (if cpu < length (executors g) then
        case find (\<lambda>i. rq_free i \<and> nr_running (executors g ! i) > 2) (other_run_queues g cpu) of
          None \<Rightarrow> Inr g
        | Some v \<Rightarrow>
            bindE (steal_loop K (active_tasks g) cpu task_free (pq_len K (ready_tasks (executors g ! v)) div 2)
                     (executors g ! cpu, executors g ! v, tasks g, []))
              (\<lambda>(me, rq, ts, back).
                 let rq = rq\<lparr>ready_tasks := fold (\<lambda>(i, rt). pq_push K i rt) back (ready_tasks rq)\<rparr>
                 in Inr (g\<lparr>executors := (executors g)[cpu := me, v := rq], tasks := ts\<rparr>))
      else Inl IndexOutOfRange)"

definition pop_task_to_run ::
  "('q, 'a, 'r) crates \<Rightarrow> RunQueueRef \<Rightarrow> (RunQueueRef \<Rightarrow> bool) \<Rightarrow> (SchedTaskRef \<Rightarrow> bool) \<Rightarrow> usize \<Rightarrow>
   ('q, 'a) GlobalState \<Rightarrow> ((Tid \<times> SchedTaskRef \<times> 'r) \<times> ('q, 'a) GlobalState) outcome" where
  "pop_task_to_run K cpu rq_free task_free now g =
     bindE (if nr_running (executors g ! cpu) < 2 then try_steal_tasks K cpu rq_free task_free g else Inr g)
       (\<lambda>g. bindE (next_task K (tasks g) (executors g ! cpu)) (\<lambda>(next_tid, rq).
         let (removed, q) = pq_remove K next_tid (ready_tasks rq)
         in bindE (unwrap removed) (\<lambda>(_, rt).
            bindE (unwrap (ar_get K (active_tasks g) next_tid)) (\<lambda>r.
              let rq = rq\<lparr>ready_tasks := q, current_task := Some (next_tid, r)\<rparr>
              in Inr ((next_tid, r, runnable rt),
                   g\<lparr>executors := (executors g)[cpu := rq],
                     tasks := (tasks g)(r := (tasks g r)\<lparr>exec_start := now\<rparr>)\<rparr>)))))"

text \<open>\<^verbatim>\<open>SchedTask::schedule_fn\<close>: a task is woken and its runnable is queued.\<close>

definition schedule_fn ::
  "('q, 'a, 'r) crates \<Rightarrow> SchedTaskRef \<Rightarrow> 'r \<Rightarrow> ('q, 'a) GlobalState \<Rightarrow> ('q, 'a) GlobalState" where
  "schedule_fn K r rn g =
     (let t = (tasks g r)\<lparr>on_rq := True\<rparr>;
          thresh = (if features_contain SchedFeatures_new GENTLE_FAIR_SLEEPERS
                    then drop_bit 1 SCHED_LATENCY else SCHED_LATENCY);
          rq = executors g ! run_queue t;
          v = vr_sub (min_vruntime rq) thresh;
          t = t\<lparr>vruntime := vr_max (vruntime t) v\<rparr>;
          rq = insert_task K (tid t) \<lparr>rt_vruntime = v, runnable = rn\<rparr> (t_load t) rq
      in g\<lparr>executors := (executors g)[run_queue t := rq], tasks := (tasks g)(r := t)\<rparr>)"

text \<open>The closure of \<open>CallOnDrop\<close> that \<open>spawn\<close> puts into the future of a task: it runs when the future
  has finished or is dropped.\<close>

definition on_drop ::
  "('q, 'a, 'r) crates \<Rightarrow> SchedTaskRef \<Rightarrow> Tid \<Rightarrow> ('q, 'a) GlobalState \<Rightarrow> ('q, 'a) GlobalState" where
  "on_drop K r i g =
     (let ts = (tasks g)(r := (tasks g r)\<lparr>on_rq := False\<rparr>);
          c = run_queue (ts r);
          (ts, rq) = remove_task K r (ts, executors g ! c)
      in g\<lparr>executors := (executors g)[c := rq], tasks := ts,
           active_tasks := ar_remove K i (active_tasks g)\<rparr>)"

datatype SpawnExtraOptions = NoOptions | Fork (parent_sched_task: SchedTaskRef)

definition spawn ::
  "('q, 'a, 'r) crates \<Rightarrow> RunQueueRef \<Rightarrow> usize \<Rightarrow> SpawnExtraOptions \<Rightarrow> ('q, 'a) GlobalState \<Rightarrow>
   (SchedTaskRef \<times> ('q, 'a) GlobalState) outcome" where
  "spawn K self n extra_options g =
     (let i = ar_next_vacant K (active_tasks g);
          rq = executors g ! self;
          v = (case extra_options of
                 NoOptions \<Rightarrow> min_vruntime rq
               | Fork p \<Rightarrow> vruntime (tasks g p))
      in bindE (SchedTask_new i n self v) (\<lambda>t.
        let t = (if features_contain SchedFeatures_new START_DEBIT
                 then t\<lparr>vruntime := vr_max (vruntime t) (vr_add (min_vruntime rq) (sched_vslice rq t))\<rparr>
                 else t);
            (t, ts) = (if SCHED_CHILD_RUNS_FIRST then
                         case extra_options of
                           Fork p \<Rightarrow>
                             if vr_cmp (vruntime (tasks g p)) (vruntime t) = Less
                             then (t\<lparr>vruntime := vruntime (tasks g p)\<rparr>,
                                   (tasks g)(p := (tasks g p)\<lparr>vruntime := vruntime t\<rparr>))
                             else (t, tasks g)
                         | NoOptions \<Rightarrow> (t, tasks g)
                       else (t, tasks g));
            r = next_ref g;
            rn = spawn_unchecked K r;
            rq = insert_task K i \<lparr>rt_vruntime = vruntime t, runnable = rn\<rparr> (t_load t) rq
        in Inr (r, g\<lparr>active_tasks := ar_insert K r (active_tasks g),
                     executors := (executors g)[self := rq],
                     tasks := ts(r := t\<lparr>on_rq := True\<rparr>), next_ref := Suc r\<rparr>)))"

text \<open>What \<open>run\<close> does with its queue once \<^verbatim>\<open>runnable.run()\<close> has returned.\<close>

definition after_run ::
  "('q, 'a, 'r) crates \<Rightarrow> RunQueueRef \<Rightarrow> bool \<Rightarrow> usize \<Rightarrow> SchedTaskRef \<Rightarrow> ('q, 'a) GlobalState
     \<Rightarrow> ('q, 'a) GlobalState" where
  "after_run K cpu is_yielded now r g =
     (let st = (tasks g, executors g ! cpu);
          st = (if \<not> is_yielded then remove_task K r st else st);
          (ts, rq) = task_tick K now r st
      in g\<lparr>executors := (executors g)[cpu := rq], tasks := ts\<rparr>)"

definition Executor_new ::
  "('q, 'a, 'r) crates \<Rightarrow> ('q, 'a) GlobalState \<Rightarrow> ('q, 'a) GlobalState outcome" where
  "Executor_new K g =
     bindE (spawn K (length (executors g)) MAX_NICE NoOptions
              (g\<lparr>executors := executors g @ [RunQueue_new K]\<rparr>))
       (\<lambda>(_, g). Inr g)"

definition GlobalState_new :: "('q, 'a, 'r) crates \<Rightarrow> task_store \<Rightarrow> ('q, 'a) GlobalState" where
  "GlobalState_new K ts = \<lparr>active_tasks = ar_empty K, executors = [], tasks = ts, next_ref = 0\<rparr>"

definition sched_init :: "('q, 'a, 'r) crates \<Rightarrow> task_store \<Rightarrow> nat \<Rightarrow> ('q, 'a) GlobalState outcome" where
  "sched_init K ts cpu_count = iterE (\<lambda>_. Executor_new K) [0 ..< cpu_count] (GlobalState_new K ts)"

section \<open>Documented behaviour of the crates\<close>

text \<open>The order on virtual runtimes is only an order on values within half the range of each other.\<close>

definition windowed :: "(Tid \<rightharpoonup> 'r ReadyTask) \<Rightarrow> bool" where
  "windowed m \<longleftrightarrow> (\<exists>base. \<forall>p \<in> ran m. unat (vr (rt_vruntime p) - base) < 2 ^ 63)"

text \<open>A priority queue holds a map from items to priorities (\<open>contents\<close>); \<^verbatim>\<open>push\<close> replaces the
  priority of an item that is there already; \<^verbatim>\<open>peek\<close> finds an item whenever there is one, and one
  of greatest priority when the priorities it holds are totally ordered.\<close>

definition pq_laws :: "('q, 'a, 'r) crates \<Rightarrow> ('q \<Rightarrow> Tid \<rightharpoonup> 'r ReadyTask) \<Rightarrow> bool" where
  "pq_laws K contents \<longleftrightarrow>
     contents (pq_empty K) = Map.empty \<and>
     (\<forall>q i p. contents (pq_push K i p q) = (contents q)(i \<mapsto> p)) \<and>
     (\<forall>q i. pq_remove K i q = (map_option (Pair i) (contents q i), snd (pq_remove K i q)) \<and>
            contents (snd (pq_remove K i q)) = (contents q)(i := None)) \<and>
     (\<forall>q. pq_peek K q = None \<longleftrightarrow> contents q = Map.empty) \<and>
     (\<forall>q i p. pq_peek K q = Some (i, p) \<longrightarrow> contents q i = Some p \<and>
        (windowed (contents q) \<longrightarrow> (\<forall>p' \<in> ran (contents q). rt_cmp p' p \<noteq> Greater))) \<and>
     (\<forall>q. pq_pop K q = (case pq_peek K q of None \<Rightarrow> (None, q) | Some (i, p) \<Rightarrow> pq_remove K i q)) \<and>
     (\<forall>q i f. contents (pq_change_priority_by K i f q) = (contents q)(i := map_option f (contents q i))) \<and>
     (\<forall>q. finite (dom (contents q)) \<and> pq_len K q = card (dom (contents q)))"

text \<open>An arena hands out vacant keys, as long as there are any left.\<close>

definition ar_laws :: "('q, 'a, 'r) crates \<Rightarrow> bool" where
  "ar_laws K \<longleftrightarrow>
     ar_get K (ar_empty K) = Map.empty \<and>
     (\<forall>a. card (dom (ar_get K a)) < 2 ^ 63 \<longrightarrow> ar_get K a (ar_next_vacant K a) = None) \<and>
     (\<forall>a r. ar_get K (ar_insert K r a) = (ar_get K a)(ar_next_vacant K a \<mapsto> r)) \<and>
     (\<forall>a i. ar_get K (ar_remove K i a) = (ar_get K a)(i := None))"

definition crate_laws :: "('q, 'a, 'r) crates \<Rightarrow> ('q \<Rightarrow> Tid \<rightharpoonup> 'r ReadyTask) \<Rightarrow> bool" where
  "crate_laws K contents \<longleftrightarrow> pq_laws K contents \<and> ar_laws K"

subsection \<open>A reference implementation\<close>

text \<open>Association lists satisfy the laws.\<close>

definition al_peek :: "(Tid \<times> 'r ReadyTask) list \<Rightarrow> (Tid \<times> 'r ReadyTask) option" where
  "al_peek xs =
     (case map (\<lambda>i. (i, the (map_of xs i))) (map fst xs) of
        [] \<Rightarrow> None
      | y # ys \<Rightarrow> Some (foldl (\<lambda>b c. if rt_cmp (snd c) (snd b) = Greater then c else b) y ys))"

definition al_remove ::
  "Tid \<Rightarrow> (Tid \<times> 'r ReadyTask) list \<Rightarrow> (Tid \<times> 'r ReadyTask) option \<times> (Tid \<times> 'r ReadyTask) list" where
  "al_remove i xs = (map_option (Pair i) (map_of xs i), filter (\<lambda>(j, _). j \<noteq> i) xs)"

definition al_crates ::
  "(SchedTaskRef \<Rightarrow> 'r) \<Rightarrow>
   ((Tid \<times> 'r ReadyTask) list, (Tid \<times> SchedTaskRef) list, 'r) crates" where
  "al_crates mk =
     \<lparr>pq_empty = [],
      pq_push = (\<lambda>i p xs. (i, p) # filter (\<lambda>(j, _). j \<noteq> i) xs),
      pq_remove = al_remove,
      pq_peek = al_peek,
      pq_pop = (\<lambda>xs. case al_peek xs of None \<Rightarrow> (None, xs) | Some (i, p) \<Rightarrow> al_remove i xs),
      pq_change_priority_by = (\<lambda>i f. map (\<lambda>(j, p). (j, if j = i then f p else p))),
      pq_len = (\<lambda>xs. length (remdups (map fst xs))),
      ar_empty = [],
      ar_next_vacant = (\<lambda>xs. case find (\<lambda>k. map_of xs (of_nat k) = None) [0 ..< Suc (length xs)] of
         Some k \<Rightarrow> of_nat k | None \<Rightarrow> 0),
      ar_insert = (\<lambda>r xs. ((case find (\<lambda>k. map_of xs (of_nat k) = None) [0 ..< Suc (length xs)] of
         Some k \<Rightarrow> of_nat k | None \<Rightarrow> 0), r) # xs),
      ar_get = map_of,
      ar_remove = (\<lambda>i. filter (\<lambda>(j, _). j \<noteq> i)),
      spawn_unchecked = mk\<rparr>"

text \<open>A task that has not run yet.\<close>

definition blank_task :: SchedTask where
  "blank_task = \<lparr>tid = 0, t_load = LoadWeight_new 0, nice = 0, on_rq = False, run_queue = 0,
     exec_start = 0, sum_exec_runtime = 0, prev_sum_exec_runtime = 0, vruntime = VRuntime 0\<rparr>"

lemma pq_rules:
  assumes "pq_laws K contents"
  shows "contents (pq_empty K) = Map.empty"
    and "contents (pq_push K i p q) = (contents q)(i \<mapsto> p)"
    and "fst (pq_remove K i q) = map_option (Pair i) (contents q i)"
    and "contents (snd (pq_remove K i q)) = (contents q)(i := None)"
    and "pq_peek K q = None \<longleftrightarrow> contents q = Map.empty"
    and "pq_peek K q = Some (j, p) \<Longrightarrow> contents q j = Some p"
    and "pq_peek K q = Some (j, p) \<Longrightarrow> windowed (contents q) \<Longrightarrow> p' \<in> ran (contents q) \<Longrightarrow>
      rt_cmp p' p \<noteq> Greater"
    and "pq_pop K q = (case pq_peek K q of None \<Rightarrow> (None, q) | Some (i, p) \<Rightarrow> pq_remove K i q)"
    and "contents (pq_change_priority_by K i f q) = (contents q)(i := map_option f (contents q i))"
    and "finite (dom (contents q))" and "pq_len K q = card (dom (contents q))"
proof -
  have rm: "pq_remove K i q = (map_option (Pair i) (contents q i), snd (pq_remove K i q))"
    using assms unfolding pq_laws_def by blast
  show "fst (pq_remove K i q) = map_option (Pair i) (contents q i)"
    by (subst rm) simp
qed (use assms in \<open>unfold pq_laws_def, blast+\<close>)

lemma ar_rules:
  assumes "ar_laws K"
  shows "ar_get K (ar_empty K) = Map.empty"
    and "card (dom (ar_get K a)) < 2 ^ 63 \<Longrightarrow> ar_get K a (ar_next_vacant K a) = None"
    and "ar_get K (ar_insert K r a) = (ar_get K a)(ar_next_vacant K a \<mapsto> r)"
    and "ar_get K (ar_remove K i a) = (ar_get K a)(i := None)"
  using assms unfolding ar_laws_def by blast+

lemma rt_cmp_key:
  assumes "unat (vr (rt_vruntime a) - base) < 2 ^ 63" "unat (vr (rt_vruntime b) - base) < 2 ^ 63"
  shows "rt_cmp a b = Greater \<longleftrightarrow> unat (vr (rt_vruntime a) - base) < unat (vr (rt_vruntime b) - base)"
  unfolding rt_cmp_def vr_cmp_key[OF assms] by (simp add: cmp_of_def)

lemma foldl_best:
  fixes key :: "'b \<Rightarrow> nat"
  assumes "\<And>x y. x \<in> S \<Longrightarrow> y \<in> S \<Longrightarrow> better x y \<longleftrightarrow> key x < key y"
  shows "b \<in> S \<Longrightarrow> set xs \<subseteq> S \<Longrightarrow>
    (\<forall>x \<in> insert b (set xs). key (foldl (\<lambda>b c. if better c b then c else b) b xs) \<le> key x) \<and>
    foldl (\<lambda>b c. if better c b then c else b) b xs \<in> S"
proof (induction xs arbitrary: b)
  case (Cons x xs)
  let ?b = "if better x b then x else b"
  have "?b \<in> S" "key ?b \<le> key b" "key ?b \<le> key x" using Cons.prems assms by auto
  with Cons.IH[of ?b] Cons.prems show ?case by fastforce
qed simp

lemma foldl_choice: "foldl (\<lambda>b c. if better c b then c else b) b xs \<in> insert b (set xs)"
proof (induction xs arbitrary: b)
  case (Cons x xs)
  then show ?case using Cons.IH[of "if better x b then x else b"] by auto
qed simp

lemma al_peek_Some:
  assumes "al_peek xs = Some (i, p)"
  shows "map_of xs i = Some p"
proof -
  let ?ys = "map (\<lambda>i. (i, the (map_of xs i))) (map fst xs)"
  from assms obtain y ys where ys: "?ys = y # ys"
    and ip: "(i, p) = foldl (\<lambda>b c. if rt_cmp (snd c) (snd b) = Greater then c else b) y ys"
    by (auto simp: al_peek_def split: list.splits)
  have "(i, p) \<in> set ?ys"
    unfolding ys using foldl_choice[of "\<lambda>c b. rt_cmp (snd c) (snd b) = Greater" y ys] ip by simp
  then obtain p' where "(i, p') \<in> set xs" "p = the (map_of xs i)" by auto
  then show ?thesis by (cases "map_of xs i") (force simp: map_of_eq_None_iff)+
qed

lemma al_peek_best:
  assumes "al_peek xs = Some (i, p)" "windowed (map_of xs)" "p' \<in> ran (map_of xs)"
  shows "rt_cmp p' p \<noteq> Greater"
proof -
  let ?ys = "map (\<lambda>i. (i, the (map_of xs i))) (map fst xs)"
  from assms(1) obtain y ys where ys: "?ys = y # ys"
    and ip: "(i, p) = foldl (\<lambda>b c. if rt_cmp (snd c) (snd b) = Greater then c else b) y ys"
    by (auto simp: al_peek_def split: list.splits)
  from assms(2) obtain base where win: "\<forall>p \<in> ran (map_of xs). unat (vr (rt_vruntime p) - base) < 2 ^ 63"
    by (auto simp: windowed_def)
  let ?key = "\<lambda>c. unat (vr (rt_vruntime (snd c)) - base)"
  have sub: "set ?ys \<subseteq> {c. snd c \<in> ran (map_of xs)}"
    by (force simp: ran_def map_of_eq_None_iff dest: weak_map_of_SomeI)
  have cmp: "rt_cmp (snd c) (snd b) = Greater \<longleftrightarrow> ?key c < ?key b"
    if "c \<in> {c. snd c \<in> ran (map_of xs)}" "b \<in> {c. snd c \<in> ran (map_of xs)}" for c b
    using that win by (intro rt_cmp_key) blast+
  have "y \<in> {c. snd c \<in> ran (map_of xs)}" "set ys \<subseteq> {c. snd c \<in> ran (map_of xs)}"
    using sub unfolding ys by simp_all
  from foldl_best[of _ "\<lambda>c b. rt_cmp (snd c) (snd b) = Greater" ?key, OF cmp this]
  have best: "\<forall>c \<in> insert y (set ys). ?key (i, p) \<le> ?key c"
    unfolding ip by blast
  from assms(3) obtain j where j: "map_of xs j = Some p'" by (auto simp: ran_def)
  then have "(j, the (map_of xs j)) \<in> set ?ys"
    by (metis (mono_tags, lifting) domI dom_map_of_conv_image_fst image_eqI list.set_map)
  with j have "(j, p') \<in> set ?ys" by simp
  then have "(j, p') \<in> insert y (set ys)" unfolding ys by simp
  with best have "?key (i, p) \<le> ?key (j, p')" by blast
  moreover have "p \<in> ran (map_of xs)" using al_peek_Some[OF assms(1)] by (auto simp: ran_def)
  ultimately show ?thesis using rt_cmp_key[of p' base p] win assms(3) by auto
qed

lemma map_of_filter_ne: "map_of (filter (\<lambda>(j, _). j \<noteq> i) xs) = (map_of xs)(i := None)"
  by (induction xs) (auto simp: fun_eq_iff)

lemma al_remove_rules:
  "fst (al_remove i xs) = map_option (Pair i) (map_of xs i)"
  "map_of (snd (al_remove i xs)) = (map_of xs)(i := None)"
  by (simp_all add: al_remove_def map_of_filter_ne)

lemma map_of_change:
  "map_of (map (\<lambda>(j, p). (j, if j = i then f p else p)) xs) = (map_of xs)(i := map_option f (map_of xs i))"
  by (induction xs) (auto simp: fun_eq_iff)

lemma al_vacant:
  fixes xs :: "(Tid \<times> 'b) list"
  assumes "card (dom (map_of xs)) < 2 ^ 63"
  shows "\<exists>k. find (\<lambda>k. map_of xs (of_nat k) = None) [0 ..< Suc (length xs)] = Some k"
proof (rule ccontr)
  assume "\<not> ?thesis"
  then have all: "of_nat k \<in> dom (map_of xs)" if "k \<le> length xs" for k
    using that by (auto simp: find_None_iff less_Suc_eq_le simp del: upt_Suc)
  define n where "n = min (Suc (length xs)) (2 ^ 63)"
  have "inj_on (of_nat :: nat \<Rightarrow> Tid) {..<n}"
  proof (rule inj_onI)
    fix j k assume "j \<in> {..<n}" "k \<in> {..<n}" "(of_nat j :: Tid) = of_nat k"
    then have "unat (of_nat j :: Tid) = unat (of_nat k :: Tid)" "j < 2 ^ 63" "k < 2 ^ 63"
      by (simp_all add: n_def)
    then show "j = k" by (simp add: unat_of_nat)
  qed
  moreover have "of_nat ` {..<n} \<subseteq> dom (map_of xs)"
    by (intro image_subsetI all) (simp add: n_def)
  ultimately have "n \<le> card (dom (map_of xs))"
    using card_inj_on_le[of of_nat "{..<n}" "dom (map_of xs)"] finite_dom_map_of by simp
  moreover have "card (dom (map_of xs)) \<le> length xs"
    unfolding dom_map_of_conv_image_fst using card_image_le[of "set xs" fst] card_length[of xs] by simp
  ultimately show False using assms by (simp add: n_def min_def split: if_splits)
qed

lemma al_crates_sel:
  "pq_empty (al_crates mk) = []"
  "pq_push (al_crates mk) = (\<lambda>i p xs. (i, p) # filter (\<lambda>(j, _). j \<noteq> i) xs)"
  "pq_remove (al_crates mk) = al_remove"
  "pq_peek (al_crates mk) = al_peek"
  "pq_pop (al_crates mk) = (\<lambda>xs. case al_peek xs of None \<Rightarrow> (None, xs) | Some (i, p) \<Rightarrow> al_remove i xs)"
  "pq_change_priority_by (al_crates mk) = (\<lambda>i f. map (\<lambda>(j, p). (j, if j = i then f p else p)))"
  "pq_len (al_crates mk) = (\<lambda>xs. length (remdups (map fst xs)))"
  "ar_empty (al_crates mk) = []"
  "ar_get (al_crates mk) = map_of"
  "ar_remove (al_crates mk) = (\<lambda>i. filter (\<lambda>(j, _). j \<noteq> i))"
  "ar_insert (al_crates mk) = (\<lambda>r xs. (ar_next_vacant (al_crates mk) xs, r) # xs)"
  "spawn_unchecked (al_crates mk) = mk"
  by (simp_all add: al_crates_def)

lemma al_crate_laws: "crate_laws (al_crates mk) map_of"
proof -
  have "al_peek xs = None \<longleftrightarrow> map_of xs = Map.empty" for xs :: "(Tid \<times> 'a ReadyTask) list"
    by (cases xs) (auto simp: al_peek_def fun_eq_iff split: if_splits)
  moreover have "length (remdups (map fst xs)) = card (dom (map_of xs))" for xs :: "(Tid \<times> 'a ReadyTask) list"
    by (simp add: dom_map_of_conv_image_fst length_remdups_card_conv)
  ultimately have "pq_laws (al_crates mk) map_of"
    unfolding pq_laws_def al_crates_sel
    by (intro conjI allI impI ballI) (simp_all add: map_of_filter_ne map_of_change al_remove_rules
        al_remove_def finite_dom_map_of al_peek_Some al_peek_best)
  moreover have "map_of a (ar_next_vacant (al_crates mk) a) = None" if "card (dom (map_of a)) < 2 ^ 63" for a
  proof -
    from al_vacant[OF that] obtain k
      where k: "find (\<lambda>k. map_of a (of_nat k) = None) [0 ..< Suc (length a)] = Some k" by blast
    then have "map_of a (of_nat k) = None" by (auto simp: find_Some_iff)
    with k show ?thesis by (simp add: al_crates_def del: upt_Suc)
  qed
  then have "ar_laws (al_crates mk)"
    unfolding ar_laws_def al_crates_sel by (auto simp: map_of_filter_ne)
  ultimately show ?thesis by (simp add: crate_laws_def)
qed
section \<open>What each operation leaves alone\<close>

lemma update_min_vruntime_sel [simp]:
  "ready_tasks (update_min_vruntime K ts rq) = ready_tasks rq"
  "current_task (update_min_vruntime K ts rq) = current_task rq"
  "rq_load (update_min_vruntime K ts rq) = rq_load rq"
  "nr_running (update_min_vruntime K ts rq) = nr_running rq"
  by (simp_all add: update_min_vruntime_def Let_def)

lemma tick_sel [simp]:
  "tid (tick now t) = tid t" "t_load (tick now t) = t_load t" "on_rq (tick now t) = on_rq t"
  "run_queue (tick now t) = run_queue t"
  by (simp_all add: tick_def Let_def)

lemma insert_task_sel [simp]:
  "ready_tasks (insert_task K i rt ld rq) = pq_push K i rt (ready_tasks rq)"
  "current_task (insert_task K i rt ld rq) = current_task rq"
  "min_vruntime (insert_task K i rt ld rq) = min_vruntime rq"
  "nr_running (insert_task K i rt ld rq) = (if is_current_task rq i then nr_running rq else nr_running rq + 1)"
  "weight (rq_load (insert_task K i rt ld rq)) =
     (if is_current_task rq i then weight (rq_load rq) else weight (rq_load rq) + weight ld)"
  by (auto simp: insert_task_def is_current_task_def Let_def split: option.splits)

lemma remove_task_sel:
  fixes K :: "('q, 'a, 'r) crates"
  assumes "pq_laws K contents" "remove_task K r (ts, rq) = (ts', rq')"
  shows "ts' = ts(r := (ts r)\<lparr>on_rq := False\<rparr>)"
    and "contents (ready_tasks rq') = (contents (ready_tasks rq))(tid (ts r) := None)"
    and "current_task rq' = current_task rq"
    and "tid (ts r) \<in> dom (contents (ready_tasks rq)) \<or> is_current_task rq (tid (ts r)) \<Longrightarrow>
      nr_running rq' = nr_running rq - 1 \<and> weight (rq_load rq') = weight (rq_load rq) - weight (t_load (ts r))"
    and "\<not> (tid (ts r) \<in> dom (contents (ready_tasks rq)) \<or> is_current_task rq (tid (ts r))) \<Longrightarrow>
      nr_running rq' = nr_running rq \<and> weight (rq_load rq') = weight (rq_load rq)"
  using assms(2) pq_rules(3,4)[OF assms(1), of "tid (ts r)" "ready_tasks rq"]
  by (auto simp: remove_task_def Let_def is_current_task_def split: prod.splits option.splits if_splits)

lemma task_tick_sel:
  assumes "pq_laws K contents" "task_tick K now r (ts, rq) = (ts', rq')"
  shows "ts' = ts(r := tick now (ts r))"
    and "dom (contents (ready_tasks rq')) = dom (contents (ready_tasks rq))"
    and "current_task rq' = current_task rq"
    and "nr_running rq' = nr_running rq" and "rq_load rq' = rq_load rq"
  using assms(2) pq_rules(9)[OF assms(1)]
  by (auto simp: task_tick_def Let_def split: if_splits)

section \<open>Properties of the operations\<close>

lemma delta_fair_scaled:
  assumes "inv_weight (t_load t) = None" "0 < weight (t_load t)" "unat (weight (t_load t)) < 2 ^ 32"
    "unat d < 2 ^ 54"
  shows "unat (delta_fair t d) = (if weight (t_load t) = NICE_0_WEIGHT then unat d
    else scaled (unat d) (1024 * unat (get_inv_weight (t_load t))))"
proof (cases "weight (t_load t) = NICE_0_WEIGHT")
  case False
  have "unat d * 1024 div unat (weight (t_load t)) \<le> unat d * 1024" by (rule div_le_dividend)
  also have "\<dots> < 2 ^ 64" using assms(4) by simp
  finally have "unat (calc_delta d NICE_0_WEIGHT (t_load t)) = scaled (unat d) (1024 * unat (get_inv_weight (t_load t)))"
    using calc_delta_scaled(1)[OF assms(1-3), of NICE_0_WEIGHT d] by (simp add: NICE_0_WEIGHT_def)
  with False show ?thesis by (simp add: delta_fair_def)
qed (simp add: delta_fair_def)

lemma scaled_unit: "scaled d (2 ^ 32) = d"
proof -
  have "norm_steps (2 ^ 32) = 1" by (simp add: norm_steps.simps)
  then show ?thesis by (simp add: scaled_def trunc32_def)
qed

lemma scaled_nice_0:
  assumes "inv_weight lw = None" "0 < weight lw" "unat (weight lw) < 2 ^ 32"
  shows "unat (weight lw) < 1024 \<Longrightarrow> d \<le> scaled d (1024 * unat (get_inv_weight lw))"
    and "1024 \<le> unat (weight lw) \<Longrightarrow> scaled d (1024 * unat (get_inv_weight lw)) \<le> d"
proof -
  assume w: "unat (weight lw) < 1024"
  have "(2 ^ 32 - 1) div 1023 \<le> ((2 ^ 32 - 1) div unat (weight lw) :: nat)"
    using w assms(2) by (intro div_le_mono2) (simp_all add: word_less_nat_alt)
  then have "2 ^ 32 \<le> 1024 * unat (get_inv_weight lw)" by (simp add: unat_inv_weight[OF assms])
  from scaled_mono[OF order_refl this, of d] show "d \<le> scaled d (1024 * unat (get_inv_weight lw))"
    by (simp only: scaled_unit)
next
  assume "1024 \<le> unat (weight lw)"
  then have "1024 * unat (get_inv_weight lw) \<le> unat (get_inv_weight lw) * unat (weight lw)" by simp
  also have "\<dots> \<le> 2 ^ 32" using inv_weight_mult_le[OF assms] by simp
  finally have "1024 * unat (get_inv_weight lw) \<le> 2 ^ 32" .
  from scaled_mono[OF order_refl this, of d] show "scaled d (1024 * unat (get_inv_weight lw)) \<le> d"
    by (simp only: scaled_unit)
qed

lemma fair_cases:
  fixes ws wt S T d :: nat
  assumes "T \<le> S" "ws < 1024 \<Longrightarrow> d \<le> S" "1024 \<le> wt \<Longrightarrow> T \<le> d" "ws \<le> wt"
  shows "(if wt = 1024 then d else T) \<le> (if ws = 1024 then d else S)"
  using assms by (cases "ws < 1024") auto

text \<open>a heavier task is charged less: for the same execution time, the virtual runtime charged to
  a task of greater weight is at most the one charged to a lighter task, and a nice-0 task is charged
  the execution time itself.\<close>
lemma delta_fair_antitone:
  assumes "inv_weight (t_load s) = None" "inv_weight (t_load t) = None"
    and "0 < weight (t_load s)" "unat (weight (t_load t)) < 2 ^ 32" "unat d < 2 ^ 54"
    and le: "weight (t_load s) \<le> weight (t_load t)"
  shows "delta_fair t d \<le> delta_fair s d \<and> (weight (t_load t) = NICE_0_WEIGHT \<longrightarrow> delta_fair t d = d)"
proof
  show "weight (t_load t) = NICE_0_WEIGHT \<longrightarrow> delta_fair t d = d" by (simp add: delta_fair_def)
  have w: "0 < weight (t_load t)" "unat (weight (t_load s)) \<le> unat (weight (t_load t))"
    using assms(3) le by (auto simp: word_le_nat_alt word_less_nat_alt)
  then have s32: "unat (weight (t_load s)) < 2 ^ 32" using assms(4) by simp
  note fs = delta_fair_scaled[OF assms(1,3) s32 assms(5)]
  note ft = delta_fair_scaled[OF assms(2) w(1) assms(4,5)]
  have "unat (get_inv_weight (t_load t)) \<le> unat (get_inv_weight (t_load s))"
    unfolding unat_inv_weight[OF assms(1,3) s32] unat_inv_weight[OF assms(2) w(1) assms(4)]
    using w assms(3) by (intro div_le_mono2) (simp_all add: word_less_nat_alt)
  then have "scaled (unat d) (1024 * unat (get_inv_weight (t_load t)))
      \<le> scaled (unat d) (1024 * unat (get_inv_weight (t_load s)))"
    by (intro scaled_mono) simp_all
  moreover have n0: "weight l = NICE_0_WEIGHT \<longleftrightarrow> unat (weight l) = 1024" for l
    unfolding NICE_0_WEIGHT_def word_unat_eq_iff by simp
  ultimately have "unat (delta_fair t d) \<le> unat (delta_fair s d)"
    using scaled_nice_0(1)[OF assms(1,3) s32] scaled_nice_0(2)[OF assms(2) w(1) assms(4)] w(2)
    unfolding fs ft n0 by (intro fair_cases)
  then show "delta_fair t d \<le> delta_fair s d" by (simp only: word_le_nat_alt)
qed

end
