(* ===== verification/Sched_Invariant.thy ===== *)
theory Sched_Invariant
  imports Sched_Queue
begin

text \<open>
  The run loop of one executor as a state machine (\<open>Executor::run\<close> of
  \<^verbatim>\<open>src/kernel/src/task/executor/mod.rs\<close>) with wake-ups and spawns between its steps: the ready
  queue and the counters of the run queue agree, the idle task is always available, and choosing the
  next task never panics. Then what the counters do when a task completes, is woken too early or is
  stolen.
\<close>

section \<open>The steps of one processor\<close>

text \<open>Where the loop of \<open>Executor::run\<close> is: about to choose a task, running one, or back from
  \<^verbatim>\<open>runnable.run()\<close> with its result.\<close>

datatype 'r phase =
    Choosing
  | Running Tid SchedTaskRef 'r
  | Returned Tid SchedTaskRef bool

type_synonym ('q, 'a, 'r) cpu_state = "('q, 'a) GlobalState \<times> 'r phase"

text \<open>A wake-up calls \<open>schedule_fn\<close> only for a task that is neither queued nor running; a task woken
  while it runs is queued by \<^verbatim>\<open>runnable.run()\<close> itself, which then returns true (\<open>yield\<close>). The idle
  task always wakes itself before it suspends, so it never takes the step \<open>pend\<close>. Two events are left
  out, and treated in the section on accounting below: the completion of a task, and a wake-up of the
  task that has just suspended before the queue has chosen another one.\<close>

inductive cpu_step ::
  "('q, 'a, 'r) crates \<Rightarrow> Tid \<Rightarrow> ('q, 'a, 'r) cpu_state \<Rightarrow> ('q, 'a, 'r) cpu_state \<Rightarrow> bool"
  for K idle where
  pop: "pop_task_to_run K 0 rq_free task_free now g = Inr ((i, r, rn), g') \<Longrightarrow>
    cpu_step K idle (g, Choosing) (g', Running i r rn)"
| yield: "cpu_step K idle (g, Running i r rn) (schedule_fn K r rn g, Returned i r True)"
| pend: "i \<noteq> idle \<Longrightarrow> cpu_step K idle (g, Running i r rn) (g, Returned i r False)"
| finish: "cpu_step K idle (g, Returned i r y) (after_run K 0 y now r g, Choosing)"
| wake: "ar_get K (active_tasks g) i = Some r \<Longrightarrow> \<not> on_rq (tasks g r) \<Longrightarrow>
    \<not> is_current_task (executors g ! 0) i \<Longrightarrow>
    cpu_step K idle (g, ph) (schedule_fn K r rn g, ph)"
| spawn_step: "spawn K 0 n opts g = Inr (r, g') \<Longrightarrow> card (dom (ar_get K (active_tasks g))) < 2 ^ 63 \<Longrightarrow>
    cpu_step K idle (g, ph) (g', ph)"

inductive cpu_reach :: "('q, 'a, 'r) crates \<Rightarrow> ('q, 'a, 'r) cpu_state \<Rightarrow> bool" for K where
  boot: "sched_init K ts 1 = Inr g \<Longrightarrow> cpu_reach K (g, Choosing)"
| step: "cpu_reach K s \<Longrightarrow> cpu_step K (ar_next_vacant K (ar_empty K)) s s' \<Longrightarrow> cpu_reach K s'"

section \<open>The invariant\<close>

abbreviation rq0 :: "('q, 'a) GlobalState \<Rightarrow> 'q RunQueue" where
  "rq0 g \<equiv> executors g ! 0"

definition ready :: "('q \<Rightarrow> Tid \<rightharpoonup> 'r ReadyTask) \<Rightarrow> ('q, 'a) GlobalState \<Rightarrow> Tid set" where
  "ready contents g = dom (contents (ready_tasks (rq0 g)))"

text \<open>The tasks the queue is responsible for: the ready ones, and the current one while it counts as
  queued.\<close>

definition members :: "('q \<Rightarrow> Tid \<rightharpoonup> 'r ReadyTask) \<Rightarrow> ('q, 'a) GlobalState \<Rightarrow> Tid set" where
  "members contents g = ready contents g \<union>
     {i. \<exists>r. current_task (rq0 g) = Some (i, r) \<and> on_rq (tasks g r)}"

definition task_of :: "('q, 'a, 'r) crates \<Rightarrow> ('q, 'a) GlobalState \<Rightarrow> Tid \<Rightarrow> SchedTask" where
  "task_of K g i = tasks g (the (ar_get K (active_tasks g) i))"

definition accounted ::
  "('q, 'a, 'r) crates \<Rightarrow> ('q \<Rightarrow> Tid \<rightharpoonup> 'r ReadyTask) \<Rightarrow> ('q, 'a) GlobalState \<Rightarrow> bool" where
  "accounted K contents g \<longleftrightarrow>
     nr_running (rq0 g) = of_nat (card (members contents g)) \<and>
     weight (rq_load (rq0 g)) = (\<Sum>i\<in>members contents g. weight (t_load (task_of K g i)))"

definition linked ::
  "('q, 'a, 'r) crates \<Rightarrow> ('q \<Rightarrow> Tid \<rightharpoonup> 'r ReadyTask) \<Rightarrow> ('q, 'a) GlobalState \<Rightarrow> bool" where
  "linked K contents g \<longleftrightarrow> length (executors g) = 1 \<and>
     (\<forall>i r. ar_get K (active_tasks g) i = Some r \<longrightarrow>
        tid (tasks g r) = i \<and> run_queue (tasks g r) = 0 \<and> r < next_ref g) \<and>
     (\<forall>i \<in> ready contents g. i \<in> dom (ar_get K (active_tasks g)) \<and> on_rq (task_of K g i)) \<and>
     (\<forall>i r. current_task (rq0 g) = Some (i, r) \<longrightarrow> ar_get K (active_tasks g) i = Some r) \<and>
     card (dom (ar_get K (active_tasks g))) \<le> 2 ^ 63"

fun phase_ok :: "('q \<Rightarrow> Tid \<rightharpoonup> 'r ReadyTask) \<Rightarrow> Tid \<Rightarrow> ('q, 'a, 'r) cpu_state \<Rightarrow> bool" where
  "phase_ok contents idle (g, Choosing) \<longleftrightarrow> idle \<in> ready contents g \<and>
     (\<forall>i r. current_task (rq0 g) = Some (i, r) \<longrightarrow> (on_rq (tasks g r) \<longleftrightarrow> i \<in> ready contents g))"
| "phase_ok contents idle (g, Running i r rn) \<longleftrightarrow> current_task (rq0 g) = Some (i, r) \<and>
     on_rq (tasks g r) \<and> i \<notin> ready contents g \<and> (i = idle \<or> idle \<in> ready contents g)"
| "phase_ok contents idle (g, Returned i r y) \<longleftrightarrow> current_task (rq0 g) = Some (i, r) \<and>
     on_rq (tasks g r) \<and> (i \<in> ready contents g \<longleftrightarrow> y) \<and> idle \<in> ready contents g"

definition cpu_inv ::
  "('q, 'a, 'r) crates \<Rightarrow> ('q \<Rightarrow> Tid \<rightharpoonup> 'r ReadyTask) \<Rightarrow> Tid \<Rightarrow> ('q, 'a, 'r) cpu_state \<Rightarrow> bool" where
  "cpu_inv K contents idle s \<longleftrightarrow>
     linked K contents (fst s) \<and> accounted K contents (fst s) \<and> phase_ok contents idle s"


section \<open>Choosing a task\<close>

lemma preempt_current_total:
  assumes "pq_laws K contents" "contents (ready_tasks rq) \<noteq> Map.empty"
  shows "\<exists>b. preempt_current K cur rq = Inr b"
proof -
  obtain j p where "pq_peek K (ready_tasks rq) = Some (j, p)"
    using pq_rules(5)[OF assms(1)] assms(2) by (metis not_None_eq surj_pair)
  then show ?thesis unfolding preempt_current_def peek_def Let_def by (simp split: if_split) blast
qed

lemma pq_removeE:
  assumes "pq_laws K contents"
  obtains q' where "pq_remove K i q = (map_option (Pair i) (contents q i), q')"
    "contents q' = (contents q)(i := None)"
  using pq_rules(3,4)[OF assms] by (metis prod.collapse)

lemma preempt_current_off_rq: "\<not> on_rq cur \<Longrightarrow> preempt_current K cur rq = Inr True"
  by (simp add: preempt_current_def Let_def)

lemma peek_total:
  assumes "pq_laws K contents" "contents q \<noteq> Map.empty"
  obtains j p where "pq_peek K q = Some (j, p)" "contents q j = Some p"
  using pq_rules(5,6)[OF assms(1)] assms(2) by (metis not_None_eq surj_pair)

lemma next_task_preempt:
  assumes laws: "pq_laws K contents"
    and cur: "current_task rq = Some (c, r)" "preempt_current K (ts r) rq = Inr True" "\<not> nr_running rq < 2"
    and other: "j \<in> dom (contents (ready_tasks rq))" "j \<noteq> c"
  shows "\<exists>i p q q1. next_task K ts rq = Inr (i, rq\<lparr>ready_tasks := q\<rparr>) \<and> contents q = contents (ready_tasks rq) \<and>
    i \<noteq> c \<and> contents (ready_tasks rq) i = Some p \<and>
    contents q1 = (contents (ready_tasks rq))(c := None) \<and> pq_peek K q1 = Some (i, p)"
proof -
  let ?q = "ready_tasks rq"
  obtain q1 where rm: "pq_remove K c ?q = (map_option (Pair c) (contents ?q c), q1)"
    and q1: "contents q1 = (contents ?q)(c := None)" by (rule pq_removeE[OF laws])
  with other have "contents q1 \<noteq> Map.empty" by (auto simp: fun_eq_iff)
  then obtain i p where ip: "pq_peek K q1 = Some (i, p)" "contents q1 i = Some p"
    by (rule peek_total[OF laws])
  with q1 have i: "i \<noteq> c" "contents ?q i = Some p" by (auto split: if_splits)
  define q where "q = (case contents ?q c of Some rt \<Rightarrow> pq_push K c rt q1 | None \<Rightarrow> q1)"
  have "contents q = contents ?q"
    by (auto simp: q_def q1 pq_rules(2)[OF laws] fun_eq_iff split: option.splits)
  moreover have "next_task K ts rq = Inr (i, rq\<lparr>ready_tasks := q\<rparr>)"
    using cur ip rm by (auto simp: next_task_def q_def Let_def split: option.splits)
  ultimately show ?thesis using i ip q1 by blast
qed

lemma next_task_total:
  assumes laws: "pq_laws K contents" and idle: "idle \<in> dom (contents (ready_tasks rq))"
    and cur: "\<And>i r. current_task rq = Some (i, r) \<Longrightarrow> on_rq (ts r) \<longleftrightarrow> i \<in> dom (contents (ready_tasks rq))"
    and nr: "nr_running rq = of_nat (card (dom (contents (ready_tasks rq))))"
      "card (dom (contents (ready_tasks rq))) \<le> 2 ^ 63"
  shows "\<exists>i q. next_task K ts rq = Inr (i, rq\<lparr>ready_tasks := q\<rparr>) \<and> contents q = contents (ready_tasks rq) \<and>
    i \<in> dom (contents (ready_tasks rq))"
proof -
  let ?m = "contents (ready_tasks rq)"
  have ne: "?m \<noteq> Map.empty" using idle by auto
  obtain j p where jp: "pq_peek K (ready_tasks rq) = Some (j, p)" "?m j = Some p"
    using ne by (rule peek_total[OF laws])
  have same: ?thesis if "next_task K ts rq = Inr (i, rq)" "i \<in> dom ?m" for i
    using that by (intro exI[of _ i] exI[of _ "ready_tasks rq"]) simp
  show ?thesis
  proof (cases "nr_running rq < 2 \<or> current_task rq = None")
    case True
    then have "next_task K ts rq = Inr (j, rq)"
      using jp by (auto simp: next_task_def peek_def split: option.splits)
    then show ?thesis using jp(2) by (intro same) auto
  next
    case False
    then obtain c r where c: "current_task rq = Some (c, r)" and n2: "\<not> nr_running rq < 2" by auto
    from preempt_current_total[OF laws ne] obtain b where b: "preempt_current K (ts r) rq = Inr b" by blast
    show ?thesis
    proof (cases b)
      case True
      have "2 \<le> card (dom ?m)" using n2 nr by (simp add: word_less_nat_alt unat_of_nat)
      then obtain j where "j \<in> dom ?m" "j \<noteq> c"
        by (metis card_le_Suc0_iff_eq pq_rules(10)[OF laws] not_less_eq_eq numeral_2_eq_2)
      moreover from b True have "preempt_current K (ts r) rq = Inr True" by simp
      ultimately show ?thesis using next_task_preempt[OF laws c _ n2, of ts j] by blast
    next
      case False
      with b have "on_rq (ts r)" using preempt_current_off_rq[of "ts r" K rq] by auto
      with cur[OF c] have "c \<in> dom ?m" by simp
      moreover have "next_task K ts rq = Inr (c, rq)" using c n2 b False by (simp add: next_task_def)
      ultimately show ?thesis by (intro same)
    qed
  qed
qed

lemma pop_single:
  assumes "length (executors g) = 1"
  shows "pop_task_to_run K 0 rq_free task_free now g =
    bindE (next_task K (tasks g) (rq0 g)) (\<lambda>(i, rq).
      let (removed, q) = pq_remove K i (ready_tasks rq)
      in bindE (unwrap removed) (\<lambda>(_, rt).
         bindE (unwrap (ar_get K (active_tasks g) i)) (\<lambda>r.
           Inr ((i, r, runnable rt),
             g\<lparr>executors := [rq\<lparr>ready_tasks := q, current_task := Some (i, r)\<rparr>],
               tasks := (tasks g)(r := (tasks g r)\<lparr>exec_start := now\<rparr>)\<rparr>))))"
proof -
  from assms obtain rq where rq: "executors g = [rq]" by (auto simp: length_Suc_conv)
  then have "try_steal_tasks K 0 rq_free task_free g = Inr g"
    by (simp add: try_steal_tasks_def other_run_queues_def)
  then show ?thesis using rq by (simp add: pop_task_to_run_def Let_def)
qed

lemma members_Choosing: "phase_ok contents idle (g, Choosing) \<Longrightarrow> members contents g = ready contents g"
  by (auto simp: members_def)

lemma pop_total:
  assumes laws: "crate_laws K contents" and inv: "cpu_inv K contents idle (g, Choosing)"
  shows "\<exists>i r rn g'. pop_task_to_run K 0 rq_free task_free now g = Inr ((i, r, rn), g') \<and>
    cpu_inv K contents idle (g', Running i r rn)"
proof -
  note pq = laws[unfolded crate_laws_def, THEN conjunct1]
  from inv have lk: "linked K contents g" and ac: "accounted K contents g"
    and ph: "phase_ok contents idle (g, Choosing)" by (simp_all add: cpu_inv_def)
  note M = members_Choosing[OF ph]
  have "card (ready contents g) \<le> card (dom (ar_get K (active_tasks g)))"
    using lk by (intro card_mono) (auto simp: linked_def)
  then have c63: "card (dom (contents (ready_tasks (rq0 g)))) \<le> 2 ^ 63" using lk by (simp add: linked_def ready_def)
  have "\<exists>i q. next_task K (tasks g) (rq0 g) = Inr (i, (rq0 g)\<lparr>ready_tasks := q\<rparr>) \<and>
      contents q = contents (ready_tasks (rq0 g)) \<and> i \<in> dom (contents (ready_tasks (rq0 g)))"
    using ph ac M c63 by (intro next_task_total[OF pq, of idle]) (simp_all add: ready_def accounted_def)
  then obtain i q where nt: "next_task K (tasks g) (rq0 g) = Inr (i, (rq0 g)\<lparr>ready_tasks := q\<rparr>)"
    and q: "contents q = contents (ready_tasks (rq0 g))" and i: "i \<in> ready contents g"
    by (auto simp: ready_def)
  from i q obtain rt where rt: "contents q i = Some rt" by (auto simp: ready_def)
  from i lk obtain r where r: "ar_get K (active_tasks g) i = Some r" "on_rq (tasks g r)"
    by (auto simp: linked_def task_of_def)
  obtain q' where rm: "pq_remove K i q = (Some (i, rt), q')"
    and q': "contents q' = (contents (ready_tasks (rq0 g)))(i := None)"
    using pq_removeE[OF pq, of i q] rt q by (metis option.map(2))
  let ?g = "g\<lparr>executors := [(rq0 g)\<lparr>ready_tasks := q', current_task := Some (i, r)\<rparr>],
             tasks := (tasks g)(r := (tasks g r)\<lparr>exec_start := now\<rparr>)\<rparr>"
  have pop: "pop_task_to_run K 0 rq_free task_free now g = Inr ((i, r, runnable rt), ?g)"
    using lk nt rm r by (subst pop_single) (simp_all add: linked_def Let_def)
  have rd: "ready contents ?g = ready contents g - {i}" by (auto simp: ready_def q')
  have mem: "members contents ?g = members contents g"
    unfolding M using i r by (auto simp: members_def rd)
  have tk: "t_load (task_of K ?g j) = t_load (task_of K g j)" "on_rq (task_of K ?g j) = on_rq (task_of K g j)" for j
    by (simp_all add: task_of_def)
  have "linked K contents ?g" using lk r by (auto simp: linked_def rd tk)
  moreover have "accounted K contents ?g" using ac by (simp add: accounted_def mem tk)
  moreover have "phase_ok contents idle (?g, Running i r (runnable rt))" using ph r by (auto simp: rd)
  ultimately show ?thesis using pop by (auto simp: cpu_inv_def)
qed

section \<open>The other steps\<close>

lemma linked_inj:
  "linked K contents g \<Longrightarrow> ar_get K (active_tasks g) i = Some r \<Longrightarrow> ar_get K (active_tasks g) j = Some r \<Longrightarrow> i = j"
  unfolding linked_def by metis

lemma linked_current:
  "linked K contents g \<Longrightarrow> current_task (rq0 g) = Some (i, r) \<Longrightarrow> ar_get K (active_tasks g) i = Some r"
  by (simp add: linked_def)

lemma finite_members:
  assumes "pq_laws K contents"
  shows "finite (members contents g)"
proof -
  have "{i. \<exists>r. current_task (rq0 g) = Some (i, r) \<and> on_rq (tasks g r)} \<subseteq> set_option (map_option fst (current_task (rq0 g)))"
    by auto
  then show ?thesis
    using pq_rules(10)[OF assms] finite_subset by (fastforce simp: members_def ready_def)
qed

lemma schedule_fn_sel:
  fixes K :: "('q, 'a, 'r) crates" and rn :: 'r
  assumes "pq_laws K contents" "linked K contents g" "ar_get K (active_tasks g) i = Some r"
  defines "g' \<equiv> schedule_fn K r rn g"
  shows "length (executors g') = 1" "active_tasks g' = active_tasks g" "next_ref g' = next_ref g"
    "ready contents g' = insert i (ready contents g)"
    "current_task (rq0 g') = current_task (rq0 g)"
    "nr_running (rq0 g') = (if is_current_task (rq0 g) i then nr_running (rq0 g) else nr_running (rq0 g) + 1)"
    "weight (rq_load (rq0 g')) = (if is_current_task (rq0 g) i then weight (rq_load (rq0 g))
       else weight (rq_load (rq0 g)) + weight (t_load (tasks g r)))"
    "tid (tasks g' s) = tid (tasks g s)" "t_load (tasks g' s) = t_load (tasks g s)"
    "run_queue (tasks g' s) = run_queue (tasks g s)" "on_rq (tasks g' s) \<longleftrightarrow> s = r \<or> on_rq (tasks g s)"
proof -
  from assms have "length (executors g) = 1" "tid (tasks g r) = i" "run_queue (tasks g r) = 0"
    by (auto simp: linked_def)
  then show "length (executors g') = 1" "active_tasks g' = active_tasks g" "next_ref g' = next_ref g"
    "ready contents g' = insert i (ready contents g)"
    "current_task (rq0 g') = current_task (rq0 g)"
    "nr_running (rq0 g') = (if is_current_task (rq0 g) i then nr_running (rq0 g) else nr_running (rq0 g) + 1)"
    "weight (rq_load (rq0 g')) = (if is_current_task (rq0 g) i then weight (rq_load (rq0 g))
       else weight (rq_load (rq0 g)) + weight (t_load (tasks g r)))"
    "tid (tasks g' s) = tid (tasks g s)" "t_load (tasks g' s) = t_load (tasks g s)"
    "run_queue (tasks g' s) = run_queue (tasks g s)" "on_rq (tasks g' s) \<longleftrightarrow> s = r \<or> on_rq (tasks g s)"
    by (simp_all add: g'_def schedule_fn_def Let_def ready_def pq_rules(2)[OF assms(1)])
qed

lemma linked_schedule_fn:
  assumes "pq_laws K contents" "linked K contents g" "ar_get K (active_tasks g) i = Some r"
  shows "linked K contents (schedule_fn K r rn g)"
  using assms(2,3) unfolding linked_def task_of_def schedule_fn_sel[OF assms] by auto

lemma wake_preserves:
  assumes laws: "crate_laws K contents" and inv: "cpu_inv K contents idle (g, ph)"
    and wake: "ar_get K (active_tasks g) i = Some r" "\<not> on_rq (tasks g r)" "\<not> is_current_task (rq0 g) i"
  shows "cpu_inv K contents idle (schedule_fn K r rn g, ph)"
proof -
  note pq = laws[unfolded crate_laws_def, THEN conjunct1]
  from inv have lk: "linked K contents g" and ac: "accounted K contents g"
    and ph: "phase_ok contents idle (g, ph)" by (simp_all add: cpu_inv_def)
  let ?g = "schedule_fn K r rn g"
  note sel = schedule_fn_sel[OF pq lk wake(1)]
  have ir: "i \<notin> ready contents g" using lk wake by (auto simp: linked_def task_of_def)
  have cur: "c \<noteq> i \<and> s \<noteq> r" if "current_task (rq0 g) = Some (c, s)" for c s
    using linked_current[OF lk that] linked_inj[OF lk wake(1)] that wake(3)
    by (auto simp: is_current_task_def)
  have mem: "members contents ?g = insert i (members contents g)"
    unfolding members_def sel using cur by auto
  have "i \<notin> members contents g" using ir cur by (auto simp: members_def)
  then have "accounted K contents ?g"
    using ac wake finite_members[OF pq, of g]
    by (simp add: accounted_def mem task_of_def sel add.commute)
  moreover have "phase_ok contents idle (?g, ph)"
    using ph cur by (cases ph) (auto simp: sel)
  ultimately show ?thesis using linked_schedule_fn[OF pq lk wake(1)] by (simp add: cpu_inv_def)
qed

lemma yield_preserves:
  assumes laws: "crate_laws K contents" and inv: "cpu_inv K contents idle (g, Running i r rn)"
  shows "cpu_inv K contents idle (schedule_fn K r rn g, Returned i r True)"
proof -
  note pq = laws[unfolded crate_laws_def, THEN conjunct1]
  from inv have lk: "linked K contents g" and ac: "accounted K contents g"
    and ph: "phase_ok contents idle (g, Running i r rn)" by (simp_all add: cpu_inv_def)
  let ?g = "schedule_fn K r rn g"
  from lk ph have r: "ar_get K (active_tasks g) i = Some r" by (simp add: linked_def)
  note sel = schedule_fn_sel[OF pq lk r]
  have cur: "is_current_task (rq0 g) i" using ph by (simp add: is_current_task_def)
  have "members contents ?g = members contents g" unfolding members_def sel using ph by auto
  then have "accounted K contents ?g" using ac cur by (simp add: accounted_def task_of_def sel)
  moreover have "phase_ok contents idle (?g, Returned i r True)" using ph by (auto simp: sel)
  ultimately show ?thesis using linked_schedule_fn[OF pq lk r] by (simp add: cpu_inv_def)
qed

lemma pend_preserves:
  "cpu_inv K contents idle (g, Running i r rn) \<Longrightarrow> i \<noteq> idle \<Longrightarrow> cpu_inv K contents idle (g, Returned i r False)"
  by (simp add: cpu_inv_def)

lemma after_run_sel:
  fixes now :: usize
  assumes "pq_laws K contents" "linked K contents g"
    and "current_task (rq0 g) = Some (i, r)" "i \<in> ready contents g \<longleftrightarrow> y"
  defines "g' \<equiv> after_run K 0 y now r g"
  shows "length (executors g') = 1" "active_tasks g' = active_tasks g" "next_ref g' = next_ref g"
    "ready contents g' = ready contents g" "current_task (rq0 g') = Some (i, r)"
    "nr_running (rq0 g') = (if y then nr_running (rq0 g) else nr_running (rq0 g) - 1)"
    "weight (rq_load (rq0 g')) = (if y then weight (rq_load (rq0 g))
       else weight (rq_load (rq0 g)) - weight (t_load (tasks g r)))"
    "tid (tasks g' s) = tid (tasks g s)" "t_load (tasks g' s) = t_load (tasks g s)"
    "run_queue (tasks g' s) = run_queue (tasks g s)"
    "on_rq (tasks g' s) \<longleftrightarrow> (if s = r \<and> \<not> y then False else on_rq (tasks g s))"
proof -
  from assms have g: "length (executors g) = 1" "tid (tasks g r) = i" by (auto simp: linked_def)
  obtain ts rq where st: "(if \<not> y then remove_task K r (tasks g, rq0 g) else (tasks g, rq0 g)) = (ts, rq)"
    by fastforce
  obtain ts' rq' where tk: "task_tick K now r (ts, rq) = (ts', rq')" by fastforce
  have g': "g' = g\<lparr>executors := (executors g)[0 := rq'], tasks := ts'\<rparr>"
    unfolding g'_def after_run_def Let_def st tk by simp
  note tsel = task_tick_sel[OF assms(1) tk]
  have rq: "dom (contents (ready_tasks rq)) = ready contents g" "current_task rq = Some (i, r)"
    "nr_running rq = (if y then nr_running (rq0 g) else nr_running (rq0 g) - 1)"
    "weight (rq_load rq) = (if y then weight (rq_load (rq0 g))
       else weight (rq_load (rq0 g)) - weight (t_load (tasks g r)))"
    "ts = (if y then tasks g else (tasks g)(r := (tasks g r)\<lparr>on_rq := False\<rparr>))"
    using st remove_task_sel[OF assms(1), of r "tasks g" "rq0 g" ts rq] assms(3,4) g(2)
    by (auto simp: ready_def is_current_task_def split: if_splits)
  show "length (executors g') = 1" "active_tasks g' = active_tasks g" "next_ref g' = next_ref g"
    "ready contents g' = ready contents g" "current_task (rq0 g') = Some (i, r)"
    "nr_running (rq0 g') = (if y then nr_running (rq0 g) else nr_running (rq0 g) - 1)"
    "weight (rq_load (rq0 g')) = (if y then weight (rq_load (rq0 g))
       else weight (rq_load (rq0 g)) - weight (t_load (tasks g r)))"
    "tid (tasks g' s) = tid (tasks g s)" "t_load (tasks g' s) = t_load (tasks g s)"
    "run_queue (tasks g' s) = run_queue (tasks g s)"
    "on_rq (tasks g' s) \<longleftrightarrow> (if s = r \<and> \<not> y then False else on_rq (tasks g s))"
    using g by (simp_all add: g' tsel rq ready_def[of _ "g\<lparr>executors := e, tasks := f\<rparr>" for e f] )
qed

lemma finish_preserves:
  assumes laws: "crate_laws K contents" and inv: "cpu_inv K contents idle (g, Returned i r y)"
  shows "cpu_inv K contents idle (after_run K 0 y now r g, Choosing)"
proof -
  note pq = laws[unfolded crate_laws_def, THEN conjunct1]
  from inv have lk: "linked K contents g" and ac: "accounted K contents g"
    and ph: "phase_ok contents idle (g, Returned i r y)" by (simp_all add: cpu_inv_def)
  let ?g = "after_run K 0 y now r g"
  from ph have cur: "current_task (rq0 g) = Some (i, r)" "i \<in> ready contents g \<longleftrightarrow> y" "on_rq (tasks g r)"
    by simp_all
  from lk cur have r: "ar_get K (active_tasks g) i = Some r" by (simp add: linked_def)
  note sel = after_run_sel[OF pq lk cur(1,2), where now = now]
  have other: "the (ar_get K (active_tasks g) j) \<noteq> r" if "j \<in> ready contents g" "\<not> y" for j
  proof -
    from that(1) lk obtain s where "ar_get K (active_tasks g) j = Some s" by (auto simp: linked_def)
    with that linked_inj[OF lk r] cur(2) show ?thesis by auto
  qed
  have lk': "linked K contents ?g"
    using lk r other unfolding linked_def task_of_def sel by (auto simp: cur(1))
  have ph': "phase_ok contents idle (?g, Choosing)" using ph by (auto simp: sel)
  have "members contents g = insert i (ready contents g)" using cur by (auto simp: members_def)
  moreover have "finite (ready contents g)" using pq_rules(10)[OF pq] by (simp add: ready_def)
  ultimately have "accounted K contents ?g"
    using ac cur(2) r unfolding accounted_def members_Choosing[OF ph'] task_of_def sel
    by (cases y) (simp_all add: insert_absorb)
  with lk' ph' show ?thesis by (simp add: cpu_inv_def)
qed



text \<open>The task that \<open>spawn\<close> creates.\<close>

definition spawned ::
  "('q, 'a, 'r) crates \<Rightarrow> RunQueueRef \<Rightarrow> usize \<Rightarrow> usize \<Rightarrow> SpawnExtraOptions \<Rightarrow> ('q, 'a) GlobalState \<Rightarrow> SchedTask" where
  "spawned K self n w opts g =
     (let rq = executors g ! self;
          v = (case opts of NoOptions \<Rightarrow> min_vruntime rq | Fork p \<Rightarrow> vruntime (tasks g p));
          t = \<lparr>tid = ar_next_vacant K (active_tasks g), t_load = LoadWeight_new w, nice = n, on_rq = False,
               run_queue = self, exec_start = 0, sum_exec_runtime = 0, prev_sum_exec_runtime = 0,
               vruntime = v\<rparr>
      in t\<lparr>vruntime := vr_max v (vr_add (min_vruntime rq) (sched_vslice rq t))\<rparr>)"

lemma spawn_eq:
  "spawn K self n opts g = bindE (nice_to_weight n) (\<lambda>w.
     let t = spawned K self n w opts g
     in Inr (next_ref g, g\<lparr>active_tasks := ar_insert K (next_ref g) (active_tasks g),
          executors := (executors g)[self := insert_task K (tid t)
            \<lparr>rt_vruntime = vruntime t, runnable = spawn_unchecked K (next_ref g)\<rparr> (t_load t) (executors g ! self)],
          tasks := (tasks g)(next_ref g := t\<lparr>on_rq := True\<rparr>), next_ref := Suc (next_ref g)\<rparr>))"
  by (cases "nice_to_weight n")
    (simp_all add: spawn_def SchedTask_new_def SCHED_CHILD_RUNS_FIRST_def spawned_def Let_def)

lemma spawned_sel [simp]:
  "tid (spawned K self n w opts g) = ar_next_vacant K (active_tasks g)"
  "run_queue (spawned K self n w opts g) = self" "t_load (spawned K self n w opts g) = LoadWeight_new w"
  "on_rq (spawned K self n w opts g) = False"
  by (simp_all add: spawned_def Let_def)

lemma spawn_sel:
  assumes "pq_laws K contents" "ar_laws K" "length (executors g) = 1" "spawn K 0 n opts g = Inr (r, g')"
  defines "i \<equiv> ar_next_vacant K (active_tasks g)"
  shows "length (executors g') = 1" "next_ref g' = Suc (next_ref g)" "r = next_ref g"
    "ar_get K (active_tasks g') = (ar_get K (active_tasks g))(i \<mapsto> r)"
    "ready contents g' = insert i (ready contents g)"
    "current_task (rq0 g') = current_task (rq0 g)"
    "nr_running (rq0 g') = (if is_current_task (rq0 g) i then nr_running (rq0 g) else nr_running (rq0 g) + 1)"
    "weight (rq_load (rq0 g')) = (if is_current_task (rq0 g) i then weight (rq_load (rq0 g))
       else weight (rq_load (rq0 g)) + weight (t_load (tasks g' r)))"
    "tid (tasks g' r) = i" "run_queue (tasks g' r) = 0" "on_rq (tasks g' r)"
    "s \<noteq> r \<Longrightarrow> tasks g' s = tasks g s"
proof -
  from assms(4) obtain w where g': "r = next_ref g"
    "g' = g\<lparr>active_tasks := ar_insert K r (active_tasks g),
        executors := (executors g)[0 := insert_task K i
            \<lparr>rt_vruntime = vruntime (spawned K 0 n w opts g), runnable = spawn_unchecked K r\<rparr>
            (LoadWeight_new w) (rq0 g)],
        tasks := (tasks g)(r := (spawned K 0 n w opts g)\<lparr>on_rq := True\<rparr>), next_ref := Suc r\<rparr>"
    by (auto simp: spawn_eq Let_def bindE_eq_Inr i_def)
  show "length (executors g') = 1" "next_ref g' = Suc (next_ref g)" "r = next_ref g"
    "ar_get K (active_tasks g') = (ar_get K (active_tasks g))(i \<mapsto> r)"
    "ready contents g' = insert i (ready contents g)"
    "current_task (rq0 g') = current_task (rq0 g)"
    "nr_running (rq0 g') = (if is_current_task (rq0 g) i then nr_running (rq0 g) else nr_running (rq0 g) + 1)"
    "weight (rq_load (rq0 g')) = (if is_current_task (rq0 g) i then weight (rq_load (rq0 g))
       else weight (rq_load (rq0 g)) + weight (t_load (tasks g' r)))"
    "tid (tasks g' r) = i" "run_queue (tasks g' r) = 0" "on_rq (tasks g' r)"
    "s \<noteq> r \<Longrightarrow> tasks g' s = tasks g s"
    using assms(3) by (simp_all add: g' ready_def pq_rules(2)[OF assms(1)] ar_rules(3)[OF assms(2)] i_def)
qed

lemma spawn_keeps:
  assumes laws: "crate_laws K contents" and lk: "linked K contents g" and ac: "accounted K contents g"
    and sp: "spawn K 0 n opts g = Inr (r, g')" "card (dom (ar_get K (active_tasks g))) < 2 ^ 63"
  shows "linked K contents g'" and "accounted K contents g'"
proof -
  from laws have pq: "pq_laws K contents" and ar: "ar_laws K" by (simp_all add: crate_laws_def)
  have l1: "length (executors g) = 1" using lk by (simp add: linked_def)
  let ?i = "ar_next_vacant K (active_tasks g)"
  note sel = spawn_sel[OF pq ar l1 sp(1)]
  have vac: "ar_get K (active_tasks g) ?i = None" by (rule ar_rules(2)[OF ar sp(2)])
  have cur: "c \<noteq> ?i \<and> s \<noteq> r" if "current_task (rq0 g) = Some (c, s)" for c s
    using linked_current[OF lk that] vac lk sel(3) by (auto simp: linked_def)
  have old: "tasks g' s = tasks g s" if "ar_get K (active_tasks g) j = Some s" for j s
    using that lk sel(3) by (intro sel(12)) (auto simp: linked_def)
  have tk: "task_of K g' j = task_of K g j" if "j \<in> dom (ar_get K (active_tasks g))" for j
    using that vac old by (auto simp: task_of_def sel(4))
  have "card (insert ?i (dom (ar_get K (active_tasks g)))) \<le> 2 ^ 63"
    using sp(2) card_insert_le_m1[of "2 ^ 63" "dom (ar_get K (active_tasks g))" ?i] by simp
  with lk show "linked K contents g'"
    using old cur vac sel(9-11) tk sel(3) unfolding linked_def sel(1,2,4-6)
    by (auto simp: less_Suc_eq task_of_def sel(4) split: if_splits)
  have nc: "\<not> is_current_task (rq0 g) ?i" using cur by (auto simp: is_current_task_def split: option.splits)
  have mem: "members contents g' = insert ?i (members contents g)"
    unfolding members_def sel(5,6) using cur sel(12) by auto
  have md: "members contents g \<subseteq> dom (ar_get K (active_tasks g))"
    using lk linked_current[OF lk] by (auto simp: members_def linked_def)
  with vac have ni: "?i \<notin> members contents g" by auto
  have "(\<Sum>j\<in>members contents g. weight (t_load (task_of K g' j)))
      = (\<Sum>j\<in>members contents g. weight (t_load (task_of K g j)))"
  proof (intro sum.cong refl)
    fix j assume "j \<in> members contents g"
    with md have "j \<in> dom (ar_get K (active_tasks g))" by blast
    then show "weight (t_load (task_of K g' j)) = weight (t_load (task_of K g j))" by (simp only: tk)
  qed
  moreover have "task_of K g' ?i = tasks g' r" by (simp add: task_of_def sel(4))
  ultimately show "accounted K contents g'"
    using ac nc ni finite_members[OF pq, of g] by (simp add: accounted_def mem sel(7,8) add.commute)
qed

lemma spawn_preserves:
  assumes laws: "crate_laws K contents" and inv: "cpu_inv K contents idle (g, ph)"
    and sp: "spawn K 0 n opts g = Inr (r, g')" "card (dom (ar_get K (active_tasks g))) < 2 ^ 63"
  shows "cpu_inv K contents idle (g', ph)"
proof -
  from laws have pq: "pq_laws K contents" and ar: "ar_laws K" by (simp_all add: crate_laws_def)
  from inv have lk: "linked K contents g" and ac: "accounted K contents g"
    and ph: "phase_ok contents idle (g, ph)" by (simp_all add: cpu_inv_def)
  have l1: "length (executors g) = 1" using lk by (simp add: linked_def)
  note sel = spawn_sel[OF pq ar l1 sp(1)]
  have vac: "ar_get K (active_tasks g) (ar_next_vacant K (active_tasks g)) = None" by (rule ar_rules(2)[OF ar sp(2)])
  have cur: "c \<noteq> ar_next_vacant K (active_tasks g) \<and> s \<noteq> r" if "current_task (rq0 g) = Some (c, s)" for c s
    using linked_current[OF lk that] vac lk sel(3) by (auto simp: linked_def)
  then have "phase_ok contents idle (g', ph)"
    using ph sel(12) by (cases ph) (auto simp: sel(5,6))
  then show ?thesis using spawn_keeps[OF laws lk ac sp] by (simp add: cpu_inv_def)
qed

lemma boot_total:
  assumes laws: "crate_laws K contents"
  shows "\<exists>g. sched_init K ts 1 = Inr g \<and> cpu_inv K contents (ar_next_vacant K (ar_empty K)) (g, Choosing)"
proof -
  from laws have pq: "pq_laws K contents" and ar: "ar_laws K" by (simp_all add: crate_laws_def)
  let ?g = "(GlobalState_new K ts)\<lparr>executors := [RunQueue_new K]\<rparr>"
  have g: "ready contents ?g = {}" "members contents ?g = {}"
    by (simp_all add: ready_def members_def RunQueue_new_def pq_rules(1)[OF pq])
  have lk: "linked K contents ?g"
    unfolding linked_def g by (simp add: GlobalState_new_def ar_rules(1)[OF ar] RunQueue_new_def)
  have ac: "accounted K contents ?g"
    unfolding accounted_def g by (simp add: RunQueue_new_def)
  have "\<exists>r g'. spawn K 0 MAX_NICE NoOptions ?g = Inr (r, g')"
    by (simp add: spawn_def SchedTask_new_def nice_to_weight_def MAX_NICE_def Let_def split: prod.splits)
  then obtain r g' where sp: "spawn K 0 MAX_NICE NoOptions ?g = Inr (r, g')" by blast
  have c: "card (dom (ar_get K (active_tasks ?g))) < 2 ^ 63"
    by (simp add: GlobalState_new_def ar_rules(1)[OF ar])
  have "sched_init K ts 1 = Inr g'"
    using sp by (simp add: sched_init_def Executor_new_def GlobalState_new_def)
  moreover have "phase_ok contents (ar_next_vacant K (ar_empty K)) (g', Choosing)"
    using spawn_sel[OF pq ar _ sp] by (simp add: GlobalState_new_def RunQueue_new_def)
  ultimately show ?thesis using spawn_keeps[OF laws lk ac sp c] by (simp add: cpu_inv_def)
qed

lemma cpu_step_preserves:
  assumes "cpu_step K idle s s'" "crate_laws K contents" "cpu_inv K contents idle s"
  shows "cpu_inv K contents idle s'"
  using assms
proof (induction rule: cpu_step.induct)
  case (pop rq_free task_free now g i r rn g')
  then show ?case using pop_total[of K contents idle g rq_free task_free now] by force
next
  case (wake g i r ph rn)
  show ?case by (rule wake_preserves[OF wake(4,5,1,2,3)])
next
  case (spawn_step n opts g r g' ph)
  show ?case by (rule spawn_preserves[OF spawn_step(3,4,1,2)])
qed (simp_all add: yield_preserves pend_preserves finish_preserves)

lemma cpu_reach_inv:
  assumes "cpu_reach K s" "crate_laws K contents"
  shows "cpu_inv K contents (ar_next_vacant K (ar_empty K)) s"
  using assms
proof (induction rule: cpu_reach.induct)
  case (boot ts g)
  then show ?case using boot_total[of K contents ts] by auto
next
  case (step s s')
  then show ?case using cpu_step_preserves by blast
qed


section \<open>Properties of the queue operations\<close>

text \<open>the queue's minimum virtual runtime never moves backwards, whatever the queue holds, unless
  a task is exactly half the range of the counter away from it.\<close>
lemma update_min_vruntime_forward:
  assumes "\<And>c r. current_task rq = Some (c, r) \<Longrightarrow> vr (min_vruntime rq) - vr (vruntime (ts r)) \<noteq> 2 ^ 63"
    and "\<And>c p. pq_peek K (ready_tasks rq) = Some (c, p) \<Longrightarrow> vr (min_vruntime rq) - vr (rt_vruntime p) \<noteq> 2 ^ 63"
  shows "0 \<le> vr_delta (min_vruntime (update_min_vruntime K ts rq)) (min_vruntime rq)"
proof -
  define far where "far v \<longleftrightarrow> vr (min_vruntime rq) - vr v = 2 ^ 63" for v
  have max: "0 \<le> vr_delta (vr_max (min_vruntime rq) v) (min_vruntime rq)" if "\<not> far v" for v
    using that by (intro vr_max_forward) (simp only: far_def sint_antipode not_False_eq_True)
  have "\<not> far (min_vruntime rq)" by (simp add: far_def)
  moreover have "\<not> far (vr_min a b)" if "\<not> far a" "\<not> far b" for a b
    using that by (simp add: vr_min_def min_by_def split: ordering.split)
  ultimately show ?thesis
    using assms[folded far_def] unfolding update_min_vruntime_def Let_def
    by (auto intro!: max split: option.splits)
qed

lemma sum_list_div_le:
  fixes f :: "'b \<Rightarrow> nat"
  assumes "0 < l"
  shows "(\<Sum>t\<leftarrow>xs. p * f t div l) * l \<le> p * (\<Sum>t\<leftarrow>xs. f t)"
proof (induction xs)
  case (Cons x xs)
  have "p * f x div l * l \<le> p * f x" by (rule div_times_less_eq_dividend)
  from add_mono[OF this Cons.IH] show ?case
    by (simp only: list.map sum_list.Cons add_mult_distrib add_mult_distrib2)
qed simp

lemma sched_slice_le:
  assumes "inv_weight (rq_load rq) = None" "0 < weight (rq_load rq)" "unat (weight (rq_load rq)) < 2 ^ 32"
    and "weight (t_load t) \<le> weight (rq_load rq)" "on_rq t"
  shows "unat (sched_slice rq t) \<le>
    unat (sched_period (nr_running rq)) * unat (weight (t_load t)) div unat (weight (rq_load rq))"
proof -
  let ?p = "unat (sched_period (nr_running rq))" and ?w = "unat (weight (t_load t))" and ?l = "unat (weight (rq_load rq))"
  have wl: "?w \<le> ?l" using assms(4) by (simp add: word_le_nat_alt)
  have "?p * ?w div ?l \<le> ?p * ?l div ?l" by (intro div_le_mono mult_le_mono2 wl)
  also have "\<dots> = ?p" using assms(2) by (simp add: word_less_nat_alt)
  also have "\<dots> < 2 ^ 64" by (rule unat_lt_64)
  finally have "unat (calc_delta (sched_period (nr_running rq)) (weight (t_load t)) (rq_load rq)) \<le> ?p * ?w div ?l"
    using wl assms(3) by (intro calc_delta_scaled(2)[OF assms(1-3)]) simp_all
  then show ?thesis using assms(5) by (simp add: sched_slice_def Let_def)
qed



lemma windowed_sub: "windowed m \<Longrightarrow> ran m' \<subseteq> ran m \<Longrightarrow> windowed m'"
  unfolding windowed_def by blast

lemma rt_cmp_Greater: "rt_cmp a b = Greater \<longleftrightarrow> vr_cmp (rt_vruntime a) (rt_vruntime b) = Less"
  by (cases "vr_cmp (rt_vruntime a) (rt_vruntime b)") (simp_all add: rt_cmp_def)

lemma ran_upd_None: "ran (m(c := None)) \<subseteq> ran m"
  by (auto simp: ran_def)


section \<open>Stealing\<close>

lemma pq_popE:
  assumes laws: "pq_laws K contents" and "pq_pop K q = (Some (i, rt), q')"
  shows "contents q i = Some rt" and "contents q' = (contents q)(i := None)"
proof -
  from assms(2) obtain j p where "pq_remove K j q = (Some (i, rt), q')"
    unfolding pq_rules(8)[OF laws] by (auto split: option.splits)
  with pq_removeE[OF laws, of j q] have "contents q j = Some rt \<and> j = i \<and> contents q' = (contents q)(j := None)"
    by (metis (no_types, lifting) map_option_eq_Some old.prod.inject)
  then show "contents q i = Some rt" "contents q' = (contents q)(i := None)" by auto
qed

text \<open>One round of the loop either moves the task that was popped or sets it aside.\<close>

lemma steal_loop_step:
  assumes "steal_loop K act s free (Suc n) (me, rq, ts, bk) = Inr st"
  obtains i rt q where "pq_pop K (ready_tasks rq) = (Some (i, rt), q)"
    and "steal_loop K act s free n (me, rq\<lparr>ready_tasks := q\<rparr>, ts, bk @ [(i, rt)]) = Inr st"
  | i rt q ts' where "pq_pop K (ready_tasks rq) = (Some (i, rt), q)" "\<not> is_current_task rq i"
    and "steal_loop K act s free n
      (me\<lparr>ready_tasks := pq_push K i rt (ready_tasks me)\<rparr>, rq\<lparr>ready_tasks := q\<rparr>, ts', bk) = Inr st"
proof -
  from assms obtain i rt q where pop: "pq_pop K (ready_tasks rq) = (Some (i, rt), q)"
    by (auto split: prod.splits option.splits)
  have "is_current_task (rq\<lparr>ready_tasks := q\<rparr>) i = is_current_task rq i" by (simp add: is_current_task_def)
  with assms pop that show thesis by (auto simp: Let_def bindE_eq_Inr split: if_splits)
qed

lemma steal_loop_frame:
  assumes "steal_loop K act s free n (me, rq, ts, bk) = Inr (me', rq', ts', bk')"
  shows "(nr_running me', rq_load me', min_vruntime me', current_task me') =
      (nr_running me, rq_load me, min_vruntime me, current_task me) \<and>
    (nr_running rq', rq_load rq', min_vruntime rq', current_task rq') =
      (nr_running rq, rq_load rq, min_vruntime rq, current_task rq)"
  using assms
proof (induction n arbitrary: me rq ts bk)
  case (Suc n)
  from Suc.prems show ?case
    by (rule steal_loop_step) (drule Suc.IH, simp)+
qed simp

lemma steal_loop_dom:
  assumes laws: "pq_laws K contents"
    and "steal_loop K act s free n (me, rq, ts, bk) = Inr (me', rq', ts', bk')"
  shows "dom (contents (ready_tasks me')) \<union> dom (contents (ready_tasks rq')) \<union> fst ` set bk'
    = dom (contents (ready_tasks me)) \<union> dom (contents (ready_tasks rq)) \<union> fst ` set bk"
  using assms(2)
proof (induction n arbitrary: me rq ts bk)
  case (Suc n)
  from Suc.prems show ?case
  proof (rule steal_loop_step)
    fix i rt q
    assume pop: "pq_pop K (ready_tasks rq) = (Some (i, rt), q)"
      and "steal_loop K act s free n (me, rq\<lparr>ready_tasks := q\<rparr>, ts, bk @ [(i, rt)]) = Inr (me', rq', ts', bk')"
    from Suc.IH[OF this(2)] pq_popE[OF laws pop] show ?thesis by (auto split: if_splits)
  next
    fix i rt q ts''
    assume pop: "pq_pop K (ready_tasks rq) = (Some (i, rt), q)"
      and "steal_loop K act s free n (me\<lparr>ready_tasks := pq_push K i rt (ready_tasks me)\<rparr>,
        rq\<lparr>ready_tasks := q\<rparr>, ts'', bk) = Inr (me', rq', ts', bk')"
    from Suc.IH[OF this(2)] pq_popE[OF laws pop] show ?thesis
      by (auto simp: pq_rules(2)[OF laws] split: if_splits)
  qed
qed simp

lemma push_back_dom:
  assumes "pq_laws K contents"
  shows "dom (contents (fold (\<lambda>(i, rt). pq_push K i rt) bk q)) = dom (contents q) \<union> fst ` set bk"
  by (induction bk arbitrary: q) (auto simp: pq_rules(2)[OF assms])

lemma steal_loop_total:
  assumes laws: "pq_laws K contents" and "n \<le> card (dom (contents (ready_tasks rq)))"
    and "dom (contents (ready_tasks rq)) \<subseteq> dom (ar_get K act)"
  shows "\<exists>st. steal_loop K act s free n (me, rq, ts, bk) = Inr st"
  using assms(2,3)
proof (induction n arbitrary: me rq ts bk)
  case (Suc n)
  then have "contents (ready_tasks rq) \<noteq> Map.empty" by auto
  then obtain i p where p: "pq_peek K (ready_tasks rq) = Some (i, p)" "contents (ready_tasks rq) i = Some p"
    by (rule peek_total[OF laws])
  obtain q where "pq_remove K i (ready_tasks rq) = (Some (i, p), q)"
    using pq_removeE[OF laws, of i "ready_tasks rq"] p(2) by (metis option.map(2))
  then have pop: "pq_pop K (ready_tasks rq) = (Some (i, p), q)" using p by (simp add: pq_rules(8)[OF laws])
  note q = pq_popE(2)[OF laws pop]
  have "n \<le> card (dom (contents q))" "dom (contents q) \<subseteq> dom (ar_get K act)"
    using Suc.prems p(2) pq_rules(10)[OF laws, of "ready_tasks rq"]
    by (auto simp: q card_Diff_singleton_if)
  note IH = Suc.IH[of "rq\<lparr>ready_tasks := q\<rparr>", simplified, OF this]
  from p(2) Suc.prems(2) obtain r where "ar_get K act i = Some r" by blast
  then show ?case using pop IH by (simp add: Let_def)
qed simp

lemma union_two_updates:
  assumes "i < length xs" "j < length xs" "j \<noteq> i" "f x \<union> f y = f (xs ! i) \<union> f (xs ! j)"
  shows "(\<Union>q \<in> set (xs[i := x, j := y]). f q) = (\<Union>q \<in> set xs. f q)"
proof -
  have all: "(\<Union>q \<in> set zs. f q) = (\<Union>k \<in> {..<length zs}. f (zs ! k))" for zs :: "'a list"
    by (auto simp: set_conv_nth)
  have split: "{..<length xs} = insert i (insert j ({..<length xs} - {i, j}))" using assms by auto
  have "(\<Union>k \<in> {..<length xs} - {i, j}. f (xs[i := x, j := y] ! k)) = (\<Union>k \<in> {..<length xs} - {i, j}. f (xs ! k))"
    by simp
  then show ?thesis unfolding all length_list_update
    using assms by (subst (1 2) split) (auto simp: nth_list_update)
qed

text \<open>C27: stealing tasks never panics and loses none: afterwards every task that was ready on some
  queue is ready on some queue again. But it moves no count: the number of running tasks and the load
  of every queue are what they were, although tasks have changed queues.\<close>
theorem try_steal_tasks_keeps:
  assumes laws: "crate_laws K contents" and cpu: "cpu < length (executors g)"
    and act: "\<forall>q \<in> set (executors g). dom (contents (ready_tasks q)) \<subseteq> dom (ar_get K (active_tasks g))"
  shows "\<exists>g'. try_steal_tasks K cpu rq_free task_free g = Inr g' \<and>
    (\<Union>q \<in> set (executors g'). dom (contents (ready_tasks q))) = (\<Union>q \<in> set (executors g). dom (contents (ready_tasks q))) \<and>
    map nr_running (executors g') = map nr_running (executors g) \<and>
    map rq_load (executors g') = map rq_load (executors g)"
proof (cases "find (\<lambda>i. rq_free i \<and> nr_running (executors g ! i) > 2) (other_run_queues g cpu)")
  case None
  then show ?thesis using cpu by (simp add: try_steal_tasks_def)
next
  case (Some v)
  from laws have pq: "pq_laws K contents" by (simp add: crate_laws_def)
  from Some have "v \<in> set (other_run_queues g cpu)" by (auto simp: find_Some_iff)
  then have v: "v < length (executors g)" "v \<noteq> cpu"
    using cpu by (auto simp: other_run_queues_def)
  let ?me = "executors g ! cpu" and ?rq = "executors g ! v"
  obtain me rq ts bk where loop: "steal_loop K (active_tasks g) cpu task_free
      (pq_len K (ready_tasks ?rq) div 2) (?me, ?rq, tasks g, []) = Inr (me, rq, ts, bk)"
    using steal_loop_total[OF pq, of "pq_len K (ready_tasks ?rq) div 2" ?rq "active_tasks g"] act v
    by (metis div_le_dividend nth_mem pq_rules(11)[OF pq] prod_cases4)
  define rq' where "rq' = rq\<lparr>ready_tasks := fold (\<lambda>(i, rt). pq_push K i rt) bk (ready_tasks rq)\<rparr>"
  define ex where "ex = (executors g)[cpu := me, v := rq']"
  have res: "try_steal_tasks K cpu rq_free task_free g = Inr (g\<lparr>executors := ex, tasks := ts\<rparr>)"
    using cpu Some loop by (simp add: try_steal_tasks_def rq'_def ex_def)
  note fr = steal_loop_frame[OF loop]
  have "map nr_running ex = map nr_running (executors g)" "map rq_load ex = map rq_load (executors g)"
    using fr v cpu by (auto simp: ex_def rq'_def list_eq_iff_nth_eq nth_list_update)
  moreover have "dom (contents (ready_tasks me)) \<union> dom (contents (ready_tasks rq'))
      = dom (contents (ready_tasks ?me)) \<union> dom (contents (ready_tasks ?rq))"
    using steal_loop_dom[OF pq loop] push_back_dom[OF pq] by (auto simp: rq'_def)
  then have "(\<Union>q \<in> set ex. dom (contents (ready_tasks q))) = (\<Union>q \<in> set (executors g). dom (contents (ready_tasks q)))"
    unfolding ex_def by (rule union_two_updates[OF cpu v, of "\<lambda>q. dom (contents (ready_tasks q))"])
  ultimately show ?thesis using res by simp
qed

section \<open>Properties of the run loop\<close>





section \<open>Where the counters go wrong\<close>

text \<open>A queue with the idle task ready and one nice-0 task running.\<close>

definition demo_state :: "((Tid \<times> nat ReadyTask) list, (Tid \<times> SchedTaskRef) list) GlobalState" where
  "demo_state =
     \<lparr>active_tasks = [(0, 0), (1, 1)],
      executors = [\<lparr>ready_tasks = [(0, \<lparr>rt_vruntime = VRuntime 0, runnable = 0\<rparr>)], current_task = Some (1, 1),
        rq_load = LoadWeight_new 1039, min_vruntime = VRuntime 0, nr_running = 2\<rparr>],
      tasks = (\<lambda>r. if r = 0 then blank_task\<lparr>t_load := LoadWeight_new 15, on_rq := True\<rparr>
        else blank_task\<lparr>tid := 1, t_load := LoadWeight_new 1024, on_rq := True\<rparr>),
      next_ref = 2\<rparr>"

lemma demo_inv:
  "cpu_inv (al_crates id) map_of 0 (demo_state, Running 1 1 rn)"
  "cpu_inv (al_crates id) map_of 0 (demo_state, Returned 1 1 False)"
proof -
  have rd: "ready map_of demo_state = {0}" by (auto simp: ready_def demo_state_def)
  have mem: "members map_of demo_state = {0, 1}" unfolding members_def rd by (auto simp: demo_state_def blank_task_def)
  have tk: "task_of (al_crates id) demo_state 0 = blank_task\<lparr>t_load := LoadWeight_new 15, on_rq := True\<rparr>"
    "task_of (al_crates id) demo_state 1 = blank_task\<lparr>tid := 1, t_load := LoadWeight_new 1024, on_rq := True\<rparr>"
    by (simp_all add: task_of_def demo_state_def al_crates_sel)
  have "dom (map_of [(0 :: Tid, 0 :: nat), (1, 1)]) = {0, 1}" by auto
  then have "linked (al_crates id) map_of demo_state"
    unfolding linked_def rd
    by (simp add: tk) (auto simp: demo_state_def al_crates_sel blank_task_def split: if_splits)
  moreover have "accounted (al_crates id) map_of demo_state"
    unfolding accounted_def mem by (simp add: tk blank_task_def) (simp add: demo_state_def)
  ultimately show "cpu_inv (al_crates id) map_of 0 (demo_state, Running 1 1 rn)"
    "cpu_inv (al_crates id) map_of 0 (demo_state, Returned 1 1 False)"
    by (simp_all add: cpu_inv_def rd) (simp_all add: demo_state_def blank_task_def)
qed

text \<open>A second processor's queue holding two ready tasks beside the current one.\<close>

definition demo_pair :: "((Tid \<times> nat ReadyTask) list, (Tid \<times> SchedTaskRef) list) GlobalState" where
  "demo_pair =
     \<lparr>active_tasks = [(0, 0), (1, 1), (2, 2)],
      executors = [RunQueue_new (al_crates id),
        \<lparr>ready_tasks = [(0, \<lparr>rt_vruntime = VRuntime 0, runnable = 0\<rparr>), (2, \<lparr>rt_vruntime = VRuntime 4, runnable = 2\<rparr>)],
         current_task = Some (1, 1), rq_load = LoadWeight_new 1054, min_vruntime = VRuntime 0, nr_running = 3\<rparr>],
      tasks = (\<lambda>_. blank_task), next_ref = 3\<rparr>"



theorem try_steal_tasks_keeps_witness:
  "\<exists>g'. try_steal_tasks (al_crates id) 0 (\<lambda>_. True) (\<lambda>_. True) demo_pair = Inr g' \<and>
    map nr_running (executors g') = [0, 3] \<and>
    (\<Union>q \<in> set (executors g'). dom (map_of (ready_tasks q))) = {0, 2}"
proof -
  have "\<forall>q \<in> set (executors demo_pair). dom (map_of (ready_tasks q)) \<subseteq> dom (ar_get (al_crates id) (active_tasks demo_pair))"
    by (auto simp: demo_pair_def RunQueue_new_def al_crates_sel split: if_splits)
  moreover have "0 < length (executors demo_pair)" by (simp add: demo_pair_def)
  moreover have "(\<Union>q \<in> set (executors demo_pair). dom (map_of (ready_tasks q))) = {0, 2}"
    by (auto simp: demo_pair_def RunQueue_new_def al_crates_sel split: if_splits)
  moreover have "map nr_running (executors demo_pair) = [0, 3]" by (simp add: demo_pair_def RunQueue_new_def)
  ultimately show ?thesis
    using try_steal_tasks_keeps[OF al_crate_laws[of id], of 0 demo_pair "\<lambda>_. True" "\<lambda>_. True"]
    by auto
qed

lemma on_drop_sel:
  assumes "pq_laws K contents" "linked K contents g"
    and "current_task (rq0 g) = Some (i, r)" "i \<notin> ready contents g"
  shows "\<exists>rq. executors (on_drop K r i g) = [rq] \<and> tasks (on_drop K r i g) = (tasks g)(r := (tasks g r)\<lparr>on_rq := False\<rparr>) \<and>
    contents (ready_tasks rq) = contents (ready_tasks (rq0 g)) \<and> current_task rq = Some (i, r) \<and>
    nr_running rq = nr_running (rq0 g) - 1 \<and> weight (rq_load rq) = weight (rq_load (rq0 g)) - weight (t_load (tasks g r))"
proof -
  from assms have g: "length (executors g) = 1" "tid (tasks g r) = i" "run_queue (tasks g r) = 0"
    by (auto simp: linked_def)
  let ?ts = "(tasks g)(r := (tasks g r)\<lparr>on_rq := False\<rparr>)"
  obtain ts rq where rm: "remove_task K r (?ts, rq0 g) = (ts, rq)" by fastforce
  from g(1) have "executors (on_drop K r i g) = [rq]" "tasks (on_drop K r i g) = ts"
    using rm g(3) by (auto simp: on_drop_def Let_def length_Suc_conv)
  moreover have "contents (ready_tasks (rq0 g)) i = None" using assms(4) by (auto simp: ready_def)
  ultimately show ?thesis
    using remove_task_sel[OF assms(1) rm] assms(3) g(2)
    by (auto simp: is_current_task_def fun_upd_idem)
qed

text \<open>a task that completes is counted out twice: the guard in its future removes it from the run
  queue, and \<open>run\<close>, finding that it did not yield, removes it again because it is still recorded as the
  current task. One task leaves, \<open>nr_running\<close> drops by two and \<open>load\<close> by twice its weight.\<close>
lemma completed_task_counted_twice:
  assumes "crate_laws K contents" "cpu_inv K contents idle (g, Running i r rn)"
  shows "let g' = after_run K 0 False now r (on_drop K r i g)
    in ready contents g' = ready contents g \<and> nr_running (rq0 g') = nr_running (rq0 g) - 2 \<and>
       weight (rq_load (rq0 g')) = weight (rq_load (rq0 g)) - 2 * weight (t_load (tasks g r))"
proof -
  from assms have pq: "pq_laws K contents" and lk: "linked K contents g"
    and cur: "current_task (rq0 g) = Some (i, r)" "i \<notin> ready contents g"
    by (simp_all add: crate_laws_def cpu_inv_def)
  obtain rq where d: "executors (on_drop K r i g) = [rq]"
      "tasks (on_drop K r i g) = (tasks g)(r := (tasks g r)\<lparr>on_rq := False\<rparr>)"
      "contents (ready_tasks rq) = contents (ready_tasks (rq0 g))" "current_task rq = Some (i, r)"
      "nr_running rq = nr_running (rq0 g) - 1"
      "weight (rq_load rq) = weight (rq_load (rq0 g)) - weight (t_load (tasks g r))"
    using on_drop_sel[OF pq lk cur] by blast
  obtain ts1 rq1 where rm: "remove_task K r (tasks (on_drop K r i g), rq) = (ts1, rq1)" by fastforce
  obtain ts2 rq2 where tk: "task_tick K now r (ts1, rq1) = (ts2, rq2)" by fastforce
  have g': "rq0 (after_run K 0 False now r (on_drop K r i g)) = rq2"
    by (simp add: after_run_def Let_def d(1) rm tk)
  from lk cur have ti: "tid (tasks g r) = i" by (auto simp: linked_def)
  from remove_task_sel[OF pq rm] d ti cur(2) task_tick_sel[OF pq tk] show ?thesis
    by (auto simp: g' ready_def is_current_task_def Let_def)
qed

text \<open>a wake-up that arrives after a task has suspended and before the run loop has taken its lock
  is lost: the waker queues the task, and \<open>run\<close> removes it from the queue again, dropping its
  runnable.\<close>
lemma early_wake_lost:
  assumes "crate_laws K contents" "cpu_inv K contents idle (g, Returned i r False)"
  shows "i \<in> ready contents (schedule_fn K r rn g) \<and>
    i \<notin> ready contents (after_run K 0 False now r (schedule_fn K r rn g))"
proof -
  from assms have pq: "pq_laws K contents" and lk: "linked K contents g"
    and cur: "current_task (rq0 g) = Some (i, r)" by (simp_all add: crate_laws_def cpu_inv_def)
  let ?g = "schedule_fn K r rn g"
  note r = linked_current[OF lk cur]
  note sel = schedule_fn_sel[OF pq lk r, of rn]
  obtain ts1 rq1 where rm: "remove_task K r (tasks ?g, rq0 ?g) = (ts1, rq1)" by fastforce
  obtain ts2 rq2 where tk: "task_tick K now r (ts1, rq1) = (ts2, rq2)" by fastforce
  have g': "rq0 (after_run K 0 False now r ?g) = rq2"
    using sel(1) by (auto simp: after_run_def Let_def rm tk length_Suc_conv)
  have "tid (tasks ?g r) = i" using lk r sel(8) by (simp add: linked_def)
  with remove_task_sel(2)[OF pq rm] task_tick_sel(2)[OF pq tk] sel(4) show ?thesis
    by (simp add: ready_def g')
qed

text \<open>a stale count stops the kernel: with only the current task left on the queue but two or more
  counted, \<open>pop_task_to_run\<close> panics as soon as the current task has used up its slice.\<close>
lemma stale_count_panics:
  assumes "crate_laws K contents" "length (executors g) = 1"
    and "current_task (rq0 g) = Some (c, r)" "ready contents g \<subseteq> {c}" "2 \<le> nr_running (rq0 g)"
    and "sched_slice (rq0 g) (tasks g r) < sum_exec_runtime (tasks g r) - prev_sum_exec_runtime (tasks g r)"
  shows "pop_task_to_run K 0 rq_free task_free now g = Inl UnwrapNone"
proof -
  from assms(1) have pq: "pq_laws K contents" by (simp add: crate_laws_def)
  obtain q where q: "pq_remove K c (ready_tasks (rq0 g)) = (map_option (Pair c) (contents (ready_tasks (rq0 g)) c), q)"
    "contents q = (contents (ready_tasks (rq0 g)))(c := None)" by (rule pq_removeE[OF pq])
  with assms(4) have "contents q = Map.empty" by (auto simp: ready_def fun_eq_iff)
  then have "pq_peek K q = None" using pq_rules(5)[OF pq] by simp
  moreover have "preempt_current K (tasks g r) (rq0 g) = Inr True"
    using assms(6) by (simp add: preempt_current_def Let_def)
  moreover have "\<not> nr_running (rq0 g) < 2" using assms(5) by (simp add: not_less)
  ultimately have "next_task K (tasks g) (rq0 g) = Inl UnwrapNone"
    using assms(3) q(1) by (simp add: next_task_def Let_def)
  then show ?thesis by (simp add: pop_single[OF assms(2)])
qed

end
