(* ===== verification/Sync_Spin.thy ===== *)
theory Sync_Spin
  imports Kernel_Prelude
begin

text \<open>
  The interrupt-masking spin lock \<open>MutexNoIrq\<close> (\<^verbatim>\<open>src/kernel/src/sync/spin.rs\<close>) and the mask it
  saves and restores (\<^verbatim>\<open>src/kernel/src/arch/aarch64/interrupt/mod.rs\<close>), as one processor sees them.

  The processor state is the \<^verbatim>\<open>DAIF\<close> register and the set of locks that are held. The inner lock is
  the crate \<^verbatim>\<open>spin\<close>: \<open>lock\<close> returns once the lock is free, so its step requires that it is.
\<close>

section \<open>Masking interrupts\<close>

type_synonym lock_id = nat

record cpu =
  daif :: u64
  held :: "lock_id set"

text \<open>Bit 7 is the IRQ mask: \<^verbatim>\<open>msr DAIFSet, #2\<close> sets it and \<^verbatim>\<open>msr DAIFClr, #2\<close> clears it.\<close>

definition DAIF_I :: u64 where "DAIF_I = 0x80"

definition irq_masked :: "cpu \<Rightarrow> bool" where
  "irq_masked c \<longleftrightarrow> daif c AND DAIF_I \<noteq> 0"

definition irq_enable :: "cpu \<Rightarrow> cpu" where
  "irq_enable c = c\<lparr>daif := daif c AND NOT DAIF_I\<rparr>"

definition irq_disable :: "cpu \<Rightarrow> cpu" where
  "irq_disable c = c\<lparr>daif := daif c OR DAIF_I\<rparr>"

definition disable_and_store :: "cpu \<Rightarrow> usize \<times> cpu" where
  "disable_and_store c = (let d = daif c; c = irq_disable c in (d, c))"

definition restore :: "usize \<Rightarrow> cpu \<Rightarrow> cpu" where
  "restore flags c = c\<lparr>daif := flags\<rparr>"

section \<open>The lock\<close>

record MutexGuardNoIrq =
  inner :: lock_id
  flags :: usize

definition mutex_lock :: "lock_id \<Rightarrow> cpu \<Rightarrow> MutexGuardNoIrq \<times> cpu" where
  "mutex_lock l c =
     (let (flags, c) = disable_and_store c
      in (\<lparr>inner = l, flags = flags\<rparr>, c\<lparr>held := insert l (held c)\<rparr>))"

definition mutex_try_lock :: "lock_id \<Rightarrow> cpu \<Rightarrow> MutexGuardNoIrq option \<times> cpu" where
  "mutex_try_lock l c =
     (let (flags, c) = disable_and_store c
      in if l \<in> held c then (None, c)
         else (Some \<lparr>inner = l, flags = flags\<rparr>, c\<lparr>held := insert l (held c)\<rparr>))"

definition is_locked :: "lock_id \<Rightarrow> cpu \<Rightarrow> bool" where
  "is_locked l c \<longleftrightarrow> l \<in> held c"

definition force_unlock :: "lock_id \<Rightarrow> cpu \<Rightarrow> cpu" where
  "force_unlock l c = c\<lparr>held := held c - {l}\<rparr>"

definition guard_drop :: "MutexGuardNoIrq \<Rightarrow> cpu \<Rightarrow> cpu" where
  "guard_drop g c = restore (flags g) (c\<lparr>held := held c - {inner g}\<rparr>)"

section \<open>Critical sections\<close>

text \<open>A region of code that takes a lock, runs regions inside it and drops the guard. \<open>run_section\<close> also
  checks, at every point inside, that interrupts are masked; \<open>None\<close> is a lock taken while it is held,
  on which the processor would spin for ever.\<close>

datatype critical = Critical lock_id "critical list"

fun run_critical :: "critical \<Rightarrow> cpu \<Rightarrow> (bool \<times> cpu) option" and
    run_criticals :: "critical list \<Rightarrow> cpu \<Rightarrow> (bool \<times> cpu) option" where
  "run_critical (Critical l body) c =
     (if is_locked l c then None
      else let (g, c) = mutex_lock l c
           in case run_criticals body c of
                None \<Rightarrow> None
              | Some (ok, c') \<Rightarrow> Some (irq_masked c \<and> ok \<and> irq_masked c', guard_drop g c'))"
| "run_criticals [] c = Some (True, c)"
| "run_criticals (s # ss) c =
     (case run_critical s c of
        None \<Rightarrow> None
      | Some (ok, c) \<Rightarrow> (case run_criticals ss c of None \<Rightarrow> None | Some (ok', c) \<Rightarrow> Some (ok \<and> ok', c)))"

text \<open>The locks on a path into the nest are different.\<close>

fun nested_ok :: "lock_id set \<Rightarrow> critical \<Rightarrow> bool" where
  "nested_ok taken (Critical l body) \<longleftrightarrow> l \<notin> taken \<and> (\<forall>s \<in> set body. nested_ok (insert l taken) s)"

lemma irq_masked_simps [simp]:
  "irq_masked (c\<lparr>held := h\<rparr>) = irq_masked c" "irq_masked (irq_disable c)"
  by (simp_all add: irq_masked_def irq_disable_def DAIF_I_def and.commute[of _ 128] bit.conj_disj_distrib)

lemma run_criticals_ok:
  "nested_ok (held c) s \<Longrightarrow> run_critical s c = Some (True, c)"
  "\<forall>s \<in> set ss. nested_ok (held c) s \<Longrightarrow> run_criticals ss c = Some (True, c)"
proof (induction s c and ss c rule: run_critical_run_criticals.induct)
  case (1 l body c)
  let ?c = "(irq_disable c)\<lparr>held := insert l (held c)\<rparr>"
  from 1(2) have l: "l \<notin> held c" by simp
  have c: "mutex_lock l c = (\<lparr>inner = l, flags = daif c\<rparr>, ?c)"
    by (simp add: mutex_lock_def disable_and_store_def irq_disable_def)
  have "run_criticals body ?c = Some (True, ?c)"
    using 1 l c by (simp add: is_locked_def)
  moreover have "guard_drop \<lparr>inner = l, flags = daif c\<rparr> ?c = c"
    using l by (simp add: guard_drop_def restore_def irq_disable_def)
  ultimately show ?case using l c by (simp add: is_locked_def)
qed simp_all

text \<open>C30: properly nested critical sections are safe: taking and dropping any nest of different locks
  succeeds, keeps interrupts masked everywhere inside, and leaves the interrupt mask and the locks
  exactly as they were.\<close>
theorem critical_sections_balanced:
  assumes "nested_ok (held c) s"
  shows "run_critical s c = Some (True, c)"
  using assms by (rule run_criticals_ok)

theorem critical_sections_balanced_witness:
  "run_critical (Critical 1 [Critical 2 [Critical 3 []], Critical 3 []]) \<lparr>daif = 0, held = {}\<rparr>
     = Some (True, \<lparr>daif = 0, held = {}\<rparr>)"
  using critical_sections_balanced[of "\<lparr>daif = 0, held = {}\<rparr>" "Critical 1 [Critical 2 [Critical 3 []], Critical 3 []]"]
  by simp

text \<open>a \<open>try_lock\<close> that fails leaves interrupts masked: it returns no guard, so nothing restores the
  mask it has changed, whereas one that succeeds restores it when its guard is dropped.\<close>
lemma try_lock_mask:
  "mutex_try_lock l c = (res, c') \<Longrightarrow>
    (case res of
       None \<Rightarrow> is_locked l c \<and> irq_masked c' \<and> held c' = held c
     | Some g \<Rightarrow> \<not> is_locked l c \<and> irq_masked c' \<and> guard_drop g c' = c)"
  by (auto simp: mutex_try_lock_def disable_and_store_def Let_def is_locked_def guard_drop_def restore_def
      irq_disable_def[of c] irq_masked_simps(2)[unfolded irq_disable_def] split: if_splits)

end
