(* ===== verification/Event_Bus.thy ===== *)
theory Event_Bus
  imports Kernel_Prelude
begin

text \<open>
  The event bus (\<^verbatim>\<open>src/kernel/src/sync/event_bus.rs\<close>), the future that waits on it, and the console
  terminal built on it (\<^verbatim>\<open>src/kernel/src/fs/devfs/tty.rs\<close>).

  An \<^verbatim>\<open>EventHandler\<close> is a closure; the source has two, and \<open>EventHandler\<close> has a constructor for each:
  one that fires when an event of a mask is present, and one that fires at any change. Both wake a
  task when they fire. An operation returns the wakers it has called, in order.
\<close>

section \<open>Events\<close>

type_synonym Event = u32

definition READABLE :: Event where "READABLE = 0x1"
definition WRITABLE :: Event where "WRITABLE = 0x2"
definition EVENT_ERROR :: Event where "EVENT_ERROR = 0x4"
definition CLOSED :: Event where "CLOSED = 0x8"
definition PROCESS_QUIT :: Event where "PROCESS_QUIT = 0x400"
definition CHILD_PROCESS_QUIT :: Event where "CHILD_PROCESS_QUIT = 0x800"
definition RECEIVE_SIGNAL :: Event where "RECEIVE_SIGNAL = 0x1000"
definition SEMAPHORE_REMOVED :: Event where "SEMAPHORE_REMOVED = 0x100000"
definition SEMAPHORE_CAN_ACQUIRE :: Event where "SEMAPHORE_CAN_ACQUIRE = 0x200000"

lemmas event_defs = READABLE_def WRITABLE_def EVENT_ERROR_def CLOSED_def PROCESS_QUIT_def
  CHILD_PROCESS_QUIT_def RECEIVE_SIGNAL_def SEMAPHORE_REMOVED_def SEMAPHORE_CAN_ACQUIRE_def

section \<open>The bus\<close>

datatype 'w EventHandler = OnMask Event 'w | OnAny 'w

fun fires :: "'w EventHandler \<Rightarrow> Event \<Rightarrow> bool" where
  "fires (OnMask msk w) s = (s AND msk \<noteq> 0)"
| "fires (OnAny w) s = True"

fun waker :: "'w EventHandler \<Rightarrow> 'w" where
  "waker (OnMask msk w) = w"
| "waker (OnAny w) = w"

record 'w EventBus =
  event :: Event
  callbacks :: "'w EventHandler list"

definition EventBus_new :: "'w EventBus" where
  "EventBus_new = \<lparr>event = 0, callbacks = []\<rparr>"

definition bus_change :: "Event \<Rightarrow> Event \<Rightarrow> 'w EventBus \<Rightarrow> 'w list \<times> 'w EventBus" where
  "bus_change reset st bus =
     (let orig = event bus;
          new = (orig AND NOT reset) OR st;
          bus = bus\<lparr>event := new\<rparr>
      in if new \<noteq> orig
         then (map waker (filter (\<lambda>f. fires f new) (callbacks bus)),
               bus\<lparr>callbacks := filter (\<lambda>f. \<not> fires f new) (callbacks bus)\<rparr>)
         else ([], bus))"

definition bus_set :: "Event \<Rightarrow> 'w EventBus \<Rightarrow> 'w list \<times> 'w EventBus" where
  "bus_set st bus = bus_change 0 st bus"

definition bus_clear :: "Event \<Rightarrow> 'w EventBus \<Rightarrow> 'w list \<times> 'w EventBus" where
  "bus_clear st bus = bus_change st 0 bus"

definition subscribe :: "'w EventHandler \<Rightarrow> 'w EventBus \<Rightarrow> 'w EventBus" where
  "subscribe callback bus = bus\<lparr>callbacks := callbacks bus @ [callback]\<rparr>"

definition get_callback_len :: "'w EventBus \<Rightarrow> nat" where
  "get_callback_len bus = length (callbacks bus)"

datatype 'a poll = Pending | Ready 'a

text \<open>\<^verbatim>\<open>EventBusFuture::poll\<close>, under the lock of the bus.\<close>

definition wait_for_event_poll :: "Event \<Rightarrow> 'w \<Rightarrow> 'w EventBus \<Rightarrow> Event poll \<times> 'w EventBus" where
  "wait_for_event_poll msk w bus =
     (if event bus AND msk \<noteq> 0 then (Ready (event bus), bus)
      else (Pending, subscribe (OnMask msk w) bus))"

section \<open>The console terminal\<close>

record 'w TtyINode =
  foreground_pgid :: "32 word"
  buf :: "u8 list"
  tty_bus :: "'w EventBus"

definition TtyINode_default :: "'w TtyINode" where
  "TtyINode_default = \<lparr>foreground_pgid = 0, buf = [], tty_bus = EventBus_new\<rparr>"

text \<open>What a character does: the interrupt character is a signal to the foreground process group,
  three more are only logged, and any other is data.\<close>

datatype tty_input = SendSigint | Unimplemented_char | Data

definition classify :: "u8 \<Rightarrow> tty_input" where
  "classify c =
     (if c \<in> set [0x03, 0x1C, 0x1A, 0x19] then (if c = 0x03 then SendSigint else Unimplemented_char)
      else Data)"

text \<open>\<open>push\<close> on a data character takes two locks one after the other; the two steps are kept apart.\<close>

definition push_buf :: "u8 \<Rightarrow> 'w TtyINode \<Rightarrow> 'w TtyINode" where
  "push_buf c tty = tty\<lparr>buf := buf tty @ [c]\<rparr>"

definition push_event :: "'w TtyINode \<Rightarrow> 'w list \<times> 'w TtyINode" where
  "push_event tty =
     (let (woken, bus) = bus_set READABLE (tty_bus tty) in (woken, tty\<lparr>tty_bus := bus\<rparr>))"

definition tty_push :: "u8 \<Rightarrow> 'w TtyINode \<Rightarrow> 'w list \<times> 'w TtyINode" where
  "tty_push c tty = (if classify c = Data then push_event (push_buf c tty) else ([], tty))"

text \<open>\<open>pop\<close> holds the buffer's lock while it clears the event.\<close>

definition tty_pop :: "'w TtyINode \<Rightarrow> (u8 \<times> 'w list \<times> 'w TtyINode) outcome" where
  "tty_pop tty =
     (case buf tty of
        [] \<Rightarrow> Inl UnwrapNone
      | c # cs \<Rightarrow>
          let tty = tty\<lparr>buf := cs\<rparr>
          in if cs = []
             then let (woken, bus) = bus_clear READABLE (tty_bus tty) in Inr (c, woken, tty\<lparr>tty_bus := bus\<rparr>)
             else Inr (c, [], tty))"

definition can_read :: "'w TtyINode \<Rightarrow> bool" where
  "can_read tty \<longleftrightarrow> length (buf tty) > 0"

text \<open>\<^verbatim>\<open>read_at\<close> into a buffer of the given length: one byte, or \<^verbatim>\<open>FsError::Again\<close> (\<open>None\<close>).\<close>

definition tty_read_at :: "nat \<Rightarrow> 'w TtyINode \<Rightarrow> (u8 option \<times> 'w list \<times> 'w TtyINode) outcome" where
  "tty_read_at len tty =
     (if can_read tty
      then bindE (tty_pop tty) (\<lambda>(c, woken, tty). if 0 < len then Inr (Some c, woken, tty) else Inl IndexOutOfRange)
      else Inr (None, [], tty))"

text \<open>\<^verbatim>\<open>write_at\<close> prints the bytes of the buffer on the console, whose output is a list of bytes.\<close>

definition tty_write_at :: "u8 list \<Rightarrow> u8 list \<Rightarrow> nat \<times> u8 list" where
  "tty_write_at bytes console = (length bytes, console @ bytes)"

record PollStatus =
  ps_read :: bool
  ps_write :: bool
  ps_error :: bool

definition tty_poll :: "'w TtyINode \<Rightarrow> PollStatus" where
  "tty_poll tty = \<lparr>ps_read = can_read tty, ps_write = True, ps_error = False\<rparr>"

text \<open>\<^verbatim>\<open>SerialFuture::poll\<close> reads the buffer and then subscribes, under different locks.\<close>

definition serial_subscribe :: "'w \<Rightarrow> 'w TtyINode \<Rightarrow> 'w TtyINode" where
  "serial_subscribe w tty = tty\<lparr>tty_bus := subscribe (OnAny w) (tty_bus tty)\<rparr>"

definition serial_poll :: "'w \<Rightarrow> 'w TtyINode \<Rightarrow> PollStatus poll \<times> 'w TtyINode" where
  "serial_poll w tty = (if can_read tty then (Ready (tty_poll tty), tty) else (Pending, serial_subscribe w tty))"

section \<open>Waiters are not stranded\<close>

text \<open>The operations on a bus, as steps with the wakers they call.\<close>

inductive bus_step :: "'w EventBus \<Rightarrow> 'w list \<Rightarrow> 'w EventBus \<Rightarrow> bool" where
  change: "bus_change reset st bus = (woken, bus') \<Longrightarrow> bus_step bus woken bus'"
| poll: "wait_for_event_poll msk w bus = (res, bus') \<Longrightarrow> bus_step bus [] bus'"
| subscribe_any: "bus_step bus [] (subscribe (OnAny w) bus)"

inductive bus_reach :: "'w EventBus \<Rightarrow> bool" where
  new: "bus_reach EventBus_new"
| step: "bus_reach bus \<Longrightarrow> bus_step bus woken bus' \<Longrightarrow> bus_reach bus'"

definition no_missed :: "'w EventBus \<Rightarrow> bool" where
  "no_missed bus \<longleftrightarrow> (\<forall>msk w. OnMask msk w \<in> set (callbacks bus) \<longrightarrow> event bus AND msk = 0)"

lemma bus_step_no_missed: "bus_step bus woken bus' \<Longrightarrow> no_missed bus \<Longrightarrow> no_missed bus'"
  by (induction rule: bus_step.induct)
    (auto simp: no_missed_def bus_change_def wait_for_event_poll_def subscribe_def Let_def split: if_splits)

lemma bus_reach_no_missed: "bus_reach bus \<Longrightarrow> no_missed bus"
proof (induction rule: bus_reach.induct)
  case new
  show ?case by (simp add: no_missed_def EventBus_new_def)
next
  case (step bus woken bus')
  then show ?case using bus_step_no_missed by blast
qed

text \<open>C15: no wake-up is lost on the event bus: whatever happened on a bus, once a task waits for the
  events of a mask (its poll returned pending), the next change after which one of these events is
  present wakes it and takes it off the list, and every other change leaves it waiting.\<close>
theorem bus_wakes_waiters:
  assumes "bus_reach bus" "OnMask msk w \<in> set (callbacks bus)"
    and "bus_change reset s bus = (woken, bus')"
  shows "(event bus' AND msk \<noteq> 0 \<longrightarrow> w \<in> set woken \<and> OnMask msk w \<notin> set (callbacks bus')) \<and>
    (event bus' AND msk = 0 \<longrightarrow> OnMask msk w \<in> set (callbacks bus'))"
proof -
  from bus_reach_no_missed[OF assms(1)] assms(2) have "event bus AND msk = 0"
    by (auto simp: no_missed_def)
  with assms(2,3) show ?thesis
    by (force simp: bus_change_def Let_def split: if_splits)
qed

theorem bus_wakes_waiters_witness:
  "bus_reach (snd (wait_for_event_poll CHILD_PROCESS_QUIT (5 :: nat) EventBus_new)) \<and>
   5 \<in> set (fst (bus_set CHILD_PROCESS_QUIT (snd (wait_for_event_poll CHILD_PROCESS_QUIT (5 :: nat) EventBus_new))))"
proof -
  let ?bus = "snd (wait_for_event_poll CHILD_PROCESS_QUIT (5 :: nat) EventBus_new)"
  have r: "bus_reach ?bus" by (rule bus_reach.step[OF bus_reach.new bus_step.poll]) (rule surjective_pairing)
  have "OnMask CHILD_PROCESS_QUIT 5 \<in> set (callbacks ?bus)"
    by (simp add: wait_for_event_poll_def EventBus_new_def subscribe_def)
  from bus_wakes_waiters[OF r this, of 0 CHILD_PROCESS_QUIT] r show ?thesis
    by (simp add: bus_set_def wait_for_event_poll_def EventBus_new_def subscribe_def bus_change_def Let_def event_defs)
qed

section \<open>The terminal as a queue\<close>

primrec tty_pushes :: "u8 list \<Rightarrow> 'w TtyINode \<Rightarrow> 'w list \<times> 'w TtyINode" where
  "tty_pushes [] tty = ([], tty)"
| "tty_pushes (c # cs) tty =
     (let (w1, tty) = tty_push c tty; (w2, tty) = tty_pushes cs tty in (w1 @ w2, tty))"

primrec tty_reads :: "nat \<Rightarrow> 'w TtyINode \<Rightarrow> (u8 list \<times> 'w TtyINode) outcome" where
  "tty_reads 0 tty = Inr ([], tty)"
| "tty_reads (Suc n) tty =
     bindE (tty_read_at 1 tty) (\<lambda>(c, _, tty).
     bindE (tty_reads n tty) (\<lambda>(cs, tty). Inr (case c of None \<Rightarrow> cs | Some c \<Rightarrow> c # cs, tty)))"

definition tty_ok :: "'w TtyINode \<Rightarrow> bool" where
  "tty_ok tty \<longleftrightarrow> (event (tty_bus tty) AND READABLE \<noteq> 0 \<longleftrightarrow> buf tty \<noteq> [])"

lemma bus_change_event: "event (snd (bus_change reset st bus)) = (event bus AND NOT reset) OR st"
  by (simp add: bus_change_def Let_def)

lemma bus_set_present: "event bus AND st = st \<Longrightarrow> bus_set st bus = ([], bus)"
proof -
  assume "event bus AND st = st"
  then have "event bus OR st = event bus" by (metis or.commute word_bw_lcs(2) and.commute word_ao_absorbs(2))
  then show ?thesis by (simp add: bus_set_def bus_change_def Let_def)
qed

lemma READABLE_bit: "e AND READABLE \<noteq> 0 \<longleftrightarrow> bit e 0" "e AND READABLE = READABLE \<longleftrightarrow> bit e 0"
  unfolding READABLE_def by (simp_all add: and_one_eq odd_iff_mod_2_eq_one bit_0)

lemma bit_READABLE [simp]: "bit READABLE 0"
  by (simp add: READABLE_def bit_0)

lemma tty_push_sel:
  "buf (snd (tty_push c tty)) = (if classify c = Data then buf tty @ [c] else buf tty)"
  "tty_ok tty \<Longrightarrow> tty_ok (snd (tty_push c tty))"
  by (auto simp: tty_push_def push_event_def push_buf_def tty_ok_def READABLE_bit bus_set_def bus_change_event
      bit_simps split: prod.splits dest!: arg_cong[where f = snd])

lemma tty_read_sel:
  assumes "buf tty = c # cs" "tty_ok tty"
  shows "\<exists>woken tty'. tty_read_at 1 tty = Inr (Some c, woken, tty') \<and> buf tty' = cs \<and> tty_ok tty'"
  using assms
  by (auto simp: tty_read_at_def can_read_def tty_pop_def tty_ok_def READABLE_bit bus_clear_def Let_def
      bus_change_event bit_simps split: prod.splits dest!: arg_cong[where f = snd])

lemma tty_pushes_sel:
  "tty_ok tty \<Longrightarrow> tty_ok (snd (tty_pushes cs tty)) \<and>
     buf (snd (tty_pushes cs tty)) = buf tty @ filter (\<lambda>c. classify c = Data) cs"
proof (induction cs arbitrary: tty)
  case (Cons c cs)
  obtain w1 tty1 where 1: "tty_push c tty = (w1, tty1)" by fastforce
  obtain w2 tty2 where 2: "tty_pushes cs tty1 = (w2, tty2)" by fastforce
  show ?case
    using Cons.IH[of tty1] Cons.prems tty_push_sel[where c = c and tty = tty] 1 2 by simp
qed simp

lemma tty_reads_sel:
  "tty_ok tty \<Longrightarrow> n \<le> length (buf tty) \<Longrightarrow>
     \<exists>tty'. tty_reads n tty = Inr (take n (buf tty), tty') \<and> buf tty' = drop n (buf tty) \<and> tty_ok tty'"
proof (induction n arbitrary: tty)
  case (Suc n)
  then obtain c cs where b: "buf tty = c # cs" by (cases "buf tty") auto
  obtain woken tty1 where 1: "tty_read_at 1 tty = Inr (Some c, woken, tty1)" "buf tty1 = cs" "tty_ok tty1"
    using tty_read_sel[OF b Suc.prems(1)] by blast
  with Suc.IH[of tty1] Suc.prems(2) b obtain tty' where "tty_reads n tty1 = Inr (take n cs, tty')"
    "buf tty' = drop n cs" "tty_ok tty'" by auto
  with 1 b show ?case by simp
qed simp

text \<open>the terminal is a first-in first-out queue: of the characters typed, the data characters are
  read back in order, once each, and the readable event is present exactly while there are any left.\<close>
lemma tty_fifo:
  assumes "n \<le> length (filter (\<lambda>c. classify c = Data) cs)"
  shows "\<exists>tty'. tty_reads n (snd (tty_pushes cs (TtyINode_default :: 'w TtyINode))) = Inr (take n (filter (\<lambda>c. classify c = Data) cs), tty') \<and>
    buf tty' = drop n (filter (\<lambda>c. classify c = Data) cs) \<and>
    (event (tty_bus tty') AND READABLE \<noteq> 0 \<longleftrightarrow> buf tty' \<noteq> [])"
proof -
  let ?tty = "TtyINode_default :: 'w TtyINode"
  have "tty_ok ?tty" by (simp add: tty_ok_def TtyINode_default_def EventBus_new_def)
  from tty_pushes_sel[OF this, of cs] assms
  have "tty_ok (snd (tty_pushes cs ?tty))" "buf (snd (tty_pushes cs ?tty)) = filter (\<lambda>c. classify c = Data) cs"
    by (simp_all add: TtyINode_default_def)
  from tty_reads_sel[OF this(1), of n] this(2) assms show ?thesis by (auto simp: tty_ok_def)
qed

lemma pushes_no_wake:
  assumes "bit (event (tty_bus tty)) 0"
  shows "fst (tty_pushes cs tty) = []"
  using assms
proof (induction cs arbitrary: tty)
  case (Cons c cs)
  have "bus_set READABLE (tty_bus tty) = ([], tty_bus tty)"
    using Cons.prems by (intro bus_set_present) (simp add: READABLE_bit)
  then have "fst (tty_push c tty) = [] \<and> bit (event (tty_bus (snd (tty_push c tty)))) 0"
    using Cons.prems by (simp add: tty_push_def push_event_def push_buf_def)
  with Cons.IH[of "snd (tty_push c tty)"] show ?case
    by (cases "tty_push c tty"; cases "tty_pushes cs (snd (tty_push c tty))") simp
qed simp

text \<open>a reader of the terminal can sleep through its input: when a character arrives after the
  reader has seen the buffer empty and before it has subscribed, the readable event is already present
  when it subscribes, so no later character changes the event and none wakes the reader.\<close>
lemma serial_wake_lost:
  assumes "\<not> can_read tty" "classify c = Data"
  shows "fst (tty_pushes cs (serial_subscribe w (snd (tty_push c tty)))) = [] \<and>
    can_read (serial_subscribe w (snd (tty_push c tty)))"
proof
  have "bit (event (tty_bus (snd (tty_push c tty)))) 0"
    using assms(2) by (auto simp: tty_push_def push_event_def push_buf_def bus_set_def bus_change_event bit_simps
      split: prod.splits dest!: arg_cong[where f = snd])
  then show "fst (tty_pushes cs (serial_subscribe w (snd (tty_push c tty)))) = []"
    by (intro pushes_no_wake) (simp add: serial_subscribe_def subscribe_def)
  show "can_read (serial_subscribe w (snd (tty_push c tty)))"
    using assms(2) by (simp add: can_read_def serial_subscribe_def tty_push_sel)
qed

end
