(* ===== verification/Ordered_Map.thy ===== *)
theory Ordered_Map
  imports Kernel_Prelude
begin

text \<open>
  The \<^verbatim>\<open>BTreeMap\<close>s of the kernel: the timer queue, the descriptor table of a process, the tables of
  processes and threads. Such a map is the list of its entries in key order, which is also the order in
  which it is iterated. The loops \<^verbatim>\<open>(n..).find(|i| !map.contains_key(i))\<close> that look for a free number are
  \<open>first_free\<close>; numbers are \<open>nat\<close>, as such a search ends at most the size of the map beyond its start.

  The locales say what clients rely on: lookup after insertion and removal, and the search for a free
  number.
\<close>

type_synonym ('k, 'v) btree = "('k \<times> 'v) list"

abbreviation bt_get :: "('k, 'v) btree \<Rightarrow> 'k \<Rightarrow> 'v option" where
  "bt_get \<equiv> map_of"

fun bt_insert :: "'k :: linorder \<Rightarrow> 'v \<Rightarrow> ('k, 'v) btree \<Rightarrow> ('k, 'v) btree" where
  "bt_insert d w [] = [(d, w)]"
| "bt_insert d w ((k, v) # es) =
     (if d < k then (d, w) # (k, v) # es else if d = k then (d, w) # es else (k, v) # bt_insert d w es)"

definition bt_remove :: "'k \<Rightarrow> ('k, 'v) btree \<Rightarrow> ('k, 'v) btree" where
  "bt_remove k m = filter (\<lambda>e. fst e \<noteq> k) m"

definition bt_ok :: "('k :: linorder, 'v) btree \<Rightarrow> bool" where
  "bt_ok m \<longleftrightarrow> sorted_wrt (<) (map fst m)"

lemma bt_ok_Nil [simp]: "bt_ok []"
  by (simp add: bt_ok_def)

lemma bt_insert_keys: "fst ` set (bt_insert d w es) = insert d (fst ` set es)"
  by (induction d w es rule: bt_insert.induct) (simp_all add: insert_commute)

lemma bt_insert_ok [simp]: "bt_ok es \<Longrightarrow> bt_ok (bt_insert d w es)"
proof (induction es)
  case (Cons e es)
  then show ?case using bt_insert_keys[of d w es] by (cases e) (auto simp: bt_ok_def)
qed (simp add: bt_ok_def)

lemma bt_insert_set: "d \<notin> fst ` set es \<Longrightarrow> set (bt_insert d w es) = insert (d, w) (set es)"
  by (induction es) (auto split: if_splits)

lemma bt_ok_distinct: "bt_ok m \<Longrightarrow> distinct (map fst m)"
  by (simp add: bt_ok_def strict_sorted_iff)

lemma bt_get_insert: "bt_ok m \<Longrightarrow> bt_get (bt_insert k v m) = (bt_get m)(k \<mapsto> v)"
proof (induction m)
  case (Cons e m)
  then have "bt_ok m" by (simp add: bt_ok_def)
  with Cons show ?case by (cases e) (auto simp: fun_eq_iff)
qed simp

lemma bt_get_remove: "bt_get (bt_remove k m) = (bt_get m)(k := None)"
  by (induction m) (auto simp: bt_remove_def fun_eq_iff)

lemma bt_remove_ok [simp]: "bt_ok m \<Longrightarrow> bt_ok (bt_remove k m)"
  unfolding bt_ok_def bt_remove_def sorted_wrt_map by (rule sorted_wrt_filter)

lemma bt_remove_keys: "fst ` set (bt_remove k m) = fst ` set m - {k}"
  by (auto simp: bt_remove_def)

function first_free :: "(nat, 'v) btree \<Rightarrow> nat \<Rightarrow> nat" where
  "first_free m i = (if bt_get m i = None then i else first_free m (Suc i))"
  by pat_completeness auto
termination
proof (relation "measure (\<lambda>(m, i). card {k \<in> fst ` set m. i \<le> k})", goal_cases)
  case (2 m i)
  then have "i \<in> fst ` set m" by (simp add: map_of_eq_None_iff)
  then have "{k \<in> fst ` set m. Suc i \<le> k} \<subseteq> {k \<in> fst ` set m. i \<le> k}"
    "i \<notin> {k \<in> fst ` set m. Suc i \<le> k}" "i \<in> {k \<in> fst ` set m. i \<le> k}" by auto
  then have "{k \<in> fst ` set m. Suc i \<le> k} \<subset> {k \<in> fst ` set m. i \<le> k}" by blast
  then show ?case by (simp add: psubset_card_mono)
qed simp

declare first_free.simps [simp del]

lemma first_free_least:
  "bt_get m (first_free m i) = None \<and> i \<le> first_free m i \<and>
   (\<forall>k. i \<le> k \<and> k < first_free m i \<longrightarrow> bt_get m k \<noteq> None)"
proof (induction m i rule: first_free.induct)
  case (1 m i)
  show ?case
  proof (cases "bt_get m i = None")
    case True
    then have "first_free m i = i" by (subst first_free.simps) simp
    with True show ?thesis by auto
  next
    case False
    have eq: "first_free m i = first_free m (Suc i)" by (subst first_free.simps) (rule if_not_P[OF False])
    have "bt_get m k \<noteq> None" if "i \<le> k" "k < first_free m (Suc i)" for k
      using 1[OF False] False that by (cases "k = i") auto
    then show ?thesis unfolding eq using 1[OF False] by auto
  qed
qed

section \<open>What clients of a map rely on\<close>

locale lookup_map =
  fixes get :: "'m \<Rightarrow> 'k \<Rightarrow> 'v option"
    and ins :: "'k \<Rightarrow> 'v \<Rightarrow> 'm \<Rightarrow> 'm"
    and del :: "'k \<Rightarrow> 'm \<Rightarrow> 'm"
    and ok :: "'m \<Rightarrow> bool"
  assumes get_ins: "ok m \<Longrightarrow> get (ins k v m) = (get m)(k \<mapsto> v)"
    and get_del: "ok m \<Longrightarrow> get (del k m) = (get m)(k := None)"
    and ok_ins: "ok m \<Longrightarrow> ok (ins k v m)"
    and ok_del: "ok m \<Longrightarrow> ok (del k m)"
begin

lemma del_all: "ok m \<Longrightarrow> get (fold del ks m) = (\<lambda>k. if k \<in> set ks then None else get m k) \<and> ok (fold del ks m)"
proof (induction ks arbitrary: m)
  case (Cons k ks)
  from Cons.IH[OF ok_del[OF Cons.prems]] show ?case using get_del[OF Cons.prems, of k] by (auto simp: fun_eq_iff)
qed simp

lemma replace: "ok m \<Longrightarrow> get (ins k v (del j m)) = (get m)(j := None, k \<mapsto> v)"
  using get_ins[OF ok_del] get_del by simp

end

locale index_map = lookup_map get ins del ok for get :: "'m \<Rightarrow> nat \<Rightarrow> 'v option" and ins del ok +
  fixes free :: "'m \<Rightarrow> nat \<Rightarrow> nat"
  assumes free: "get m (free m n) = None \<and> n \<le> free m n \<and> (\<forall>k. n \<le> k \<and> k < free m n \<longrightarrow> get m k \<noteq> None)"
begin

lemma alloc:
  assumes "ok m"
  shows "get (ins (free m n) v m) (free m n) = Some v" "k \<noteq> free m n \<Longrightarrow> get (ins (free m n) v m) k = get m k"
    "get m k \<noteq> None \<Longrightarrow> get (ins (free m n) v m) k = get m k"
  using get_ins[OF assms] free[of m n] by auto

end

interpretation bt: lookup_map map_of bt_insert bt_remove bt_ok
  by unfold_locales (simp_all add: bt_get_insert bt_get_remove)

interpretation bt_index: index_map map_of bt_insert bt_remove bt_ok first_free
  by unfold_locales (rule first_free_least)

section \<open>Removing many keys\<close>

lemma bt_remove_all:
  assumes "bt_ok m"
  shows "bt_ok (fold bt_remove ks m)" "bt_get (fold bt_remove ks m) j = (if j \<in> set ks then None else bt_get m j)"
  using bt.del_all[OF assms, of ks] by simp_all

lemma bt_remove_every_key [simp]: "fold bt_remove (map fst m) m = []"
proof -
  have "fold bt_remove ks m = filter (\<lambda>e. fst e \<notin> set ks) m" for ks
    by (induction ks arbitrary: m) (auto simp: bt_remove_def intro: filter_cong)
  then show ?thesis by (simp add: filter_empty_conv)
qed

lemma bt_remove_mem: "e \<in> set (fold bt_remove ks m) \<Longrightarrow> e \<in> set m"
proof (induction ks arbitrary: m)
  case (Cons i ks)
  from Cons.IH[of "bt_remove i m"] Cons.prems show ?case by (simp add: bt_remove_def)
qed simp

lemma bt_insert_mem: "e \<in> set (bt_insert d w m) \<Longrightarrow> e = (d, w) \<or> e \<in> set m"
  by (induction m) (auto split: if_splits)

end
