(* ===== verification/File_Handle.thy ===== *)
theory File_Handle
  imports Event_Bus Ordered_Map
begin

text \<open>
  Open files (\<^verbatim>\<open>src/kernel/src/fs/file.rs\<close>). A \<open>FileHandle\<close> refers to an inode and to an open file
  description, which holds the offset and the options; duplicating a handle shares the description, so
  descriptions live in a store and a handle holds a reference.

  Inodes are trait objects of the file system crate. Their operations are the record \<open>inode_ops\<close>, over a
  state of the file systems; \<open>inode_laws\<close> states what a regular file does.
\<close>

section \<open>Inodes\<close>

datatype FsError = InvalidParam | Again | EntryNotFound | FsOther nat

datatype FileType = File | Dir | SymLink | CharDevice | BlockDevice | OtherType

record Metadata =
  md_size :: usize
  md_type :: FileType

record ('i, 's) inode_ops =
  i_read_at :: "'i \<Rightarrow> usize \<Rightarrow> nat \<Rightarrow> 's \<Rightarrow> (FsError + u8 list) \<times> 's"
  i_write_at :: "'i \<Rightarrow> usize \<Rightarrow> u8 list \<Rightarrow> 's \<Rightarrow> (FsError + nat) \<times> 's"
  i_async_poll :: "'i \<Rightarrow> 's \<Rightarrow> (FsError + unit) poll \<times> 's"
  i_metadata :: "'i \<Rightarrow> 's \<Rightarrow> FsError + Metadata"
  i_resize :: "'i \<Rightarrow> usize \<Rightarrow> 's \<Rightarrow> (FsError + unit) \<times> 's"
  i_sync_all :: "'i \<Rightarrow> 's \<Rightarrow> (FsError + unit) \<times> 's"
  i_sync_data :: "'i \<Rightarrow> 's \<Rightarrow> (FsError + unit) \<times> 's"
  i_get_entry :: "'i \<Rightarrow> usize \<Rightarrow> 's \<Rightarrow> FsError + string"
  i_get_entry_with_metadata :: "'i \<Rightarrow> usize \<Rightarrow> 's \<Rightarrow> FsError + Metadata \<times> string"
  i_lookup :: "'i \<Rightarrow> string \<Rightarrow> 's \<Rightarrow> FsError + 'i"
  i_lookup_follow :: "'i \<Rightarrow> string \<Rightarrow> nat \<Rightarrow> 's \<Rightarrow> FsError + 'i"
  i_find :: "'i \<Rightarrow> string \<Rightarrow> 's \<Rightarrow> FsError + 'i"
  i_create :: "'i \<Rightarrow> string \<Rightarrow> FileType \<Rightarrow> u32 \<Rightarrow> 's \<Rightarrow> (FsError + 'i) \<times> 's"
  i_update_time :: "'i \<Rightarrow> u64 \<Rightarrow> 's \<Rightarrow> 's"
  i_link :: "'i \<Rightarrow> string \<Rightarrow> 'i \<Rightarrow> 's \<Rightarrow> (FsError + unit) \<times> 's"
  i_unlink :: "'i \<Rightarrow> string \<Rightarrow> 's \<Rightarrow> (FsError + unit) \<times> 's"
  i_move :: "'i \<Rightarrow> string \<Rightarrow> 'i \<Rightarrow> string \<Rightarrow> 's \<Rightarrow> (FsError + unit) \<times> 's"
  i_fs_sync :: "'i \<Rightarrow> 's \<Rightarrow> (FsError + unit) \<times> 's"

section \<open>Handles and descriptions\<close>

datatype Flock = FlockNone | FlockShared | FlockExclusive

record OpenOptions =
  opt_read :: bool
  opt_write :: bool
  opt_append :: bool

record OpenFileDescription =
  offset :: u64
  options :: OpenOptions
  flock :: Flock

record 'i FileHandle =
  fh_inode :: 'i
  description :: nat
  fh_path :: string
  fd_cloexec :: bool

datatype SeekFrom = Start u64 | End u64 | Current u64

text \<open>The file systems, the store of descriptions and the next unused reference into it.\<close>

record 's fsys =
  fs :: 's
  descs :: "nat \<Rightarrow> OpenFileDescription"
  next_desc :: nat

definition desc_of :: "'i FileHandle \<Rightarrow> 's fsys \<Rightarrow> OpenFileDescription" where
  "desc_of h st = descs st (description h)"

definition set_offset :: "'i FileHandle \<Rightarrow> u64 \<Rightarrow> 's fsys \<Rightarrow> 's fsys" where
  "set_offset h off st = st\<lparr>descs := (descs st)(description h := (desc_of h st)\<lparr>offset := off\<rparr>)\<rparr>"

definition description_create :: "OpenOptions \<Rightarrow> 's fsys \<Rightarrow> nat \<times> 's fsys" where
  "description_create opts st =
     (next_desc st,
      st\<lparr>descs := (descs st)(next_desc st := \<lparr>offset = 0, options = opts, flock = FlockNone\<rparr>),
        next_desc := Suc (next_desc st)\<rparr>)"

definition FileHandle_new :: "'i \<Rightarrow> OpenOptions \<Rightarrow> string \<Rightarrow> bool \<Rightarrow> 's fsys \<Rightarrow> 'i FileHandle \<times> 's fsys" where
  "FileHandle_new i opts path cloexec st =
     (let (d, st) = description_create opts st
      in (\<lparr>fh_inode = i, description = d, fh_path = path, fd_cloexec = cloexec\<rparr>, st))"

definition fh_dup :: "bool \<Rightarrow> 'i FileHandle \<Rightarrow> 'i FileHandle" where
  "fh_dup cloexec h = h\<lparr>fd_cloexec := cloexec\<rparr>"

section \<open>Reading and writing\<close>

text \<open>The loop of \<open>read_at\<close>: it ends with a result, or pending in \<open>async_poll\<close>, after which it is resumed
  from the top. It spins when an inode has nothing to read but claims to be ready, and then the value is
  \<open>None\<close>.\<close>

partial_function (option) read_loop ::
  "('i, 's) inode_ops \<Rightarrow> 'i \<Rightarrow> usize \<Rightarrow> nat \<Rightarrow> 's \<Rightarrow> ((FsError + u8 list) poll \<times> 's) option" where
  "read_loop I i off len s =
     (case i_read_at I i off len s of
        (Inr bs, s) \<Rightarrow> Some (Ready (Inr bs), s)
      | (Inl err, s) \<Rightarrow>
          if err = Again
          then (case i_async_poll I i s of
                  (Pending, s) \<Rightarrow> Some (Pending, s)
                | (Ready (Inl e), s) \<Rightarrow> Some (Ready (Inl e), s)
                | (Ready (Inr _), s) \<Rightarrow> read_loop I i off len s)
          else Some (Ready (Inl err), s))"

definition fh_read_at ::
  "('i, 's) inode_ops \<Rightarrow> 'i FileHandle \<Rightarrow> usize \<Rightarrow> nat \<Rightarrow> 's fsys \<Rightarrow> ((FsError + u8 list) poll \<times> 's fsys) option" where
  "fh_read_at I h off len st =
     (if \<not> opt_read (options (desc_of h st)) then Some (Ready (Inl InvalidParam), st)
      else map_option (\<lambda>(r, s). (r, st\<lparr>fs := s\<rparr>)) (read_loop I (fh_inode h) off len (fs st)))"

definition fh_read ::
  "('i, 's) inode_ops \<Rightarrow> 'i FileHandle \<Rightarrow> nat \<Rightarrow> 's fsys \<Rightarrow> ((FsError + u8 list) poll \<times> 's fsys) option" where
  "fh_read I h len st =
     map_option
       (\<lambda>(r, st).
          case r of
            Ready (Inr bs) \<Rightarrow> (r, set_offset h (offset (desc_of h st) + of_nat (length bs)) st)
          | _ \<Rightarrow> (r, st))
       (fh_read_at I h (offset (desc_of h st)) len st)"

definition fh_write_at ::
  "('i, 's) inode_ops \<Rightarrow> 'i FileHandle \<Rightarrow> usize \<Rightarrow> u8 list \<Rightarrow> 's fsys \<Rightarrow> (FsError + nat) \<times> 's fsys" where
  "fh_write_at I h off bs st =
     (if \<not> opt_write (options (desc_of h st)) then (Inl InvalidParam, st)
      else let (r, s) = i_write_at I (fh_inode h) off bs (fs st) in (r, st\<lparr>fs := s\<rparr>))"

definition fh_write ::
  "('i, 's) inode_ops \<Rightarrow> 'i FileHandle \<Rightarrow> u8 list \<Rightarrow> 's fsys \<Rightarrow> (FsError + nat) \<times> 's fsys" where
  "fh_write I h bs st =
     (case if opt_append (options (desc_of h st))
           then bindE (i_metadata I (fh_inode h) (fs st)) (\<lambda>md. Inr (md_size md))
           else Inr (offset (desc_of h st)) of
        Inl e \<Rightarrow> (Inl e, st)
      | Inr off \<Rightarrow>
          (case fh_write_at I h off bs st of
             (Inl e, st) \<Rightarrow> (Inl e, st)
           | (Inr len, st) \<Rightarrow> (Inr len, set_offset h (offset (desc_of h st) + of_nat len) st)))"

definition fh_seek ::
  "('i, 's) inode_ops \<Rightarrow> 'i FileHandle \<Rightarrow> SeekFrom \<Rightarrow> 's fsys \<Rightarrow> (FsError + u64) \<times> 's fsys" where
  "fh_seek I h pos st =
     (case (case pos of
              Start off \<Rightarrow> Inr off
            | End off \<Rightarrow> bindE (i_metadata I (fh_inode h) (fs st)) (\<lambda>md. Inr (md_size md + off))
            | Current off \<Rightarrow> Inr (offset (desc_of h st) + off)) of
        Inl e \<Rightarrow> (Inl e, st)
      | Inr off \<Rightarrow> (Inr off, set_offset h off st))"

definition fh_set_len ::
  "('i, 's) inode_ops \<Rightarrow> 'i FileHandle \<Rightarrow> u64 \<Rightarrow> 's fsys \<Rightarrow> (FsError + unit) \<times> 's fsys" where
  "fh_set_len I h len st =
     (if \<not> opt_write (options (desc_of h st)) then (Inl InvalidParam, st)
      else let (r, s) = i_resize I (fh_inode h) len (fs st) in (r, st\<lparr>fs := s\<rparr>))"

definition fh_sync_all :: "('i, 's) inode_ops \<Rightarrow> 'i FileHandle \<Rightarrow> 's fsys \<Rightarrow> (FsError + unit) \<times> 's fsys" where
  "fh_sync_all I h st = (let (r, s) = i_sync_all I (fh_inode h) (fs st) in (r, st\<lparr>fs := s\<rparr>))"

definition fh_sync_data :: "('i, 's) inode_ops \<Rightarrow> 'i FileHandle \<Rightarrow> 's fsys \<Rightarrow> (FsError + unit) \<times> 's fsys" where
  "fh_sync_data I h st = (let (r, s) = i_sync_data I (fh_inode h) (fs st) in (r, st\<lparr>fs := s\<rparr>))"

definition fh_lookup_follow :: "('i, 's) inode_ops \<Rightarrow> 'i FileHandle \<Rightarrow> string \<Rightarrow> nat \<Rightarrow> 's fsys \<Rightarrow> FsError + 'i" where
  "fh_lookup_follow I h path max_follow st = i_lookup_follow I (fh_inode h) path max_follow (fs st)"

definition read_entry ::
  "('i, 's) inode_ops \<Rightarrow> 'i FileHandle \<Rightarrow> 's fsys \<Rightarrow> (FsError + string) \<times> 's fsys" where
  "read_entry I h st =
     (if \<not> opt_read (options (desc_of h st)) then (Inl InvalidParam, st)
      else case i_get_entry I (fh_inode h) (offset (desc_of h st)) (fs st) of
             Inl e \<Rightarrow> (Inl e, st)
           | Inr name \<Rightarrow> (Inr name, set_offset h (offset (desc_of h st) + 1) st))"

definition read_entry_with_metadata ::
  "('i, 's) inode_ops \<Rightarrow> 'i FileHandle \<Rightarrow> 's fsys \<Rightarrow> (FsError + Metadata \<times> string) \<times> 's fsys" where
  "read_entry_with_metadata I h st =
     (if \<not> opt_read (options (desc_of h st)) then (Inl InvalidParam, st)
      else case i_get_entry_with_metadata I (fh_inode h) (offset (desc_of h st)) (fs st) of
             Inl e \<Rightarrow> (Inl e, st)
           | Inr ret \<Rightarrow> (Inr ret, set_offset h (offset (desc_of h st) + 1) st))"


section \<open>What a regular file does\<close>

text \<open>Writing bytes at an offset; a gap before it is filled with zeros.\<close>

definition splice :: "nat \<Rightarrow> u8 list \<Rightarrow> u8 list \<Rightarrow> u8 list" where
  "splice off bs c = take off (c @ replicate (off - length c) 0) @ bs @ drop (off + length bs) c"

lemma splice_read: "take (length bs) (drop off (splice off bs c)) = bs"
  by (simp add: splice_def)

lemma splice_end: "splice (length c) bs c = c @ bs"
  by (simp add: splice_def)

definition inode_laws :: "('i, 's) inode_ops \<Rightarrow> ('i \<Rightarrow> 's \<Rightarrow> u8 list) \<Rightarrow> 'i \<Rightarrow> bool" where
  "inode_laws I content i \<longleftrightarrow>
     (\<forall>off n s. i_read_at I i off n s = (Inr (take n (drop (unat off) (content i s))), s)) \<and>
     (\<forall>off bs s. fst (i_write_at I i off bs s) = Inr (length bs) \<and>
        content i (snd (i_write_at I i off bs s)) = splice (unat off) bs (content i s)) \<and>
     (\<forall>s. \<exists>md. i_metadata I i s = Inr md \<and> (length (content i s) < 2 ^ 64 \<longrightarrow> unat (md_size md) = length (content i s)))"

text \<open>A file system that meets the laws: an inode is a number and its file a list of bytes.\<close>

definition ram_inodes :: "(nat, nat \<Rightarrow> u8 list) inode_ops" where
  "ram_inodes =
     \<lparr>i_read_at = (\<lambda>i off n s. (Inr (take n (drop (unat off) (s i))), s)),
      i_write_at = (\<lambda>i off bs s. (Inr (length bs), s(i := splice (unat off) bs (s i)))),
      i_async_poll = (\<lambda>i s. (Ready (Inr ()), s)),
      i_metadata = (\<lambda>i s. Inr \<lparr>md_size = of_nat (length (s i)), md_type = File\<rparr>),
      i_resize = (\<lambda>i n s. (Inr (), s(i := take (unat n) (s i @ replicate (unat n - length (s i)) 0)))),
      i_sync_all = (\<lambda>i s. (Inr (), s)), i_sync_data = (\<lambda>i s. (Inr (), s)),
      i_get_entry = (\<lambda>i n s. Inl EntryNotFound), i_get_entry_with_metadata = (\<lambda>i n s. Inl EntryNotFound),
      i_lookup = (\<lambda>i p s. Inr i), i_lookup_follow = (\<lambda>i p n s. if p = [] then Inr i else Inl EntryNotFound), i_find = (\<lambda>i p s. Inl EntryNotFound),
      i_create = (\<lambda>i p t m s. (Inl InvalidParam, s)), i_update_time = (\<lambda>i t s. s),
      i_link = (\<lambda>i p j s. (Inl InvalidParam, s)), i_unlink = (\<lambda>i p s. (Inl InvalidParam, s)),
      i_move = (\<lambda>i p j q s. (Inl InvalidParam, s)), i_fs_sync = (\<lambda>i s. (Inr (), s))\<rparr>"

lemma ram_inode_laws: "inode_laws ram_inodes (\<lambda>i s. s i) i"
  by (auto simp: inode_laws_def ram_inodes_def unat_of_nat)

lemma desc_set_offset [simp]:
  "desc_of h (set_offset h off st) = (desc_of h st)\<lparr>offset := off\<rparr>" "fs (set_offset h off st) = fs st"
  "desc_of h (st\<lparr>fs := s\<rparr>) = desc_of h st" "set_offset h b (set_offset h a st) = set_offset h b st"
  by (simp_all add: set_offset_def desc_of_def)

lemma read_loop_file:
  assumes "inode_laws I content i"
  shows "read_loop I i off n s = Some (Ready (Inr (take n (drop (unat off) (content i s)))), s)"
  using assms by (subst read_loop.simps) (simp add: inode_laws_def)

lemma fh_read_file:
  assumes "inode_laws I content (fh_inode h)" "opt_read (options (desc_of h st))"
    "bs = take n (drop (unat (offset (desc_of h st))) (content (fh_inode h) (fs st)))"
  shows "fh_read I h n st = Some (Ready (Inr bs), set_offset h (offset (desc_of h st) + of_nat (length bs)) st)"
  using assms by (simp add: fh_read_def fh_read_at_def read_loop_file[OF assms(1)])

lemma fh_write_at_file:
  assumes "inode_laws I content (fh_inode h)" "opt_write (options (desc_of h st))"
  obtains s where "fh_write_at I h off bs st = (Inr (length bs), st\<lparr>fs := s\<rparr>)"
    "content (fh_inode h) s = splice (unat off) bs (content (fh_inode h) (fs st))"
proof -
  obtain r s where "i_write_at I (fh_inode h) off bs (fs st) = (r, s)" by fastforce
  moreover from this assms(1) have "r = Inr (length bs)"
    "content (fh_inode h) s = splice (unat off) bs (content (fh_inode h) (fs st))"
    unfolding inode_laws_def by (metis fst_conv snd_conv)+
  ultimately show thesis using that assms(2) by (simp add: fh_write_at_def)
qed

text \<open>C28: what is written to a file is read back: after writing bytes at the current offset of a handle
  that may read and write, seeking back by their number and reading as many returns exactly these bytes,
  leaves the offset behind them, and the file has them at that place and is otherwise unchanged.\<close>
theorem write_seek_read:
  assumes "inode_laws I content (fh_inode h)"
    and "opt_read (options (desc_of h st))" "opt_write (options (desc_of h st))" "\<not> opt_append (options (desc_of h st))"
  shows "\<exists>st1 st2 st3. fh_write I h bs st = (Inr (length bs), st1) \<and>
    fh_seek I h (Current (- of_nat (length bs))) st1 = (Inr (offset (desc_of h st)), st2) \<and>
    fh_read I h (length bs) st2 = Some (Ready (Inr bs), st3) \<and>
    offset (desc_of h st3) = offset (desc_of h st) + of_nat (length bs) \<and>
    content (fh_inode h) (fs st3) = splice (unat (offset (desc_of h st))) bs (content (fh_inode h) (fs st))"
proof -
  let ?off = "offset (desc_of h st)"
  obtain s where s: "fh_write_at I h ?off bs st = (Inr (length bs), st\<lparr>fs := s\<rparr>)"
    "content (fh_inode h) s = splice (unat ?off) bs (content (fh_inode h) (fs st))"
    using fh_write_at_file[OF assms(1,3)] by blast
  define st1 where "st1 = set_offset h (?off + of_nat (length bs)) (st\<lparr>fs := s\<rparr>)"
  define st2 where "st2 = set_offset h ?off st1"
  have w: "fh_write I h bs st = (Inr (length bs), st1)" using assms(4) s(1) by (simp add: fh_write_def st1_def)
  have k: "fh_seek I h (Current (- of_nat (length bs))) st1 = (Inr ?off, st2)"
    by (simp add: fh_seek_def st1_def st2_def)
  have "bs = take (length bs) (drop (unat (offset (desc_of h st2))) (content (fh_inode h) (fs st2)))"
    by (simp add: st2_def st1_def s(2) splice_read)
  moreover have "opt_read (options (desc_of h st2))" using assms(2) by (simp add: st2_def st1_def)
  ultimately have "fh_read I h (length bs) st2 =
      Some (Ready (Inr bs), set_offset h (offset (desc_of h st2) + of_nat (length bs)) st2)"
    by (rule fh_read_file[OF assms(1), rotated])
  with w k s(2) show ?thesis by (simp add: st2_def st1_def)
qed

definition demo_handle :: "nat FileHandle" where
  "demo_handle = \<lparr>fh_inode = 4, description = 0, fh_path = ''/tmp/a'', fd_cloexec = False\<rparr>"

definition demo_fsys :: "bool \<Rightarrow> (nat \<Rightarrow> u8 list) fsys" where
  "demo_fsys app =
     \<lparr>fs = (\<lambda>_. [1, 2, 3]), descs = (\<lambda>_. \<lparr>offset = 1, options = \<lparr>opt_read = True, opt_write = True, opt_append = app\<rparr>, flock = FlockNone\<rparr>),
      next_desc = 1\<rparr>"

theorem write_seek_read_witness:
  "\<exists>st1 st2 st3. fh_write ram_inodes demo_handle [7, 8] (demo_fsys False) = (Inr 2, st1) \<and>
    fh_seek ram_inodes demo_handle (Current (- 2)) st1 = (Inr 1, st2) \<and>
    fh_read ram_inodes demo_handle 2 st2 = Some (Ready (Inr [7, 8]), st3) \<and> fs st3 4 = [1, 7, 8]"
  using write_seek_read[OF ram_inode_laws, of demo_handle "demo_fsys False" "[7, 8]"]
  by (auto simp: demo_handle_def demo_fsys_def desc_of_def splice_def numeral_2_eq_2)

text \<open>a handle opened for appending writes at the end of the file whatever its offset is, but its
  offset is not moved there: it only grows by the number of bytes written, so a read that follows does
  not start at the end of the file.\<close>
lemma append_offset:
  assumes "inode_laws I content (fh_inode h)" "length (content (fh_inode h) (fs st)) < 2 ^ 64"
    and "opt_write (options (desc_of h st))" "opt_append (options (desc_of h st))"
  shows "\<exists>st'. fh_write I h bs st = (Inr (length bs), st') \<and>
    content (fh_inode h) (fs st') = content (fh_inode h) (fs st) @ bs \<and>
    offset (desc_of h st') = offset (desc_of h st) + of_nat (length bs)"
proof -
  obtain md where md: "i_metadata I (fh_inode h) (fs st) = Inr md"
    "unat (md_size md) = length (content (fh_inode h) (fs st))"
    using assms(1,2) unfolding inode_laws_def by blast
  obtain s where "fh_write_at I h (md_size md) bs st = (Inr (length bs), st\<lparr>fs := s\<rparr>)"
    "content (fh_inode h) s = splice (unat (md_size md)) bs (content (fh_inode h) (fs st))"
    using fh_write_at_file[OF assms(1,3)] by blast
  with md assms(4) show ?thesis by (simp add: fh_write_def splice_end)
qed

end
