(* ===== verification/Signal_Set.thy ===== *)
theory Signal_Set
  imports Kernel_Prelude
begin

text \<open>
  Signals, sets of signals and signal actions (\<^verbatim>\<open>src/kernel/src/signal/mod.rs\<close>,
  \<^verbatim>\<open>signal/action.rs\<close>) and the machine context saved on a signal stack
  (\<^verbatim>\<open>arch/aarch64/signal.rs\<close>).

  The real-time signals \<open>SIGRT32\<close> to \<open>SIGRT64\<close> of the code are \<open>SIGRT 32\<close> to \<open>SIGRT 64\<close>. \<open>sig as u64\<close> is
  \<open>sig_no\<close>. A shift by it is masked to 6 bits, as the release profile compiles it, so the bit of
  \<open>SIGRT 64\<close> is bit 0.
\<close>

section \<open>Signals\<close>

datatype (plugins only: code) Signal =
    SIGHUP | SIGINT | SIGQUIT | SIGILL | SIGTRAP | SIGABRT | SIGBUS | SIGFPE | SIGKILL | SIGUSR1
    | SIGSEGV | SIGUSR2 | SIGPIPE | SIGALRM | SIGTERM | SIGSTKFLT | SIGCHLD | SIGCONT | SIGSTOP
    | SIGTSTP | SIGTTIN | SIGTTOU | SIGURG | SIGXCPU | SIGXFSZ | SIGVTALRM | SIGPROF | SIGWINCH
    | SIGIO | SIGPWR | SIGSYS
    | SIGRT nat

primrec sig_no :: "Signal \<Rightarrow> nat" where
  "sig_no SIGHUP = 1"
| "sig_no SIGINT = 2"
| "sig_no SIGQUIT = 3"
| "sig_no SIGILL = 4"
| "sig_no SIGTRAP = 5"
| "sig_no SIGABRT = 6"
| "sig_no SIGBUS = 7"
| "sig_no SIGFPE = 8"
| "sig_no SIGKILL = 9"
| "sig_no SIGUSR1 = 10"
| "sig_no SIGSEGV = 11"
| "sig_no SIGUSR2 = 12"
| "sig_no SIGPIPE = 13"
| "sig_no SIGALRM = 14"
| "sig_no SIGTERM = 15"
| "sig_no SIGSTKFLT = 16"
| "sig_no SIGCHLD = 17"
| "sig_no SIGCONT = 18"
| "sig_no SIGSTOP = 19"
| "sig_no SIGTSTP = 20"
| "sig_no SIGTTIN = 21"
| "sig_no SIGTTOU = 22"
| "sig_no SIGURG = 23"
| "sig_no SIGXCPU = 24"
| "sig_no SIGXFSZ = 25"
| "sig_no SIGVTALRM = 26"
| "sig_no SIGPROF = 27"
| "sig_no SIGWINCH = 28"
| "sig_no SIGIO = 29"
| "sig_no SIGPWR = 30"
| "sig_no SIGSYS = 31"
| "sig_no (SIGRT n) = n"

definition standard_signals :: "Signal list" where
  "standard_signals =
     [SIGHUP, SIGINT, SIGQUIT, SIGILL, SIGTRAP, SIGABRT, SIGBUS, SIGFPE, SIGKILL, SIGUSR1, SIGSEGV,
      SIGUSR2, SIGPIPE, SIGALRM, SIGTERM, SIGSTKFLT, SIGCHLD, SIGCONT, SIGSTOP, SIGTSTP, SIGTTIN,
      SIGTTOU, SIGURG, SIGXCPU, SIGXFSZ, SIGVTALRM, SIGPROF, SIGWINCH, SIGIO, SIGPWR, SIGSYS]"

definition RTMIN :: nat where "RTMIN = 32"
definition RTMAX :: nat where "RTMAX = 64"

text \<open>The derived \<^verbatim>\<open>FromPrimitive::from_i32\<close>.\<close>

definition from_i32 :: "32 word \<Rightarrow> Signal option" where
  "from_i32 n =
     (if 32 \<le> sint n \<and> sint n \<le> 64 then Some (SIGRT (nat (sint n)))
      else find (\<lambda>s. int (sig_no s) = sint n) standard_signals)"

definition is_standard :: "Signal \<Rightarrow> bool" where
  "is_standard s \<longleftrightarrow> sig_no s < RTMIN"

section \<open>Signal sets\<close>

datatype Sigset = Sigset u64

definition Sigset_empty :: Sigset where
  "Sigset_empty = Sigset 0"

text \<open>\<^verbatim>\<open>1 << sig as u64\<close>\<close>

definition sig_bit :: "Signal \<Rightarrow> u64" where
  "sig_bit s = push_bit (sig_no s mod 64) 1"

primrec sigset_contains :: "Sigset \<Rightarrow> Signal \<Rightarrow> bool" where
  "sigset_contains (Sigset w) s \<longleftrightarrow> drop_bit (sig_no s mod 64) w AND 1 \<noteq> 0"

primrec sigset_add :: "Signal \<Rightarrow> Sigset \<Rightarrow> Sigset" where
  "sigset_add s (Sigset w) = Sigset (w OR sig_bit s)"

primrec sigset_bits :: "Sigset \<Rightarrow> u64" where
  "sigset_bits (Sigset w) = w"

primrec sigset_add_set :: "Sigset \<Rightarrow> Sigset \<Rightarrow> Sigset" where
  "sigset_add_set t (Sigset w) = Sigset (w OR sigset_bits t)"

primrec sigset_remove :: "Signal \<Rightarrow> Sigset \<Rightarrow> Sigset" where
  "sigset_remove s (Sigset w) = Sigset (w XOR (w AND sig_bit s))"

primrec sigset_remove_set :: "Sigset \<Rightarrow> Sigset \<Rightarrow> Sigset" where
  "sigset_remove_set t (Sigset w) = Sigset (w XOR (w AND sigset_bits t))"

section \<open>Actions, information and stacks\<close>

definition SIG_ERR :: usize where "SIG_ERR = - 1 - 1"
definition SIG_DFL :: usize where "SIG_DFL = 0"
definition SIG_IGN :: usize where "SIG_IGN = 1"

record SignalAction =
  act_handler :: usize
  act_flags :: usize
  act_restorer :: usize
  act_mask :: Sigset

definition SignalAction_default :: SignalAction where
  "SignalAction_default = \<lparr>act_handler = 0, act_flags = 0, act_restorer = 0, act_mask = Sigset 0\<rparr>"

text \<open>The padding of the union \<open>SiginfoFields\<close> is never read and is left out.\<close>

record Siginfo =
  si_signo :: "32 word"
  si_errno :: "32 word"
  si_code :: "32 word"

definition SA_ONSTACK :: usize where "SA_ONSTACK = 0x08000000"
definition SA_RESTORER :: usize where "SA_RESTORER = 0x04000000"

definition SS_ONSTACK :: u32 where "SS_ONSTACK = 1"
definition SS_DISABLE :: u32 where "SS_DISABLE = 2"
definition SS_AUTODISARM :: u32 where "SS_AUTODISARM = 0x80000000"

record SignalStack =
  ss_sp :: usize
  ss_flags :: u32
  ss_size :: usize

definition SignalStack_default :: SignalStack where
  "SignalStack_default = \<lparr>ss_sp = 0, ss_flags = SS_DISABLE, ss_size = 0\<rparr>"

section \<open>The saved context\<close>

text \<open>What the code reads and writes of the \<^verbatim>\<open>aarch64\<close> crate's \<open>UserContext\<close>; \<open>general n\<close> is register
  \<open>xn\<close>.\<close>

record UserContext =
  general :: "nat \<Rightarrow> usize"
  tf_sp :: usize
  elr :: usize
  spsr :: usize

record MachineContext =
  fault_address :: usize
  mc_x :: "nat \<Rightarrow> usize"
  mc_sp :: usize
  mc_pc :: usize
  mc_pstate :: usize

text \<open>The field \<open>x11\<close> is filled from \<open>tf.general.x13\<close>.\<close>

definition from_tf :: "UserContext \<Rightarrow> MachineContext" where
  "from_tf tf =
     \<lparr>fault_address = 0, mc_x = (\<lambda>n. if n \<le> 30 then if n = 11 then general tf 13 else general tf n else 0),
      mc_sp = tf_sp tf, mc_pc = elr tf, mc_pstate = spsr tf\<rparr>"

definition fill_tf :: "MachineContext \<Rightarrow> UserContext \<Rightarrow> UserContext" where
  "fill_tf mc tf =
     tf\<lparr>general := (\<lambda>n. if n \<le> 30 then mc_x mc n else general tf n), tf_sp := mc_sp mc, elr := mc_pc mc, spsr := mc_pstate mc\<rparr>"

definition set_signal_handler :: "UserContext \<Rightarrow> usize \<Rightarrow> usize \<Rightarrow> usize \<Rightarrow> usize \<Rightarrow> usize \<Rightarrow> UserContext" where
  "set_signal_handler tf sp handler signo siginfo ucontext =
     tf\<lparr>tf_sp := sp, elr := handler, general := (general tf)(0 := signo, 1 := siginfo, 2 := ucontext)\<rparr>"

section \<open>Sets behave as sets\<close>

text \<open>The signals that \<open>from_i32\<close> can return.\<close>

definition valid_signal :: "Signal \<Rightarrow> bool" where
  "valid_signal s \<longleftrightarrow> (case s of SIGRT n \<Rightarrow> 32 \<le> n \<and> n \<le> 64 | _ \<Rightarrow> True)"

lemma from_i32_sig_no: "valid_signal s \<Longrightarrow> from_i32 (of_nat (sig_no s)) = Some s"
proof (cases "\<exists>n. s = SIGRT n")
  case True
  assume "valid_signal s"
  with True obtain n where n: "s = SIGRT n" "32 \<le> n" "n \<le> 64" by (auto simp: valid_signal_def)
  then have "sint (of_nat n :: 32 word) = int n"
    by (simp add: signed_of_nat signed_take_bit_int_eq_self)
  with n show ?thesis by (simp add: from_i32_def)
next
  case False
  then show ?thesis by (cases s) (simp_all add: from_i32_def standard_signals_def)
qed

lemma sig_no_range: "valid_signal s \<Longrightarrow> 1 \<le> sig_no s \<and> sig_no s \<le> 64"
  by (cases s) (simp_all add: valid_signal_def)

lemma sig_no_inj:
  assumes "valid_signal s" "valid_signal t" "sig_no s = sig_no t"
  shows "s = t"
proof -
  have "Some s = from_i32 (of_nat (sig_no t))" using from_i32_sig_no[OF assms(1)] by (simp only: assms(3))
  also have "\<dots> = Some t" by (rule from_i32_sig_no[OF assms(2)])
  finally show ?thesis by (simp only: option.inject)
qed

lemma from_i32_Some: "from_i32 n = Some s \<Longrightarrow> valid_signal s \<and> sint n = int (sig_no s)"
proof (cases "32 \<le> sint n \<and> sint n \<le> 64")
  case True
  assume "from_i32 n = Some s"
  with True have "s = SIGRT (nat (sint n))" by (simp add: from_i32_def)
  with True show ?thesis by (auto simp: valid_signal_def)
next
  case False
  assume "from_i32 n = Some s"
  with False have f: "find (\<lambda>s. int (sig_no s) = sint n) standard_signals = Some s"
    unfolding from_i32_def by (simp only: if_False)
  then have "s \<in> set standard_signals" "int (sig_no s) = sint n" by (auto simp: find_Some_iff)
  moreover have "valid_signal s" if "s \<in> set standard_signals"
    using that by (auto simp: standard_signals_def valid_signal_def)
  ultimately show ?thesis by simp
qed

lemma sig_bit_index:
  assumes "valid_signal s" "valid_signal t"
  shows "sig_no s mod 64 = sig_no t mod 64 \<longleftrightarrow> s = t"
proof
  assume "sig_no s mod 64 = sig_no t mod 64"
  then have "sig_no s = sig_no t"
    using sig_no_range[OF assms(1)] sig_no_range[OF assms(2)]
    by (cases "sig_no s = 64"; cases "sig_no t = 64") auto
  then show "s = t" by (rule sig_no_inj[OF assms])
qed simp

lemma sigset_contains_bit: "sigset_contains (Sigset w) s \<longleftrightarrow> bit w (sig_no s mod 64)"
  by (simp add: and_one_eq odd_iff_mod_2_eq_one bit_iff_odd_drop_bit)

lemma sigset_contains_empty [simp]: "\<not> sigset_contains Sigset_empty s"
  by (simp add: Sigset_empty_def sigset_contains_bit del: sigset_contains.simps)

lemma sigset_contains_add:
  assumes "valid_signal s" "valid_signal t"
  shows "sigset_contains (sigset_add s m) t \<longleftrightarrow> t = s \<or> sigset_contains m t"
  using sig_bit_index[OF assms]
  by (cases m) (auto simp: sigset_contains_bit sig_bit_def bit_simps simp del: sigset_contains.simps)

lemma sigset_contains_remove:
  assumes "valid_signal s" "valid_signal t"
  shows "sigset_contains (sigset_remove s m) t \<longleftrightarrow> t \<noteq> s \<and> sigset_contains m t"
  using sig_bit_index[OF assms]
  by (cases m) (auto simp: sigset_contains_bit sig_bit_def bit_simps simp del: sigset_contains.simps)

lemma sigset_contains_add_set:
  "sigset_contains (sigset_add_set u m) t \<longleftrightarrow> sigset_contains u t \<or> sigset_contains m t"
  by (cases m; cases u) (auto simp: sigset_contains_bit bit_simps simp del: sigset_contains.simps)

lemma sigset_contains_remove_set:
  "sigset_contains (sigset_remove_set u m) t \<longleftrightarrow> \<not> sigset_contains u t \<and> sigset_contains m t"
  by (cases m; cases u) (auto simp: sigset_contains_bit bit_simps simp del: sigset_contains.simps)

end
