(* ===== verification/Memory_Paging.thy ===== *)
theory Memory_Paging
  imports Kernel_Prelude
begin

text \<open>
  Addresses, pages and page table entries: \<^verbatim>\<open>src/kernel/src/memory/mod.rs\<close> (address conversions and
  the frame allocator), \<^verbatim>\<open>memory/paging.rs\<close> (\<open>Page\<close>, \<open>PageRange\<close>) and the entry and table operations of
  \<^verbatim>\<open>arch/aarch64/paging.rs\<close>.

  The table walker (\<open>OffsetPageTable\<close>), the layout of an entry and the buddy allocator are other crates.
  What the kernel calls of them is the record \<open>mmu\<close>, an argument of the definitions; the entry itself is
  a 64-bit word, because \<open>as_flags\<close> reinterprets it as its flag bits.
\<close>

section \<open>Addresses\<close>

definition PAGE_SIZE :: usize where "PAGE_SIZE = 4096"
definition MEMORY_OFFSET :: usize where "MEMORY_OFFSET = 0x40000000"
definition KERNEL_OFFSET :: usize where "KERNEL_OFFSET = 0xffff000000000000"
definition PHYSICAL_MEMORY_OFFSET :: usize where "PHYSICAL_MEMORY_OFFSET = 0xffff800000000000"

definition phys_to_virt :: "PhysAddr \<Rightarrow> VirtAddr" where
  "phys_to_virt addr = addr + PHYSICAL_MEMORY_OFFSET"

definition virt_to_phys :: "VirtAddr \<Rightarrow> PhysAddr" where
  "virt_to_phys addr = addr - PHYSICAL_MEMORY_OFFSET"

definition as_lower_range :: "VirtAddr \<Rightarrow> VirtAddr" where
  "as_lower_range addr = addr AND NOT KERNEL_OFFSET"

definition as_upper_range :: "VirtAddr \<Rightarrow> VirtAddr" where
  "as_upper_range addr = addr OR KERNEL_OFFSET"

text \<open>\<^verbatim>\<open>x & !(PAGE_SIZE - 1)\<close> and \<^verbatim>\<open>(x + PAGE_SIZE - 1) & !(PAGE_SIZE - 1)\<close>.\<close>

definition page_down :: "usize \<Rightarrow> usize" where
  "page_down x = x AND NOT (PAGE_SIZE - 1)"

definition page_up :: "usize \<Rightarrow> usize" where
  "page_up x = (x + PAGE_SIZE - 1) AND NOT (PAGE_SIZE - 1)"

section \<open>Pages\<close>

datatype Page = Page (number: usize)

definition start_address :: "Page \<Rightarrow> VirtAddr" where
  "start_address p = number p * PAGE_SIZE"

definition of_addr :: "VirtAddr \<Rightarrow> Page" where
  "of_addr addr = Page (addr div PAGE_SIZE)"

definition page_add :: "Page \<Rightarrow> usize \<Rightarrow> Page" where
  "page_add p n = Page (number p + n)"

record PageRange =
  range_start :: Page
  range_end :: Page

definition range_of :: "VirtAddr \<Rightarrow> VirtAddr \<Rightarrow> PageRange" where
  "range_of b e = \<lparr>range_start = of_addr b, range_end = of_addr (e - 1)\<rparr>"

definition page_next :: "PageRange \<Rightarrow> Page option \<times> PageRange" where
  "page_next r =
     (if number (range_start r) \<le> number (range_end r)
      then (Some (range_start r), r\<lparr>range_start := page_add (range_start r) 1\<rparr>)
      else (None, r))"

text \<open>The pages a \<^verbatim>\<open>for\<close> loop over a range visits, on fuel; \<open>page_list\<close> gives the loop one round more
  than the last page number, which is enough unless that number is the greatest \<open>usize\<close>
  (no address has such a page).\<close>

fun take_pages :: "nat \<Rightarrow> PageRange \<Rightarrow> Page list" where
  "take_pages 0 r = []"
| "take_pages (Suc n) r =
     (case page_next r of (None, _) \<Rightarrow> [] | (Some p, r) \<Rightarrow> p # take_pages n r)"

definition page_list :: "PageRange \<Rightarrow> Page list" where
  "page_list r = take_pages (unat (number (range_end r)) + 2) r"

section \<open>Page table entries\<close>

record ef =
  VALID :: u64
  AF :: u64
  WRITE :: u64
  DIRTY :: u64
  AP_RO :: u64
  AP_EL0 :: u64
  nG :: u64
  UXN :: u64
  PXN :: u64
  SWAPPED :: u64
  WRITABLE_SHARED :: u64
  READONLY_SHARED :: u64

record ('pt, 'b) mmu =
  EF :: ef
  pte_flags :: "u64 \<Rightarrow> u64"
  pte_addr :: "u64 \<Rightarrow> u64"
  pte_attr :: "u64 \<Rightarrow> u64"
  pte_set_addr :: "u64 \<Rightarrow> u64 \<Rightarrow> u64 \<Rightarrow> u64"
  pte_set_attr :: "u64 \<Rightarrow> u64 \<Rightarrow> u64"
  MairNormal :: u64
  MairDevice :: u64
  MairNormalNonCacheable :: u64
  map_to :: "Page \<Rightarrow> PhysAddr \<Rightarrow> 'pt \<Rightarrow> 'pt option"
  unmap_page :: "Page \<Rightarrow> 'pt \<Rightarrow> 'pt option"
  get_entry_mut :: "Page \<Rightarrow> 'pt \<Rightarrow> u64 option"
  put_entry :: "Page \<Rightarrow> u64 \<Rightarrow> 'pt \<Rightarrow> 'pt"
  translate_page :: "Page \<Rightarrow> 'pt \<Rightarrow> PhysAddr option"
  buddy_alloc :: "nat \<Rightarrow> 'b \<Rightarrow> usize option \<times> 'b"
  buddy_dealloc :: "usize \<Rightarrow> nat \<Rightarrow> 'b \<Rightarrow> 'b"

text \<open>\<^verbatim>\<open>self.0.flags().contains(m)\<close>, and \<^verbatim>\<open>insert\<close>, \<^verbatim>\<open>remove\<close> and \<^verbatim>\<open>set\<close> on \<open>as_flags\<close>.\<close>

definition has_flag :: "('pt, 'b) mmu \<Rightarrow> u64 \<Rightarrow> u64 \<Rightarrow> bool" where
  "has_flag M m e \<longleftrightarrow> pte_flags M e AND m = m"

definition flag_insert :: "u64 \<Rightarrow> u64 \<Rightarrow> u64" where "flag_insert m e = e OR m"
definition flag_remove :: "u64 \<Rightarrow> u64 \<Rightarrow> u64" where "flag_remove m e = e AND NOT m"

definition flag_set :: "u64 \<Rightarrow> bool \<Rightarrow> u64 \<Rightarrow> u64" where
  "flag_set m v e = (if v then flag_insert m e else flag_remove m e)"

definition e_present :: "('pt, 'b) mmu \<Rightarrow> u64 \<Rightarrow> bool" where
  "e_present M e = has_flag M (VALID (EF M)) e"

definition e_accessed :: "('pt, 'b) mmu \<Rightarrow> u64 \<Rightarrow> bool" where
  "e_accessed M e = has_flag M (AF (EF M)) e"

definition e_writable :: "('pt, 'b) mmu \<Rightarrow> u64 \<Rightarrow> bool" where
  "e_writable M e = has_flag M (WRITE (EF M)) e"

definition e_read_only :: "('pt, 'b) mmu \<Rightarrow> u64 \<Rightarrow> bool" where
  "e_read_only M e = has_flag M (AP_RO (EF M)) e"

definition e_hw_dirty :: "('pt, 'b) mmu \<Rightarrow> u64 \<Rightarrow> bool" where
  "e_hw_dirty M e \<longleftrightarrow> e_writable M e \<and> \<not> e_read_only M e"

definition e_sw_dirty :: "('pt, 'b) mmu \<Rightarrow> u64 \<Rightarrow> bool" where
  "e_sw_dirty M e = has_flag M (DIRTY (EF M)) e"

definition e_dirty :: "('pt, 'b) mmu \<Rightarrow> u64 \<Rightarrow> bool" where
  "e_dirty M e \<longleftrightarrow> e_hw_dirty M e \<and> e_sw_dirty M e"

definition e_clear_accessed :: "('pt, 'b) mmu \<Rightarrow> u64 \<Rightarrow> u64" where
  "e_clear_accessed M e = flag_remove (AF (EF M)) e"

definition e_clear_dirty :: "('pt, 'b) mmu \<Rightarrow> u64 \<Rightarrow> u64" where
  "e_clear_dirty M e = flag_insert (AP_RO (EF M)) (flag_remove (DIRTY (EF M)) e)"

definition e_set_writable :: "('pt, 'b) mmu \<Rightarrow> bool \<Rightarrow> u64 \<Rightarrow> u64" where
  "e_set_writable M v e = flag_set (WRITE (EF M)) v (flag_set (AP_RO (EF M)) (\<not> v) e)"

definition e_set_present :: "('pt, 'b) mmu \<Rightarrow> bool \<Rightarrow> u64 \<Rightarrow> u64" where
  "e_set_present M v e = flag_set (VALID (EF M)) v e"

definition e_target :: "('pt, 'b) mmu \<Rightarrow> u64 \<Rightarrow> PhysAddr" where
  "e_target M e = pte_addr M e"

definition e_set_target :: "('pt, 'b) mmu \<Rightarrow> PhysAddr \<Rightarrow> u64 \<Rightarrow> u64" where
  "e_set_target M t e = pte_set_addr M t (pte_flags M e) (pte_attr M e)"

definition e_user :: "('pt, 'b) mmu \<Rightarrow> u64 \<Rightarrow> bool" where
  "e_user M e = has_flag M (AP_EL0 (EF M)) e"

definition e_set_user :: "('pt, 'b) mmu \<Rightarrow> bool \<Rightarrow> u64 \<Rightarrow> u64" where
  "e_set_user M v e = flag_set (nG (EF M)) v (flag_set (AP_EL0 (EF M)) v e)"

definition e_execute :: "('pt, 'b) mmu \<Rightarrow> u64 \<Rightarrow> bool" where
  "e_execute M e =
     (if e_user M e then \<not> has_flag M (UXN (EF M)) e else \<not> has_flag M (PXN (EF M)) e)"

definition e_set_execute :: "('pt, 'b) mmu \<Rightarrow> bool \<Rightarrow> u64 \<Rightarrow> u64" where
  "e_set_execute M v e =
     (if e_user M e then flag_set (PXN (EF M)) True (flag_set (UXN (EF M)) (\<not> v) e)
      else flag_set (UXN (EF M)) True (flag_set (PXN (EF M)) (\<not> v) e))"

definition e_writable_shared :: "('pt, 'b) mmu \<Rightarrow> u64 \<Rightarrow> bool" where
  "e_writable_shared M e = has_flag M (WRITABLE_SHARED (EF M)) e"

definition e_readonly_shared :: "('pt, 'b) mmu \<Rightarrow> u64 \<Rightarrow> bool" where
  "e_readonly_shared M e = has_flag M (READONLY_SHARED (EF M)) e"

definition e_set_shared :: "('pt, 'b) mmu \<Rightarrow> bool \<Rightarrow> u64 \<Rightarrow> u64" where
  "e_set_shared M w e =
     flag_set (READONLY_SHARED (EF M)) (\<not> w) (flag_set (WRITABLE_SHARED (EF M)) w e)"

definition e_clear_shared :: "('pt, 'b) mmu \<Rightarrow> u64 \<Rightarrow> u64" where
  "e_clear_shared M e = flag_remove (WRITABLE_SHARED (EF M) OR READONLY_SHARED (EF M)) e"

definition e_swapped :: "('pt, 'b) mmu \<Rightarrow> u64 \<Rightarrow> bool" where
  "e_swapped M e = has_flag M (SWAPPED (EF M)) e"

definition e_set_swapped :: "('pt, 'b) mmu \<Rightarrow> bool \<Rightarrow> u64 \<Rightarrow> u64" where
  "e_set_swapped M v e = flag_set (SWAPPED (EF M)) v e"

text \<open>\<open>MMIOType\<close> is a number: 0 normal, 1 device, 2 normal non-cacheable, 3 unsupported.\<close>

definition e_mmio :: "('pt, 'b) mmu \<Rightarrow> u64 \<Rightarrow> u8" where
  "e_mmio M e =
     (let attr = pte_attr M e
      in if attr = MairNormal M then 0 else if attr = MairDevice M then 1
         else if attr = MairNormalNonCacheable M then 2 else 3)"

definition e_set_mmio :: "('pt, 'b) mmu \<Rightarrow> u8 \<Rightarrow> u64 \<Rightarrow> u64" where
  "e_set_mmio M v e =
     (if v = 0 then pte_set_attr M (MairNormal M) e
      else if v = 1 then pte_set_attr M (MairDevice M) e
      else if v = 2 then pte_set_attr M (MairNormalNonCacheable M) e
      else e)"

section \<open>The page table\<close>

definition pt_get_entry :: "('pt, 'b) mmu \<Rightarrow> VirtAddr \<Rightarrow> 'pt \<Rightarrow> u64 option" where
  "pt_get_entry M vaddr pt = get_entry_mut M (of_addr vaddr) pt"

text \<open>\<open>map\<close> hands the new entry to a function that may change it, as the code does through the
  reference it returns.\<close>

definition pt_map :: "('pt, 'b) mmu \<Rightarrow> VirtAddr \<Rightarrow> PhysAddr \<Rightarrow> (u64 \<Rightarrow> u64) \<Rightarrow> 'pt \<Rightarrow> 'pt outcome" where
  "pt_map M addr tgt f pt =
     bindE (unwrap (map_to M (of_addr addr) (start_address (of_addr tgt)) pt)) (\<lambda>pt.
     bindE (expect ''fail to get entry'' (pt_get_entry M addr pt)) (\<lambda>e.
       Inr (put_entry M (of_addr addr) (f e) pt)))"

definition pt_unmap :: "('pt, 'b) mmu \<Rightarrow> VirtAddr \<Rightarrow> 'pt \<Rightarrow> 'pt outcome" where
  "pt_unmap M addr pt = unwrap (unmap_page M (of_addr addr) pt)"

section \<open>Frames\<close>

definition frame_alloc :: "('pt, 'b) mmu \<Rightarrow> nat \<Rightarrow> 'b \<Rightarrow> PhysAddr option \<times> 'b" where
  "frame_alloc M count fa =
     (let (i, fa) = buddy_alloc M count fa
      in (map_option (\<lambda>i. i * PAGE_SIZE + MEMORY_OFFSET) i, fa))"

definition frame_dealloc :: "('pt, 'b) mmu \<Rightarrow> PhysAddr \<Rightarrow> nat \<Rightarrow> 'b \<Rightarrow> 'b" where
  "frame_dealloc M tgt count fa = buddy_dealloc M (tgt div PAGE_SIZE) count fa"

section \<open>Page arithmetic\<close>

lemma page_down_eq: "page_down x = push_bit 12 (drop_bit 12 x)"
proof -
  have "(PAGE_SIZE - 1 :: usize) = mask 12" by (simp add: PAGE_SIZE_def mask_eq_exp_minus_1)
  then show ?thesis
    unfolding page_down_def by (auto intro!: bit_word_eqI simp: bit_simps)
qed

lemma unat_page_down: "unat (page_down x) = unat x div 4096 * 4096"
proof -
  have d: "unat (drop_bit 12 x) = unat x div 4096" using unat_shift_right[of 12 x] by simp
  have "unat x div 4096 * 4096 \<le> unat x" by (rule div_times_less_eq_dividend)
  then have lt: "unat (drop_bit 12 x) * unat (4096 :: usize) < 2 ^ LENGTH(64)"
    using unat_lt_64[of x] by (simp add: d)
  have "page_down x = drop_bit 12 x * 4096" by (simp add: page_down_eq push_bit_eq_mult)
  then show ?thesis using unat_mult_no_wrap[of "drop_bit 12 x" 4096] lt by (simp add: d)
qed

lemma unat_page_up:
  assumes "unat x + 4095 < 2 ^ 64"
  shows "unat (page_up x) = (unat x + 4095) div 4096 * 4096"
proof -
  have "page_up x = page_down (x + 4095)" by (simp add: page_up_def page_down_def PAGE_SIZE_def add.commute)
  moreover have "unat (x + 4095) = unat x + 4095" using assms unat_add_no_wrap[of x 4095] by simp
  ultimately show ?thesis by (simp only: unat_page_down)
qed

lemma unat_of_addr: "unat (number (of_addr a)) = unat a div 4096"
  by (simp add: of_addr_def PAGE_SIZE_def unat_div_distrib)

lemma number_of_addr_bound: "unat (number (of_addr a)) < 2 ^ 52"
  using unat_lt_64[of a] by (simp add: unat_of_addr div_less_iff_less_mult)

lemma unat_start_address:
  assumes "unat (number p) < 2 ^ 52"
  shows "unat (start_address p) = unat (number p) * 4096"
  using assms unat_mult_no_wrap[of "number p" 4096] by (simp add: start_address_def PAGE_SIZE_def)

lemma start_address_of_addr: "start_address (of_addr a) = page_down a"
  by (rule iffD2[OF word_unat_eq_iff]) (simp add: unat_start_address[OF number_of_addr_bound] unat_page_down unat_of_addr)

lemma of_addr_start_address:
  assumes "unat (number p) < 2 ^ 52"
  shows "of_addr (start_address p) = p"
proof -
  have "unat (number (of_addr (start_address p))) = unat (number p)"
    using assms by (simp add: unat_of_addr unat_start_address)
  then show ?thesis by (cases p) (simp add: of_addr_def word_unat_eq_iff)
qed

definition aligned :: "usize \<Rightarrow> bool" where
  "aligned x \<longleftrightarrow> unat x mod 4096 = 0"

lemma aligned_page_down [simp]: "aligned (page_down x)"
  by (simp add: aligned_def unat_page_down)

lemma aligned_page_up: "unat x + 4095 < 2 ^ 64 \<Longrightarrow> aligned (page_up x)"
  by (simp add: aligned_def unat_page_up)

lemma take_pages_eq:
  assumes "unat t < 2 ^ 64 - 1"
  shows "Suc (unat t) \<le> unat s + n \<Longrightarrow>
    take_pages (Suc n) \<lparr>range_start = Page s, range_end = Page t\<rparr> = map (Page \<circ> of_nat) [unat s ..< Suc (unat t)]"
proof (induction n arbitrary: s)
  case 0
  then show ?case by (simp add: page_next_def word_le_nat_alt)
next
  case (Suc n)
  show ?case
  proof (cases "s \<le> t")
    case True
    then have st: "unat s \<le> unat t" by (simp add: word_le_nat_alt)
    with assms have s1: "unat (s + 1) = Suc (unat s)" using unat_add_no_wrap[of s 1] by simp
    have "take_pages (Suc (Suc n)) \<lparr>range_start = Page s, range_end = Page t\<rparr> =
        Page s # take_pages (Suc n) \<lparr>range_start = Page (s + 1), range_end = Page t\<rparr>"
      using True by (simp add: page_next_def page_add_def)
    also have "\<dots> = Page s # map (Page \<circ> of_nat) [Suc (unat s) ..< Suc (unat t)]"
      using Suc.IH[of "s + 1"] Suc.prems s1 by simp
    also have "\<dots> = map (Page \<circ> of_nat) [unat s ..< Suc (unat t)]"
      using st by (subst (2) upt_conv_Cons) simp_all
    finally show ?thesis .
  next
    case False
    then show ?thesis by (simp add: page_next_def word_le_nat_alt)
  qed
qed

lemma page_list_range_of:
  "page_list (range_of b e) = map (Page \<circ> of_nat) [unat b div 4096 ..< Suc (unat (e - 1) div 4096)]"
proof -
  have "unat (number (of_addr (e - 1))) < 2 ^ 64 - 1" using number_of_addr_bound[of "e - 1"] by simp
  from take_pages_eq[OF this, of "number (of_addr b)" "Suc (unat (number (of_addr (e - 1))))"]
  show ?thesis by (simp add: page_list_def range_of_def unat_of_addr)
qed

text \<open>The numbers of the pages that a range of addresses touches.\<close>

definition page_nums :: "usize \<Rightarrow> usize \<Rightarrow> nat set" where
  "page_nums b e = {unat b div 4096 ..< Suc (unat (e - 1) div 4096)}"

lemma of_nat_page_inj: "n < 2 ^ 52 \<Longrightarrow> unat (of_nat n :: usize) = n"
  by (simp add: unat_of_nat)

lemma page_nums_aligned:
  assumes "aligned b" "aligned e" "b < e"
  shows "page_nums b e = {unat b div 4096 ..< unat e div 4096}"
proof -
  from assms obtain k where k: "unat e = 4096 * k" "0 < k"
    by (fastforce simp: aligned_def word_less_nat_alt mod_eq_0_iff_dvd elim!: dvdE)
  have "unat (e - 1) = unat e - 1"
    using assms(3) by (subst unat_sub_no_wrap) (auto simp: word_le_nat_alt word_less_nat_alt)
  with k have "Suc (unat (e - 1) div 4096) = unat e div 4096" by (cases k) simp_all
  then show ?thesis by (simp add: page_nums_def)
qed

text \<open>a loop over \<open>Page::range_of(begin, end)\<close> visits, in order and once each, exactly the pages
  that have an address in \<open>[begin, end)\<close>.\<close>
lemma page_range_exact:
  assumes "b < e"
  shows "sorted_wrt (\<lambda>p q. number p < number q) (page_list (range_of b e)) \<and>
    (p \<in> set (page_list (range_of b e)) \<longleftrightarrow> (\<exists>a. b \<le> a \<and> a < e \<and> of_addr a = p))"
proof
  let ?s = "unat b div 4096" and ?t = "unat (e - 1) div 4096"
  have t52: "?t < 2 ^ 52" using number_of_addr_bound[of "e - 1"] by (simp add: unat_of_addr)
  have e1: "unat (e - 1) = unat e - 1"
    using assms by (subst unat_sub_no_wrap) (auto simp: word_le_nat_alt word_less_nat_alt)
  have inj: "unat (of_nat n :: usize) = n" if "n < Suc ?t" for n
    using that t52 by (intro of_nat_page_inj) simp
  show "sorted_wrt (\<lambda>p q. number p < number q) (page_list (range_of b e))"
    unfolding page_list_range_of sorted_wrt_map
    by (rule sorted_wrt_mono_rel[OF _ sorted_wrt_upt]) (simp add: word_less_nat_alt inj del: upt_Suc)
  show "p \<in> set (page_list (range_of b e)) \<longleftrightarrow> (\<exists>a. b \<le> a \<and> a < e \<and> of_addr a = p)"
  proof
    assume "p \<in> set (page_list (range_of b e))"
    then obtain n where n: "p = Page (of_nat n)" "?s \<le> n" "n < Suc ?t" by (auto simp: page_list_range_of)
    let ?a = "max b (start_address p)"
    have pn: "unat (number p) = n" using n inj by simp
    then have sa: "unat (start_address p) = n * 4096" using n(3) t52 by (subst unat_start_address) simp_all
    have "n * 4096 \<le> unat (e - 1)" using n(3) by (metis less_Suc_eq_le div_times_less_eq_dividend le_trans mult_le_mono1)
    then have "?a < e" using assms sa e1 by (auto simp: word_less_nat_alt max_def)
    moreover have "unat ?a div 4096 = n"
      using n(2) sa by (auto simp: max_def word_le_nat_alt less_eq_div_iff_mult_less_eq)
    then have "of_addr ?a = p"
      using unat_of_addr[of ?a] pn by (cases p) (simp add: of_addr_def word_unat_eq_iff)
    ultimately show "\<exists>a. b \<le> a \<and> a < e \<and> of_addr a = p" by (intro exI[of _ ?a]) simp
  next
    assume "\<exists>a. b \<le> a \<and> a < e \<and> of_addr a = p"
    then obtain a where a: "b \<le> a" "a < e" "of_addr a = p" by blast
    then have "?s \<le> unat a div 4096" "unat a div 4096 \<le> ?t"
      using e1 by (auto simp: word_le_nat_alt word_less_nat_alt intro!: div_le_mono)
    moreover have "number p = of_nat (unat a div 4096)"
      using a(3) unat_of_addr[of a] by (metis of_nat_unat ucast_id)
    then have "p = Page (of_nat (unat a div 4096))" by (cases p) simp
    ultimately show "p \<in> set (page_list (range_of b e))"
      by (auto simp: page_list_range_of less_Suc_eq_le simp del: upt_Suc)
  qed
qed

section \<open>Documented behaviour of the memory management crates\<close>

text \<open>Every flag the kernel uses is its own group of bits, apart from the address and the attributes of
  an entry. Mapping a page that is not mapped adds a valid entry with the frame it was given; a valid
  entry can be unmapped.\<close>

definition ef_masks :: "ef \<Rightarrow> u64 list" where
  "ef_masks F = [VALID F, AF F, WRITE F, DIRTY F, AP_RO F, AP_EL0 F, nG F, UXN F, PXN F, SWAPPED F,
     WRITABLE_SHARED F, READONLY_SHARED F]"

definition flag_laws :: "('pt, 'b) mmu \<Rightarrow> bool" where
  "flag_laws M \<longleftrightarrow>
     (let S = ef_masks (EF M)
      in (\<forall>m \<in> set S. m \<noteq> 0) \<and> sorted_wrt (\<lambda>m n. m AND n = 0) S \<and>
         (\<forall>m \<in> set S. \<forall>e. has_flag M m e \<longleftrightarrow> e AND m = m) \<and>
         (\<forall>m \<in> set S. \<forall>e. pte_addr M (e OR m) = pte_addr M e \<and> pte_addr M (e AND NOT m) = pte_addr M e) \<and>
         (\<forall>m \<in> set S. \<forall>e. pte_attr M (e OR m) = pte_attr M e \<and> pte_attr M (e AND NOT m) = pte_attr M e) \<and>
         (\<forall>m \<in> set S. \<forall>e a. has_flag M m (pte_set_addr M a (pte_flags M e) (pte_attr M e)) = has_flag M m e) \<and>
         (\<forall>e a. start_address (of_addr a) = a \<and> unat a < 2 ^ 48 \<longrightarrow>
            pte_addr M (pte_set_addr M a (pte_flags M e) (pte_attr M e)) = a) \<and>
         (\<forall>m \<in> set S. \<forall>e a. has_flag M m (pte_set_attr M a e) = has_flag M m e) \<and>
         (\<forall>e a. pte_addr M (pte_set_attr M a e) = pte_addr M e) \<and>
         (\<forall>e. \<forall>a \<in> {MairNormal M, MairDevice M, MairNormalNonCacheable M}. pte_attr M (pte_set_attr M a e) = a) \<and>
         distinct [MairNormal M, MairDevice M, MairNormalNonCacheable M])"

definition table_laws :: "('pt, 'b) mmu \<Rightarrow> ('pt \<Rightarrow> Page \<rightharpoonup> u64) \<Rightarrow> bool" where
  "table_laws M tbl \<longleftrightarrow>
     (\<forall>pt p f pt'. tbl pt p = None \<and> map_to M p f pt = Some pt' \<longrightarrow>
        (\<exists>e. tbl pt' = (tbl pt)(p \<mapsto> e) \<and> e_present M e \<and>
           (start_address (of_addr f) = f \<and> unat f < 2 ^ 48 \<longrightarrow> pte_addr M e = f))) \<and>
     (\<forall>pt p e. tbl pt p = Some e \<and> e_present M e \<longrightarrow>
        (\<exists>pt'. unmap_page M p pt = Some pt' \<and> tbl pt' = (tbl pt)(p := None))) \<and>
     (\<forall>pt p e. tbl pt p = Some e \<longrightarrow> get_entry_mut M p pt = Some e) \<and>
     (\<forall>pt p e. tbl pt p = Some e \<and> e_present M e \<longrightarrow> translate_page M p pt = Some (pte_addr M e)) \<and>
     (\<forall>pt p e e'. tbl pt p = Some e \<longrightarrow> tbl (put_entry M p e' pt) = (tbl pt)(p \<mapsto> e'))"

text \<open>Neither frames for pages nor frames for the tables themselves run out.\<close>

definition frames_available :: "('pt, 'b) mmu \<Rightarrow> ('pt \<Rightarrow> Page \<rightharpoonup> u64) \<Rightarrow> bool" where
  "frames_available M tbl \<longleftrightarrow>
     (\<forall>pt p f. tbl pt p = None \<longrightarrow> map_to M p f pt \<noteq> None) \<and>
     (\<forall>n fa. \<exists>i. fst (buddy_alloc M n fa) = Some i \<and> unat i < 2 ^ 35)"

definition mmu_laws :: "('pt, 'b) mmu \<Rightarrow> ('pt \<Rightarrow> Page \<rightharpoonup> u64) \<Rightarrow> bool" where
  "mmu_laws M tbl \<longleftrightarrow> flag_laws M \<and> table_laws M tbl \<and> frames_available M tbl"

lemma and_absorb: "(m :: u64) AND n = 0 \<Longrightarrow> (e OR m) AND n = n \<longleftrightarrow> e AND n = n"
  "m AND n = 0 \<Longrightarrow> (e AND NOT m) AND n = n \<longleftrightarrow> e AND n = n"
proof -
  assume d: "m AND n = 0"
  have "(e OR m) AND n = (e AND n) OR (m AND n)" by (simp add: bit.conj_disj_distrib2)
  then show "(e OR m) AND n = n \<longleftrightarrow> e AND n = n" by (simp add: d)
  have "n = (m AND n) OR (NOT m AND n)" by (simp flip: bit.conj_disj_distrib2)
  then have "NOT m AND n = n" by (simp add: d)
  then show "(e AND NOT m) AND n = n \<longleftrightarrow> e AND n = n" by (simp add: and.assoc)
qed

lemma flag_set_same: "m \<noteq> 0 \<Longrightarrow> flag_set m v e AND m = m \<longleftrightarrow> v"
  by (auto simp: flag_set_def flag_insert_def flag_remove_def bit.conj_disj_distrib2 and.assoc)

lemma flag_set_other: "m AND n = 0 \<Longrightarrow> flag_set m v e AND n = n \<longleftrightarrow> e AND n = n"
  by (simp add: flag_set_def flag_insert_def flag_remove_def and_absorb)

lemma has_flag_iff: "flag_laws M \<Longrightarrow> m \<in> set (ef_masks (EF M)) \<Longrightarrow> has_flag M m e \<longleftrightarrow> e AND m = m"
  unfolding flag_laws_def Let_def by blast

lemma masks_in:
  "VALID F \<in> set (ef_masks F)" "AF F \<in> set (ef_masks F)" "WRITE F \<in> set (ef_masks F)" "DIRTY F \<in> set (ef_masks F)"
  "AP_RO F \<in> set (ef_masks F)" "AP_EL0 F \<in> set (ef_masks F)" "nG F \<in> set (ef_masks F)" "UXN F \<in> set (ef_masks F)"
  "PXN F \<in> set (ef_masks F)" "SWAPPED F \<in> set (ef_masks F)" "WRITABLE_SHARED F \<in> set (ef_masks F)"
  "READONLY_SHARED F \<in> set (ef_masks F)"
  by (simp_all add: ef_masks_def)

text \<open>Setting a flag is read back by that flag only.\<close>

lemma has_flag_set:
  assumes "flag_laws M" "m \<in> set (ef_masks (EF M))" "n \<in> set (ef_masks (EF M))"
  shows "has_flag M n (flag_set m v e) \<longleftrightarrow> (if n = m then v else has_flag M n e)"
proof (cases "n = m")
  case True
  have "m \<noteq> 0" using assms(1,2) unfolding flag_laws_def Let_def by blast
  with True show ?thesis by (simp add: has_flag_iff[OF assms(1,2)] flag_set_same)
next
  case False
  have "sorted_wrt (\<lambda>m n. m AND n = 0) (ef_masks (EF M))" using assms(1) unfolding flag_laws_def Let_def by blast
  then have "m AND n = 0"
    using False assms(2,3) unfolding sorted_wrt_iff_nth_less in_set_conv_nth
    by (metis and.commute nat_neq_iff)
  with False show ?thesis by (simp add: has_flag_iff[OF assms(1,3)] flag_set_other)
qed

lemma flag_set_frame:
  assumes "flag_laws M" "m \<in> set (ef_masks (EF M))"
  shows "pte_addr M (flag_set m v e) = pte_addr M e" "pte_attr M (flag_set m v e) = pte_attr M e"
  using assms unfolding flag_laws_def Let_def flag_set_def flag_insert_def flag_remove_def by (cases v; simp)+

lemma masks_distinct:
  assumes "flag_laws M"
  shows "distinct (ef_masks (EF M))"
proof -
  have s: "sorted_wrt (\<lambda>m n. m AND n = 0) (ef_masks (EF M))" and nz: "\<forall>m \<in> set (ef_masks (EF M)). m \<noteq> 0"
    using assms unfolding flag_laws_def Let_def by blast+
  show ?thesis
    unfolding distinct_conv_nth
  proof (intro allI impI)
    fix i j assume ij: "i < length (ef_masks (EF M))" "j < length (ef_masks (EF M))" "i \<noteq> j"
    show "ef_masks (EF M) ! i \<noteq> ef_masks (EF M) ! j"
    proof
      assume eq: "ef_masks (EF M) ! i = ef_masks (EF M) ! j"
      have "ef_masks (EF M) ! i AND ef_masks (EF M) ! j = 0"
        using s ij unfolding sorted_wrt_iff_nth_less by (metis and.commute nat_neq_iff)
      with eq nz ij show False by (metis and.idem nth_mem)
    qed
  qed
qed

section \<open>A reference implementation\<close>

text \<open>A table that is a map, entries with the bit positions of the architecture, and an allocator that
  counts.\<close>

definition ADDR_MASK :: u64 where "ADDR_MASK = 0x0000FFFFFFFFF000"
definition ATTR_MASK :: u64 where "ATTR_MASK = 0x1C"

definition map_mmu :: "(Page \<rightharpoonup> u64, usize) mmu" where
  "map_mmu =
     \<lparr>EF = \<lparr>VALID = 0x1, AF = 0x400, WRITE = 0x8000000000000, DIRTY = 0x80000000000000, AP_RO = 0x80,
        AP_EL0 = 0x40, nG = 0x800, UXN = 0x40000000000000, PXN = 0x20000000000000, SWAPPED = 0x100000000000000,
        WRITABLE_SHARED = 0x200000000000000, READONLY_SHARED = 0x400000000000000\<rparr>,
      pte_flags = (\<lambda>e. e AND NOT (ADDR_MASK OR ATTR_MASK)),
      pte_addr = (\<lambda>e. e AND ADDR_MASK),
      pte_attr = (\<lambda>e. e AND ATTR_MASK),
      pte_set_addr = (\<lambda>a f t. (a AND ADDR_MASK) OR f OR t),
      pte_set_attr = (\<lambda>a e. (e AND NOT ATTR_MASK) OR (a AND ATTR_MASK)),
      MairNormal = 0x0, MairDevice = 0x4, MairNormalNonCacheable = 0x8,
      map_to = (\<lambda>p f pt. if pt p = None then Some (pt(p \<mapsto> (f AND ADDR_MASK) OR 0x1)) else None),
      unmap_page = (\<lambda>p pt. if pt p = None then None else Some (pt(p := None))),
      get_entry_mut = (\<lambda>p pt. pt p),
      put_entry = (\<lambda>p e pt. pt(p \<mapsto> e)),
      translate_page = (\<lambda>p pt. map_option (\<lambda>e. e AND ADDR_MASK) (pt p)),
      buddy_alloc = (\<lambda>n fa. (Some (fa AND 0xFFFFFFFF), fa + of_nat n)),
      buddy_dealloc = (\<lambda>i n fa. fa)\<rparr>"

lemma map_mmu_sel [simp]:
  "pte_flags map_mmu e = e AND NOT (ADDR_MASK OR ATTR_MASK)" "pte_addr map_mmu e = e AND ADDR_MASK"
  "pte_attr map_mmu e = e AND ATTR_MASK" "pte_set_addr map_mmu a f t = (a AND ADDR_MASK) OR f OR t"
  "pte_set_attr map_mmu a e = (e AND NOT ATTR_MASK) OR (a AND ATTR_MASK)"
  "MairNormal map_mmu = 0x0" "MairDevice map_mmu = 0x4" "MairNormalNonCacheable map_mmu = 0x8"
  "map_to map_mmu p f pt = (if pt p = None then Some (pt(p \<mapsto> (f AND ADDR_MASK) OR 0x1)) else None)"
  "unmap_page map_mmu p pt = (if pt p = None then None else Some (pt(p := None)))"
  "get_entry_mut map_mmu p pt = pt p" "put_entry map_mmu p e pt = pt(p \<mapsto> e)"
  "translate_page map_mmu p pt = map_option (\<lambda>e. e AND ADDR_MASK) (pt p)"
  "buddy_alloc map_mmu n fa = (Some (fa AND 0xFFFFFFFF), fa + of_nat n)"
  "ef_masks (EF map_mmu) = [0x1, 0x400, 0x8000000000000, 0x80000000000000, 0x80, 0x40, 0x800, 0x40000000000000,
     0x20000000000000, 0x100000000000000, 0x200000000000000, 0x400000000000000]"
  by (simp_all add: map_mmu_def ef_masks_def)

text \<open>Every flag lies within the flag bits of the layout.\<close>

lemma map_mmu_flag:
  assumes "m \<in> set (ef_masks (EF map_mmu))"
  shows "m AND NOT (ADDR_MASK OR ATTR_MASK) = m" "m AND ADDR_MASK = 0" "m AND ATTR_MASK = 0"
  using assms by (auto simp: ADDR_MASK_def ATTR_MASK_def)
lemma and_not_disjoint: "(m :: u64) AND n = 0 \<Longrightarrow> NOT m AND n = n"
proof -
  assume d: "m AND n = 0"
  have "n = (m AND n) OR (NOT m AND n)" by (simp flip: bit.conj_disj_distrib2)
  with d show ?thesis by simp
qed

lemma layout_disjoint: "ADDR_MASK AND ATTR_MASK = 0" "ATTR_MASK AND ADDR_MASK = 0"
  "NOT (ADDR_MASK OR ATTR_MASK) AND ADDR_MASK = 0" "NOT (ADDR_MASK OR ATTR_MASK) AND ATTR_MASK = 0"
  "NOT ATTR_MASK AND ADDR_MASK = ADDR_MASK" "NOT ATTR_MASK AND ATTR_MASK = 0"
  by (simp_all add: ADDR_MASK_def ATTR_MASK_def)


lemma masks_sound: "(\<forall>m \<in> set (ef_masks (EF map_mmu)). m \<noteq> 0) \<and> sorted_wrt (\<lambda>m n. m AND n = 0) (ef_masks (EF map_mmu))"
  by simp

lemma map_mmu_has_flag:
  assumes "m \<in> set (ef_masks (EF map_mmu))"
  shows "has_flag map_mmu m e \<longleftrightarrow> e AND m = m"
proof -
  have "NOT (ADDR_MASK OR ATTR_MASK) AND m = m" using map_mmu_flag(1)[OF assms] by (simp only: and.commute)
  then show ?thesis by (simp only: has_flag_def map_mmu_sel and.assoc)
qed

lemma map_mmu_frame:
  assumes "m \<in> set (ef_masks (EF map_mmu))"
  shows "pte_addr map_mmu (e OR m) = pte_addr map_mmu e" "pte_addr map_mmu (e AND NOT m) = pte_addr map_mmu e"
    "pte_attr map_mmu (e OR m) = pte_attr map_mmu e" "pte_attr map_mmu (e AND NOT m) = pte_attr map_mmu e"
  by (simp_all only: map_mmu_sel bit.conj_disj_distrib2 and.assoc map_mmu_flag[OF assms] or.right_neutral
      and_not_disjoint[OF map_mmu_flag(2)[OF assms]] and_not_disjoint[OF map_mmu_flag(3)[OF assms]])

lemma map_mmu_set_flags:
  assumes "m \<in> set (ef_masks (EF map_mmu))"
  shows "has_flag map_mmu m (pte_set_addr map_mmu a (pte_flags map_mmu e) (pte_attr map_mmu e)) = has_flag map_mmu m e"
    "has_flag map_mmu m (pte_set_attr map_mmu t e) = has_flag map_mmu m e"
proof -
  have m: "ADDR_MASK AND m = 0" "ATTR_MASK AND m = 0" "NOT (ADDR_MASK OR ATTR_MASK) AND m = m"
    using map_mmu_flag[OF assms] by (simp_all only: and.commute)
  note m' = and_not_disjoint[OF m(2)]
  show "has_flag map_mmu m (pte_set_addr map_mmu a (pte_flags map_mmu e) (pte_attr map_mmu e)) = has_flag map_mmu m e"
    "has_flag map_mmu m (pte_set_attr map_mmu t e) = has_flag map_mmu m e"
    by (simp_all only: map_mmu_has_flag[OF assms] map_mmu_sel bit.conj_disj_distrib2 and.assoc m m'
        and_zero_eq or.right_neutral or.left_neutral)
qed


lemma and_ADDR_MASK:
  assumes "start_address (of_addr a) = a" "unat a < 2 ^ 48"
  shows "a AND ADDR_MASK = a"
proof (rule bit_word_eqI)
  fix n assume n: "n < LENGTH(64)"
  have low: "\<not> bit a k" if "k < 12" for k
  proof -
    have "bit a k = bit (push_bit 12 (drop_bit 12 a)) k"
      using assms(1) by (simp only: start_address_of_addr page_down_eq)
    with that show ?thesis by (simp add: bit_simps)
  qed
  have "drop_bit 48 a = 0" using assms(2) unat_shift_right[of 48 a] by (simp flip: unat_eq_0)
  then have high: "\<not> bit a k" if "48 \<le> k" for k
  proof -
    from that have "bit a k = bit (drop_bit 48 a) (k - 48)" by (simp add: bit_drop_bit_eq)
    with \<open>drop_bit 48 a = 0\<close> show ?thesis by simp
  qed
  have am: "ADDR_MASK = push_bit 12 (mask 36)" by (simp add: ADDR_MASK_def mask_eq_exp_minus_1 push_bit_eq_mult)
  show "bit (a AND ADDR_MASK) n \<longleftrightarrow> bit a n"
    using low[of n] high[of n] n unfolding am
    by (cases "n < 12"; cases "n < 48") (auto simp: bit_simps)
qed

lemma map_mmu_fields:
  "start_address (of_addr a) = a \<Longrightarrow> unat a < 2 ^ 48 \<Longrightarrow>
     pte_addr map_mmu (pte_set_addr map_mmu a (pte_flags map_mmu e) (pte_attr map_mmu e)) = a"
  "pte_addr map_mmu (pte_set_attr map_mmu t e) = pte_addr map_mmu e"
  "t \<in> {MairNormal map_mmu, MairDevice map_mmu, MairNormalNonCacheable map_mmu} \<Longrightarrow>
     pte_attr map_mmu (pte_set_attr map_mmu t e) = t"
proof -
  show "pte_addr map_mmu (pte_set_attr map_mmu t e) = pte_addr map_mmu e"
    by (simp only: map_mmu_sel bit.conj_disj_distrib2 and.assoc layout_disjoint and_zero_eq or.right_neutral)
  assume "t \<in> {MairNormal map_mmu, MairDevice map_mmu, MairNormalNonCacheable map_mmu}"
  then have "t AND ATTR_MASK = t" by (auto simp: ATTR_MASK_def)
  then show "pte_attr map_mmu (pte_set_attr map_mmu t e) = t"
    by (simp only: map_mmu_sel bit.conj_disj_distrib2 and.assoc layout_disjoint and_zero_eq or.left_neutral and.idem)
next
  assume "start_address (of_addr a) = a" "unat a < 2 ^ 48"
  from and_ADDR_MASK[OF this]
  show "pte_addr map_mmu (pte_set_addr map_mmu a (pte_flags map_mmu e) (pte_attr map_mmu e)) = a"
    by (simp only: map_mmu_sel bit.conj_disj_distrib2 and.assoc layout_disjoint and_zero_eq or.right_neutral and.idem)
qed

lemma map_mmu_laws: "mmu_laws map_mmu (\<lambda>pt. pt)"
proof -
  have "flag_laws map_mmu"
    unfolding flag_laws_def Let_def
    by (intro conjI ballI allI impI)
      (use masks_sound in blast, use masks_sound in blast,
       (erule map_mmu_has_flag map_mmu_frame map_mmu_set_flags map_mmu_fields(3)
        | elim conjE, erule (1) map_mmu_fields(1) | rule map_mmu_fields(2) | simp)+)
  moreover have "table_laws map_mmu (\<lambda>pt. pt)"
  proof -
    have "has_flag map_mmu (VALID (EF map_mmu)) (x OR 1)" for x
      by (subst map_mmu_has_flag) (simp_all add: map_mmu_def ef_masks_def bit.conj_disj_distrib2 and.commute)
    moreover have "(f AND ADDR_MASK OR 1) AND ADDR_MASK = f AND ADDR_MASK" for f
      by (simp add: bit.conj_disj_distrib2 and.assoc ADDR_MASK_def)
    ultimately show ?thesis
      unfolding table_laws_def e_present_def
      by (intro conjI allI impI) (rule exI[of _ "f AND ADDR_MASK OR 1" for f], auto simp: and_ADDR_MASK)
  qed
  moreover have "unat (fa AND 0xFFFFFFFF :: usize) < 2 ^ 35" for fa
  proof -
    have "fa AND 0xFFFFFFFF \<le> (0xFFFFFFFF :: usize)" by (rule word_and_le1)
    then show ?thesis by (simp add: word_le_nat_alt)
  qed
  then have "frames_available map_mmu (\<lambda>pt. pt)" by (simp add: frames_available_def)
  ultimately show ?thesis by (simp add: mmu_laws_def)
qed
end
