(* ===== verification/Memory_Handler.thy ===== *)
theory Memory_Handler
  imports Memory_Paging
begin

text \<open>
  Memory attributes (\<open>MemoryAttr\<close> of \<^verbatim>\<open>src/kernel/src/memory/memory_set.rs\<close>) and the four memory
  handlers of \<^verbatim>\<open>src/kernel/src/memory/handler\<close>: what a page of an area is backed by and what
  happens when it is mapped, unmapped, cloned or touched.

  A \<^verbatim>\<open>Box<dyn MemoryHandler>\<close> is a value of the datatype \<open>MemoryHandler\<close>, which has the four
  implementations as constructors. The contract the memory set relies on is the locale
  \<open>page_handler\<close>, interpreted for each of them.
\<close>

section \<open>Attributes\<close>

record MemoryAttr =
  user :: bool
  readonly :: bool
  execute :: bool
  mmio :: u8

definition MemoryAttr_default :: MemoryAttr where
  "MemoryAttr_default = \<lparr>user = False, readonly = False, execute = False, mmio = 0\<rparr>"

definition attr_user :: "MemoryAttr \<Rightarrow> MemoryAttr" where "attr_user a = a\<lparr>user := True\<rparr>"
definition attr_readonly :: "MemoryAttr \<Rightarrow> MemoryAttr" where "attr_readonly a = a\<lparr>readonly := True\<rparr>"
definition attr_writable :: "MemoryAttr \<Rightarrow> MemoryAttr" where "attr_writable a = a\<lparr>readonly := False\<rparr>"
definition attr_execute :: "MemoryAttr \<Rightarrow> MemoryAttr" where "attr_execute a = a\<lparr>execute := True\<rparr>"
definition attr_mmio :: "u8 \<Rightarrow> MemoryAttr \<Rightarrow> MemoryAttr" where "attr_mmio v a = a\<lparr>mmio := v\<rparr>"

definition attr_apply :: "('pt, 'b) mmu \<Rightarrow> MemoryAttr \<Rightarrow> u64 \<Rightarrow> u64" where
  "attr_apply M a e =
     (let e = e_set_user M (user a) e;
          e = e_set_writable M (\<not> readonly a) e;
          e = e_set_execute M (execute a) e
      in e_set_mmio M (mmio a) e)"

section \<open>Handlers\<close>

text \<open>The memory a handler works on: a page table, the frame allocator and the bytes of physical
  memory.\<close>

record ('pt, 'b) vm =
  table :: 'pt
  frames :: 'b
  ram :: "PhysAddr \<Rightarrow> u8"

text \<open>\<open>FileMap\<close> has the fields of \<open>File\<close>; what its file reads at an offset into a buffer of some length
  is the function \<open>file_read_at\<close>, which returns at most that many bytes, or stops the kernel.\<close>

datatype MemoryHandler =
    Linear usize
  | ByFrame
  | Delay
  | FileMap (file_read_at: "usize \<Rightarrow> nat \<Rightarrow> u8 list outcome") (mem_start: usize) (file_start: usize) (file_end: usize)

definition get_page_frame :: "('pt, 'b) mmu \<Rightarrow> VirtAddr \<Rightarrow> 'pt \<Rightarrow> PhysAddr outcome" where
  "get_page_frame M addr pt = unwrap (translate_page M (of_addr addr) pt)"

text \<open>The 4096 bytes of a frame are read as a list and written from one.\<close>

definition frame_bytes :: "(PhysAddr \<Rightarrow> u8) \<Rightarrow> PhysAddr \<Rightarrow> u8 list" where
  "frame_bytes m f = map (\<lambda>i. m (f + of_nat i)) [0 ..< 4096]"

definition write_frame :: "PhysAddr \<Rightarrow> u8 list \<Rightarrow> (PhysAddr \<Rightarrow> u8) \<Rightarrow> PhysAddr \<Rightarrow> u8" where
  "write_frame f bs m = (\<lambda>a. if unat (a - f) < length bs then bs ! unat (a - f) else m a)"

definition alloc_page :: "('pt, 'b) mmu \<Rightarrow> string \<Rightarrow> ('pt, 'b) vm \<Rightarrow> (PhysAddr \<times> ('pt, 'b) vm) outcome" where
  "alloc_page M msg vm =
     (let (f, fa) = frame_alloc M 1 (frames vm)
      in bindE (expect msg f) (\<lambda>f. Inr (f, vm\<lparr>frames := fa\<rparr>)))"

definition vm_map ::
  "('pt, 'b) mmu \<Rightarrow> VirtAddr \<Rightarrow> PhysAddr \<Rightarrow> (u64 \<Rightarrow> u64) \<Rightarrow> ('pt, 'b) vm \<Rightarrow> ('pt, 'b) vm outcome" where
  "vm_map M addr tgt f vm = bindE (pt_map M addr tgt f (table vm)) (\<lambda>pt. Inr (vm\<lparr>table := pt\<rparr>))"

definition vm_unmap :: "('pt, 'b) mmu \<Rightarrow> VirtAddr \<Rightarrow> ('pt, 'b) vm \<Rightarrow> ('pt, 'b) vm outcome" where
  "vm_unmap M addr vm = bindE (pt_unmap M addr (table vm)) (\<lambda>pt. Inr (vm\<lparr>table := pt\<rparr>))"

subsection \<open>Linear\<close>

definition linear_map ::
  "('pt, 'b) mmu \<Rightarrow> usize \<Rightarrow> VirtAddr \<Rightarrow> MemoryAttr \<Rightarrow> ('pt, 'b) vm \<Rightarrow> ('pt, 'b) vm outcome" where
  "linear_map M offset addr attr vm = vm_map M addr (addr + offset) (attr_apply M attr) vm"

definition linear_unmap :: "('pt, 'b) mmu \<Rightarrow> VirtAddr \<Rightarrow> ('pt, 'b) vm \<Rightarrow> ('pt, 'b) vm outcome" where
  "linear_unmap M addr vm = vm_unmap M addr vm"

subsection \<open>ByFrame\<close>

definition byframe_map ::
  "('pt, 'b) mmu \<Rightarrow> VirtAddr \<Rightarrow> MemoryAttr \<Rightarrow> ('pt, 'b) vm \<Rightarrow> ('pt, 'b) vm outcome" where
  "byframe_map M addr attr vm =
     bindE (alloc_page M ''failed to allocate frame'' vm) (\<lambda>(tgt, vm). vm_map M addr tgt (attr_apply M attr) vm)"

definition byframe_unmap :: "('pt, 'b) mmu \<Rightarrow> VirtAddr \<Rightarrow> ('pt, 'b) vm \<Rightarrow> ('pt, 'b) vm outcome" where
  "byframe_unmap M addr vm =
     bindE (expect ''fail to get entry'' (pt_get_entry M addr (table vm))) (\<lambda>e.
       vm_unmap M addr (vm\<lparr>frames := frame_dealloc M (e_target M e) 1 (frames vm)\<rparr>))"

text \<open>Copying the page at an address of another page table into the one mapped here.\<close>

definition copy_page ::
  "('pt, 'b) mmu \<Rightarrow> VirtAddr \<Rightarrow> 'pt \<Rightarrow> ('pt, 'b) vm \<Rightarrow> ('pt, 'b) vm outcome" where
  "copy_page M addr src vm =
     bindE (get_page_frame M addr src) (\<lambda>from.
     bindE (get_page_frame M addr (table vm)) (\<lambda>to.
       Inr (vm\<lparr>ram := write_frame to (frame_bytes (ram vm) from) (ram vm)\<rparr>)))"

definition byframe_clone_map ::
  "('pt, 'b) mmu \<Rightarrow> VirtAddr \<Rightarrow> MemoryAttr \<Rightarrow> 'pt \<Rightarrow> ('pt, 'b) vm \<Rightarrow> ('pt, 'b) vm outcome" where
  "byframe_clone_map M addr attr src vm = bindE (byframe_map M addr attr vm) (copy_page M addr src)"

subsection \<open>Delay\<close>

definition delay_map ::
  "('pt, 'b) mmu \<Rightarrow> VirtAddr \<Rightarrow> MemoryAttr \<Rightarrow> ('pt, 'b) vm \<Rightarrow> ('pt, 'b) vm outcome" where
  "delay_map M addr attr vm = vm_map M addr 0 (\<lambda>e. attr_apply M attr (e_set_present M False e)) vm"

definition delay_unmap :: "('pt, 'b) mmu \<Rightarrow> VirtAddr \<Rightarrow> ('pt, 'b) vm \<Rightarrow> ('pt, 'b) vm outcome" where
  "delay_unmap M addr vm =
     bindE (expect ''failed to get entry'' (pt_get_entry M addr (table vm))) (\<lambda>e.
       let vm = (if e_present M e then vm\<lparr>frames := frame_dealloc M (e_target M e) 1 (frames vm)\<rparr> else vm);
           vm = vm\<lparr>table := put_entry M (of_addr addr) (e_set_present M True e) (table vm)\<rparr>
       in vm_unmap M addr vm)"

text \<open>The branch of \<open>clone_map\<close> that maps eagerly, the same in \<open>Delay\<close> and \<open>File\<close>.\<close>

definition eager_clone ::
  "('pt, 'b) mmu \<Rightarrow> VirtAddr \<Rightarrow> MemoryAttr \<Rightarrow> 'pt \<Rightarrow> ('pt, 'b) vm \<Rightarrow> ('pt, 'b) vm outcome" where
  "eager_clone M addr attr src vm =
     bindE (get_page_frame M addr src) (\<lambda>_.
     bindE (alloc_page M ''failed to alloc frame'' vm) (\<lambda>(tgt, vm).
     bindE (vm_map M addr tgt (attr_apply M attr) vm) (copy_page M addr src)))"

definition delay_clone_map ::
  "('pt, 'b) mmu \<Rightarrow> VirtAddr \<Rightarrow> MemoryAttr \<Rightarrow> 'pt \<Rightarrow> ('pt, 'b) vm \<Rightarrow> ('pt, 'b) vm outcome" where
  "delay_clone_map M addr attr src vm =
     bindE (expect ''failed to get entry'' (pt_get_entry M addr src)) (\<lambda>e.
       if e_present M e then eager_clone M addr attr src vm else delay_map M addr attr vm)"

text \<open>Giving an absent page a frame and filling it, as both \<open>handle_page_fault\<close>s that can succeed do it.\<close>

definition fault_in ::
  "('pt, 'b) mmu \<Rightarrow> VirtAddr \<Rightarrow> u8 list outcome \<Rightarrow> ('pt, 'b) vm \<Rightarrow> (bool \<times> ('pt, 'b) vm) outcome" where
  "fault_in M addr data vm =
     bindE (expect ''failed to get entry'' (pt_get_entry M addr (table vm))) (\<lambda>e.
       if e_present M e then Inr (False, vm)
       else bindE (alloc_page M ''failed to alloc frame'' vm) (\<lambda>(frame, vm).
         let e = e_set_present M True (e_set_target M frame e);
             vm = vm\<lparr>table := put_entry M (of_addr addr) e (table vm)\<rparr>
         in bindE (get_page_frame M addr (table vm)) (\<lambda>f.
            bindE data (\<lambda>bs. Inr (True, vm\<lparr>ram := write_frame f bs (ram vm)\<rparr>)))))"

definition delay_page_fault :: "('pt, 'b) mmu \<Rightarrow> VirtAddr \<Rightarrow> ('pt, 'b) vm \<Rightarrow> (bool \<times> ('pt, 'b) vm) outcome" where
  "delay_page_fault M addr vm = fault_in M addr (Inr (replicate 4096 0)) vm"

subsection \<open>File\<close>

definition file_map ::
  "('pt, 'b) mmu \<Rightarrow> VirtAddr \<Rightarrow> MemoryAttr \<Rightarrow> ('pt, 'b) vm \<Rightarrow> ('pt, 'b) vm outcome" where
  "file_map M addr attr vm = vm_map M addr 0 (\<lambda>e. attr_apply M attr (e_set_present M False e)) vm"

text \<open>\<open>File::unmap\<close> is \<open>Delay::unmap\<close> to the letter.\<close>

definition file_unmap :: "('pt, 'b) mmu \<Rightarrow> VirtAddr \<Rightarrow> ('pt, 'b) vm \<Rightarrow> ('pt, 'b) vm outcome" where
  "file_unmap M addr vm = delay_unmap M addr vm"

definition file_clone_map ::
  "('pt, 'b) mmu \<Rightarrow> VirtAddr \<Rightarrow> MemoryAttr \<Rightarrow> 'pt \<Rightarrow> ('pt, 'b) vm \<Rightarrow> ('pt, 'b) vm outcome" where
  "file_clone_map M addr attr src vm =
     bindE (expect ''failed to get entry'' (pt_get_entry M addr src)) (\<lambda>e.
       if e_present M e \<and> \<not> readonly attr then eager_clone M addr attr src vm else file_map M addr attr vm)"

text \<open>\<open>fill_data\<close>: the bytes of a page backed by a file, the rest of the page being zero.\<close>

definition fill_size :: "usize \<Rightarrow> usize \<Rightarrow> nat" where
  "fill_size fe offset = nat (max (min (sint (fe - offset)) 4096) 0)"

definition fill_data :: "MemoryHandler \<Rightarrow> VirtAddr \<Rightarrow> u8 list outcome" where
  "fill_data h addr =
     (let offset = addr + file_start h - mem_start h
      in bindE (file_read_at h offset (fill_size (file_end h) offset)) (\<lambda>bs.
           if length bs \<le> 4096 then Inr (bs @ replicate (4096 - length bs) 0) else Inl IndexOutOfRange))"

definition file_page_fault ::
  "('pt, 'b) mmu \<Rightarrow> MemoryHandler \<Rightarrow> VirtAddr \<Rightarrow> ('pt, 'b) vm \<Rightarrow> (bool \<times> ('pt, 'b) vm) outcome" where
  "file_page_fault M h addr vm = (let addr = page_down addr in fault_in M addr (fill_data h addr) vm)"

subsection \<open>The trait\<close>

fun handler_map ::
  "('pt, 'b) mmu \<Rightarrow> MemoryHandler \<Rightarrow> VirtAddr \<Rightarrow> MemoryAttr \<Rightarrow> ('pt, 'b) vm \<Rightarrow> ('pt, 'b) vm outcome" where
  "handler_map M (Linear offset) = linear_map M offset"
| "handler_map M ByFrame = byframe_map M"
| "handler_map M Delay = delay_map M"
| "handler_map M (FileMap f ms fs fe) = file_map M"

fun handler_unmap ::
  "('pt, 'b) mmu \<Rightarrow> MemoryHandler \<Rightarrow> VirtAddr \<Rightarrow> ('pt, 'b) vm \<Rightarrow> ('pt, 'b) vm outcome" where
  "handler_unmap M (Linear offset) = linear_unmap M"
| "handler_unmap M ByFrame = byframe_unmap M"
| "handler_unmap M Delay = delay_unmap M"
| "handler_unmap M (FileMap f ms fs fe) = file_unmap M"

fun handler_clone_map ::
  "('pt, 'b) mmu \<Rightarrow> MemoryHandler \<Rightarrow> VirtAddr \<Rightarrow> MemoryAttr \<Rightarrow> 'pt \<Rightarrow> ('pt, 'b) vm \<Rightarrow> ('pt, 'b) vm outcome" where
  "handler_clone_map M (Linear offset) addr attr src vm = linear_map M offset addr attr vm"
| "handler_clone_map M ByFrame addr attr src vm = byframe_clone_map M addr attr src vm"
| "handler_clone_map M Delay addr attr src vm = delay_clone_map M addr attr src vm"
| "handler_clone_map M (FileMap f ms fs fe) addr attr src vm = file_clone_map M addr attr src vm"

fun handler_page_fault ::
  "('pt, 'b) mmu \<Rightarrow> MemoryHandler \<Rightarrow> VirtAddr \<Rightarrow> ('pt, 'b) vm \<Rightarrow> (bool \<times> ('pt, 'b) vm) outcome" where
  "handler_page_fault M (Linear offset) addr vm = Inr (False, vm)"
| "handler_page_fault M ByFrame addr vm = Inr (False, vm)"
| "handler_page_fault M Delay addr vm = delay_page_fault M addr vm"
| "handler_page_fault M (FileMap f ms fs fe) addr vm = file_page_fault M (FileMap f ms fs fe) addr vm"

lemmas handler_ops = linear_map_def linear_unmap_def byframe_map_def byframe_unmap_def delay_map_def
  file_map_def file_unmap_def delay_page_fault_def file_page_fault_def

declare handler_ops [simp]

section \<open>What attributes do to an entry\<close>

lemmas e_defs = e_present_def e_accessed_def e_writable_def e_read_only_def e_hw_dirty_def e_sw_dirty_def
  e_dirty_def e_set_writable_def e_set_present_def e_set_user_def e_user_def e_execute_def e_set_execute_def

lemma set_mmio_frame:
  assumes "flag_laws M" "m \<in> set (ef_masks (EF M))"
  shows "has_flag M m (e_set_mmio M v e) = has_flag M m e"
  using assms unfolding flag_laws_def Let_def by (auto simp: e_set_mmio_def)

lemma set_mmio_addr: "flag_laws M \<Longrightarrow> pte_addr M (e_set_mmio M v e) = pte_addr M e"
  unfolding flag_laws_def Let_def by (auto simp: e_set_mmio_def)

lemma mmio_set_mmio:
  assumes "flag_laws M" "v \<le> 2"
  shows "e_mmio M (e_set_mmio M v e) = v"
proof -
  from assms have "v = 0 \<or> v = 1 \<or> v = 2"
    by (simp add: word_le_nat_alt word_unat_eq_iff) linarith
  with assms(1) show ?thesis unfolding flag_laws_def Let_def by (auto simp: e_set_mmio_def e_mmio_def)
qed

lemma masks_neq_ordered:
  assumes "flag_laws M"
  shows
    "VALID (EF M) \<noteq> WRITE (EF M)" "VALID (EF M) \<noteq> AP_RO (EF M)"
    "VALID (EF M) \<noteq> AP_EL0 (EF M)" "VALID (EF M) \<noteq> nG (EF M)"
    "VALID (EF M) \<noteq> UXN (EF M)" "VALID (EF M) \<noteq> PXN (EF M)"
    "WRITE (EF M) \<noteq> AP_RO (EF M)" "WRITE (EF M) \<noteq> AP_EL0 (EF M)"
    "WRITE (EF M) \<noteq> nG (EF M)" "WRITE (EF M) \<noteq> UXN (EF M)" "WRITE (EF M) \<noteq> PXN (EF M)"
    "AP_RO (EF M) \<noteq> AP_EL0 (EF M)" "AP_RO (EF M) \<noteq> nG (EF M)"
    "AP_RO (EF M) \<noteq> UXN (EF M)" "AP_RO (EF M) \<noteq> PXN (EF M)" "AP_EL0 (EF M) \<noteq> nG (EF M)"
    "AP_EL0 (EF M) \<noteq> UXN (EF M)" "AP_EL0 (EF M) \<noteq> PXN (EF M)" "nG (EF M) \<noteq> UXN (EF M)"
    "nG (EF M) \<noteq> PXN (EF M)" "UXN (EF M) \<noteq> PXN (EF M)"
  using masks_distinct[OF assms] by (simp_all add: ef_masks_def)

lemmas masks_neq = masks_neq_ordered masks_neq_ordered[THEN not_sym]

lemma attr_apply_flags:
  assumes L: "flag_laws M"
  shows "e_user M (attr_apply M a e) = user a" "e_writable M (attr_apply M a e) = (\<not> readonly a)"
    "e_read_only M (attr_apply M a e) = readonly a" "e_execute M (attr_apply M a e) = execute a"
    "e_present M (attr_apply M a e) = e_present M e" "pte_addr M (attr_apply M a e) = pte_addr M e"
    "has_flag M (PXN (EF M)) (attr_apply M a e) = (user a \<or> \<not> execute a)"
    "has_flag M (UXN (EF M)) (attr_apply M a e) = (\<not> user a \<or> \<not> execute a)"
  by (simp_all add: masks_neq[OF L] attr_apply_def Let_def e_defs set_mmio_frame[OF L] set_mmio_addr[OF L]
      has_flag_set[OF L] flag_set_frame[OF L] masks_in)

text \<open>applying the attributes of an area to a page table entry has exactly the intended effect: the
  entry reads back the user, write and execute permissions and the memory type it was given, stays
  present or absent with the same frame, and a user page is never executable by the kernel nor a kernel
  page by user code.\<close>
lemma attr_apply_effect:
  assumes "flag_laws M"
  shows "let e' = attr_apply M a e
    in e_user M e' = user a \<and> e_writable M e' = (\<not> readonly a) \<and> e_execute M e' = execute a \<and>
       e_present M e' = e_present M e \<and> e_target M e' = e_target M e \<and>
       (mmio a \<le> 2 \<longrightarrow> e_mmio M e' = mmio a) \<and>
       (if user a then has_flag M (PXN (EF M)) e' else has_flag M (UXN (EF M)) e')"
  using attr_apply_flags[OF assms, of a e]
  by (simp add: Let_def e_target_def) (simp add: attr_apply_def Let_def mmio_set_mmio[OF assms])

section \<open>The contract of a handler\<close>

text \<open>What a memory set needs of a handler: a page that is not mapped can be mapped, a page it has mapped
  can be unmapped, and neither touches another page or the contents of memory. \<open>ok\<close> is what the handler
  guarantees of the entries it has mapped.\<close>

locale page_handler =
  fixes tbl :: "'pt \<Rightarrow> Page \<rightharpoonup> u64"
    and hmap :: "VirtAddr \<Rightarrow> MemoryAttr \<Rightarrow> ('pt, 'b) vm \<Rightarrow> ('pt, 'b) vm outcome"
    and hunmap :: "VirtAddr \<Rightarrow> ('pt, 'b) vm \<Rightarrow> ('pt, 'b) vm outcome"
    and ok :: "u64 \<Rightarrow> bool"
  assumes map_page: "tbl (table vm) (of_addr a) = None \<Longrightarrow>
      \<exists>vm' e. hmap a attr vm = Inr vm' \<and> tbl (table vm') = (tbl (table vm))(of_addr a \<mapsto> e) \<and> ok e \<and> ram vm' = ram vm"
    and unmap_page: "tbl (table vm) (of_addr a) = Some e \<Longrightarrow> ok e \<Longrightarrow>
      \<exists>vm'. hunmap a vm = Inr vm' \<and> tbl (table vm') = (tbl (table vm))(of_addr a := None) \<and> ram vm' = ram vm"
begin

lemma map_unmap:
  assumes "tbl (table vm) (of_addr a) = None"
  shows "\<exists>vm' vm''. hmap a attr vm = Inr vm' \<and> hunmap a vm' = Inr vm'' \<and> tbl (table vm'') = tbl (table vm)"
proof -
  obtain vm' e where vm': "hmap a attr vm = Inr vm'" "tbl (table vm') = (tbl (table vm))(of_addr a \<mapsto> e)" "ok e"
    using map_page[OF assms] by blast
  then obtain vm'' where "hunmap a vm' = Inr vm''" "tbl (table vm'') = (tbl (table vm'))(of_addr a := None)"
    using unmap_page[of vm' a e] by auto
  with vm' assms show ?thesis by (auto simp: fun_upd_idem)
qed

lemma map_pages:
  assumes "distinct ps" "\<And>p. p \<in> set ps \<Longrightarrow> of_addr (start_address p) = p \<and> tbl (table vm) p = None"
  shows "\<exists>vm'. iterE (\<lambda>p. hmap (start_address p) attr) ps vm = Inr vm' \<and>
    (\<forall>p. p \<notin> set ps \<longrightarrow> tbl (table vm') p = tbl (table vm) p) \<and>
    (\<forall>p \<in> set ps. \<exists>e. tbl (table vm') p = Some e \<and> ok e) \<and> ram vm' = ram vm"
  using assms
proof (induction ps arbitrary: vm)
  case (Cons p ps)
  then have p: "of_addr (start_address p) = p" "tbl (table vm) p = None" by auto
  then obtain vm1 e where vm1: "hmap (start_address p) attr vm = Inr vm1" "tbl (table vm1) = (tbl (table vm))(p \<mapsto> e)"
    "ok e" "ram vm1 = ram vm" using map_page[of vm "start_address p" attr] by auto
  have "\<And>q. q \<in> set ps \<Longrightarrow> of_addr (start_address q) = q \<and> tbl (table vm1) q = None"
    using Cons.prems vm1(2) by auto
  then obtain vm' where vm': "iterE (\<lambda>p. hmap (start_address p) attr) ps vm1 = Inr vm'"
    "\<forall>q. q \<notin> set ps \<longrightarrow> tbl (table vm') q = tbl (table vm1) q"
    "\<forall>q \<in> set ps. \<exists>e. tbl (table vm') q = Some e \<and> ok e" "ram vm' = ram vm1"
    using Cons.IH[of vm1] Cons.prems(1) by auto
  moreover have "tbl (table vm') p = Some e" using vm'(2) vm1(2) Cons.prems(1) by simp
  ultimately show ?case using vm1 by auto
qed simp

lemma unmap_pages:
  assumes "distinct ps" "\<And>p. p \<in> set ps \<Longrightarrow> of_addr (start_address p) = p \<and> (\<exists>e. tbl (table vm) p = Some e \<and> ok e)"
  shows "\<exists>vm'. iterE (\<lambda>p. hunmap (start_address p)) ps vm = Inr vm' \<and>
    tbl (table vm') = (\<lambda>p. if p \<in> set ps then None else tbl (table vm) p) \<and> ram vm' = ram vm"
  using assms
proof (induction ps arbitrary: vm)
  case (Cons p ps)
  then obtain e where p: "of_addr (start_address p) = p" "tbl (table vm) p = Some e" "ok e" by auto
  then obtain vm1 where vm1: "hunmap (start_address p) vm = Inr vm1" "tbl (table vm1) = (tbl (table vm))(p := None)"
    "ram vm1 = ram vm" using unmap_page[of vm "start_address p" e] by auto
  have "\<And>q. q \<in> set ps \<Longrightarrow> of_addr (start_address q) = q \<and> (\<exists>e. tbl (table vm1) q = Some e \<and> ok e)"
    using Cons.prems vm1(2) by auto
  then obtain vm' where "iterE (\<lambda>p. hunmap (start_address p)) ps vm1 = Inr vm'"
    "tbl (table vm') = (\<lambda>p. if p \<in> set ps then None else tbl (table vm1) p)" "ram vm' = ram vm1"
    using Cons.IH[of vm1] Cons.prems(1) by auto
  with vm1 show ?case by (auto simp: fun_eq_iff)
qed simp

end

section \<open>The four handlers meet the contract\<close>

fun handler_ok :: "('pt, 'b) mmu \<Rightarrow> MemoryHandler \<Rightarrow> u64 \<Rightarrow> bool" where
  "handler_ok M (Linear offset) e = e_present M e"
| "handler_ok M ByFrame e = e_present M e"
| "handler_ok M Delay e = True"
| "handler_ok M (FileMap f ms fs fe) e = True"

locale mmu_env =
  fixes M :: "('pt, 'b) mmu" and tbl :: "'pt \<Rightarrow> Page \<rightharpoonup> u64"
  assumes laws: "mmu_laws M tbl"
begin

lemma flags: "flag_laws M"
  using laws by (simp add: mmu_laws_def)

lemma map_to_unmapped:
  assumes "tbl pt p = None"
  obtains pt' e where "map_to M p f pt = Some pt'" "tbl pt' = (tbl pt)(p \<mapsto> e)" "e_present M e"
    "start_address (of_addr f) = f \<and> unat f < 2 ^ 48 \<longrightarrow> pte_addr M e = f"
proof -
  obtain pt' where "map_to M p f pt = Some pt'"
    using laws assms unfolding mmu_laws_def frames_available_def by fastforce
  moreover from this obtain e where "tbl pt' = (tbl pt)(p \<mapsto> e)" "e_present M e"
    "start_address (of_addr f) = f \<and> unat f < 2 ^ 48 \<longrightarrow> pte_addr M e = f"
    using laws assms unfolding mmu_laws_def table_laws_def by blast
  ultimately show thesis using that by blast
qed

lemma entry_of: "tbl pt p = Some e \<Longrightarrow> get_entry_mut M p pt = Some e"
  using laws unfolding mmu_laws_def table_laws_def by blast

lemma put_of: "tbl pt p = Some e \<Longrightarrow> tbl (put_entry M p e' pt) = (tbl pt)(p \<mapsto> e')"
  using laws unfolding mmu_laws_def table_laws_def by blast

lemma translate_of: "tbl pt p = Some e \<Longrightarrow> e_present M e \<Longrightarrow> translate_page M p pt = Some (pte_addr M e)"
  using laws unfolding mmu_laws_def table_laws_def by blast

lemma unmap_of:
  "tbl pt p = Some e \<Longrightarrow> e_present M e \<Longrightarrow> \<exists>pt'. mmu.unmap_page M p pt = Some pt' \<and> tbl pt' = (tbl pt)(p := None)"
  using laws unfolding mmu_laws_def table_laws_def by blast

lemma vm_map_ok:
  assumes "tbl (table vm) (of_addr a) = None"
  shows "\<exists>vm' e. vm_map M a t f vm = Inr vm' \<and> tbl (table vm') = (tbl (table vm))(of_addr a \<mapsto> f e) \<and>
    e_present M e \<and> (unat (start_address (of_addr t)) < 2 ^ 48 \<longrightarrow> pte_addr M e = start_address (of_addr t)) \<and>
    ram vm' = ram vm \<and> frames vm' = frames vm"
proof -
  obtain pt e where "map_to M (of_addr a) (start_address (of_addr t)) (table vm) = Some pt"
    "tbl pt = (tbl (table vm))(of_addr a \<mapsto> e)" "e_present M e"
    "unat (start_address (of_addr t)) < 2 ^ 48 \<longrightarrow> pte_addr M e = start_address (of_addr t)"
    using map_to_unmapped[OF assms, of "start_address (of_addr t)"]
      of_addr_start_address[OF number_of_addr_bound[of t]] by metis
  moreover from this entry_of put_of have "get_entry_mut M (of_addr a) pt = Some e"
    "tbl (put_entry M (of_addr a) (f e) pt) = (tbl pt)(of_addr a \<mapsto> f e)" by simp_all
  ultimately show ?thesis by (intro exI[of _ "vm\<lparr>table := put_entry M (of_addr a) (f e) pt\<rparr>"] exI[of _ e])
      (simp add: vm_map_def pt_map_def pt_get_entry_def)
qed

lemma vm_unmap_ok:
  assumes "tbl (table vm) (of_addr a) = Some e" "e_present M e"
  shows "\<exists>vm'. vm_unmap M a vm = Inr vm' \<and> tbl (table vm') = (tbl (table vm))(of_addr a := None) \<and> ram vm' = ram vm"
  using unmap_of[OF assms] by (auto simp: vm_unmap_def pt_unmap_def)

lemma alloc_page_ok:
  "\<exists>i f fa. alloc_page M msg vm = Inr (f, vm\<lparr>frames := fa\<rparr>) \<and> f = i * PAGE_SIZE + MEMORY_OFFSET \<and> unat i < 2 ^ 35"
proof -
  obtain i fa where "buddy_alloc M 1 (frames vm) = (Some i, fa)" "unat i < 2 ^ 35"
    using laws unfolding mmu_laws_def frames_available_def by (metis prod.collapse)
  then show ?thesis by (auto simp: alloc_page_def frame_alloc_def)
qed

lemma present_set: "e_present M (e_set_present M v e) = v"
  by (simp add: e_present_def e_set_present_def has_flag_set[OF flags] masks_in)

lemma handler_map_ok:
  assumes "tbl (table vm) (of_addr a) = None"
  shows "\<exists>vm' e. handler_map M h a attr vm = Inr vm' \<and> tbl (table vm') = (tbl (table vm))(of_addr a \<mapsto> e) \<and>
    handler_ok M h e \<and> ram vm' = ram vm"
proof (cases h)
  case (Linear x1)
  then show ?thesis using vm_map_ok[OF assms] attr_apply_flags(5)[OF flags] by force
next
  case ByFrame
  obtain f fa where "alloc_page M ''failed to allocate frame'' vm = Inr (f, vm\<lparr>frames := fa\<rparr>)"
    using alloc_page_ok by blast
  with ByFrame show ?thesis
    using vm_map_ok[of "vm\<lparr>frames := fa\<rparr>" a f "attr_apply M attr"] assms attr_apply_flags(5)[OF flags] by force
next
  case Delay
  then show ?thesis using vm_map_ok[OF assms] by force
next
  case FileMap
  then show ?thesis using vm_map_ok[OF assms] by force
qed

lemma delay_unmap_ok:
  assumes "tbl (table vm) (of_addr a) = Some e"
  shows "\<exists>vm'. delay_unmap M a vm = Inr vm' \<and> tbl (table vm') = (tbl (table vm))(of_addr a := None) \<and> ram vm' = ram vm"
proof -
  define vm1 where "vm1 = (if e_present M e then vm\<lparr>frames := frame_dealloc M (e_target M e) 1 (frames vm)\<rparr> else vm)"
  define vm2 where "vm2 = vm1\<lparr>table := put_entry M (of_addr a) (e_set_present M True e) (table vm1)\<rparr>"
  have t1: "table vm1 = table vm" "ram vm1 = ram vm" by (simp_all add: vm1_def)
  then have t2: "tbl (table vm2) = (tbl (table vm))(of_addr a \<mapsto> e_set_present M True e)"
    using put_of assms by (simp add: vm2_def)
  then obtain vm' where "vm_unmap M a vm2 = Inr vm'" "tbl (table vm') = (tbl (table vm2))(of_addr a := None)"
    "ram vm' = ram vm2" using vm_unmap_ok[of vm2 a "e_set_present M True e"] present_set by auto
  moreover have "delay_unmap M a vm = vm_unmap M a vm2"
    using entry_of[OF assms] by (simp add: delay_unmap_def pt_get_entry_def vm2_def vm1_def Let_def)
  ultimately show ?thesis using t1 t2 by (simp add: vm2_def)
qed

lemma handler_unmap_ok:
  assumes "tbl (table vm) (of_addr a) = Some e" "handler_ok M h e"
  shows "\<exists>vm'. handler_unmap M h a vm = Inr vm' \<and> tbl (table vm') = (tbl (table vm))(of_addr a := None) \<and> ram vm' = ram vm"
proof (cases h)
  case ByFrame
  then show ?thesis
    using vm_unmap_ok[of "vm\<lparr>frames := frame_dealloc M (e_target M e) 1 (frames vm)\<rparr>" a e] entry_of[OF assms(1)] assms
    by (auto simp: pt_get_entry_def)
qed (use assms vm_unmap_ok delay_unmap_ok in auto)

end

text \<open>One handler over a memory management unit, which meets the contract whichever of the four it is.\<close>

locale mmu_handler = mmu_env M tbl for M :: "('pt, 'b) mmu" and tbl +
  fixes h :: MemoryHandler

sublocale mmu_handler \<subseteq> page_handler tbl "handler_map M h" "handler_unmap M h" "handler_ok M h"
  by unfold_locales (fact handler_map_ok, fact handler_unmap_ok)

context mmu_handler
begin

lemmas handler_roundtrip = map_unmap
lemmas handler_map_pages = map_pages
lemmas handler_unmap_pages = unmap_pages

end


interpretation ref_linear: mmu_handler map_mmu "\<lambda>pt. pt" "Linear 0"
  by unfold_locales (fact map_mmu_laws)

interpretation ref_byframe: mmu_handler map_mmu "\<lambda>pt. pt" ByFrame
  by unfold_locales (fact map_mmu_laws)

interpretation ref_delay: mmu_handler map_mmu "\<lambda>pt. pt" Delay
  by unfold_locales (fact map_mmu_laws)

interpretation ref_file: mmu_handler map_mmu "\<lambda>pt. pt" "FileMap f ms fs fe" for f ms fs fe
  by unfold_locales (fact map_mmu_laws)

text \<open>C32: every handler undoes what it does: mapping a free page and unmapping it again succeeds and
  gives back the same page table, whatever backs the page.\<close>
theorem handler_map_unmap:
  assumes "mmu_laws M tbl" "tbl (table vm) (of_addr a) = None"
  shows "\<exists>vm' vm''. handler_map M h a attr vm = Inr vm' \<and> handler_unmap M h a vm' = Inr vm'' \<and>
    tbl (table vm'') = tbl (table vm)"
proof -
  have "mmu_handler M tbl" by unfold_locales (fact assms(1))
  from mmu_handler.handler_roundtrip[OF this assms(2)] show ?thesis .
qed

theorem handler_map_unmap_witness:
  "\<exists>vm' vm''. handler_map map_mmu Delay 0x2000 MemoryAttr_default \<lparr>table = Map.empty, frames = 0, ram = (\<lambda>_. 0)\<rparr> = Inr vm' \<and>
    handler_unmap map_mmu Delay 0x2000 vm' = Inr vm'' \<and> table vm'' = Map.empty"
  using handler_map_unmap[OF map_mmu_laws, of "\<lparr>table = Map.empty, frames = 0, ram = (\<lambda>_. 0)\<rparr>" "0x2000" Delay]
  by simp

section \<open>Demand paging\<close>

lemma frame_bytes_write:
  assumes "length bs = 4096"
  shows "frame_bytes (write_frame f bs m) f = bs"
proof (rule nth_equalityI)
  fix i assume "i < length (frame_bytes (write_frame f bs m) f)"
  then have i: "i < 4096" by (simp add: frame_bytes_def)
  then have "unat (f + of_nat i - f) = i" by (simp add: unat_of_nat)
  with i assms show "frame_bytes (write_frame f bs m) f ! i = bs ! i"
    by (simp add: frame_bytes_def write_frame_def)
qed (simp add: frame_bytes_def assms)

lemma page_frame_range:
  assumes "unat i < 2 ^ 35"
  shows "start_address (of_addr (i * PAGE_SIZE + MEMORY_OFFSET)) = i * PAGE_SIZE + MEMORY_OFFSET"
    and "unat (i * PAGE_SIZE + MEMORY_OFFSET) = unat i * 4096 + 0x40000000"
    and "unat (i * PAGE_SIZE + MEMORY_OFFSET) < 2 ^ 48"
proof -
  have m: "unat (i * PAGE_SIZE) = unat i * 4096"
    using assms unat_mult_no_wrap[of i PAGE_SIZE] by (simp add: PAGE_SIZE_def)
  then show u: "unat (i * PAGE_SIZE + MEMORY_OFFSET) = unat i * 4096 + 0x40000000"
    using assms unat_add_no_wrap[of "i * PAGE_SIZE" MEMORY_OFFSET] by (simp add: MEMORY_OFFSET_def)
  with assms show "unat (i * PAGE_SIZE + MEMORY_OFFSET) < 2 ^ 48" by simp
  show "start_address (of_addr (i * PAGE_SIZE + MEMORY_OFFSET)) = i * PAGE_SIZE + MEMORY_OFFSET"
    unfolding start_address_of_addr word_unat_eq_iff unat_page_down u by simp
qed

context mmu_env
begin

lemma fault_in_ok:
  assumes "tbl (table vm) (of_addr a) = Some e" "\<not> e_present M e" "length bs = 4096"
  shows "\<exists>vm' e'. fault_in M a (Inr bs) vm = Inr (True, vm') \<and>
    tbl (table vm') = (tbl (table vm))(of_addr a \<mapsto> e') \<and> e_present M e' \<and>
    (\<forall>m \<in> set (ef_masks (EF M)) - {VALID (EF M)}. has_flag M m e' = has_flag M m e) \<and>
    frame_bytes (ram vm') (e_target M e') = bs"
proof -
  obtain i f fa where f: "alloc_page M ''failed to alloc frame'' vm = Inr (f, vm\<lparr>frames := fa\<rparr>)"
    "f = i * PAGE_SIZE + MEMORY_OFFSET" "unat i < 2 ^ 35" using alloc_page_ok by blast
  note fr = page_frame_range[OF f(3), folded f(2)]
  define e' where "e' = e_set_present M True (e_set_target M f e)"
  have pr: "e_present M e'" by (simp add: e'_def present_set)
  have "pte_addr M (e_set_target M f e) = f"
    using flags fr unfolding flag_laws_def Let_def e_set_target_def by blast
  then have ad: "pte_addr M e' = f"
    by (simp add: e'_def e_set_present_def flag_set_frame[OF flags] masks_in)
  have fl: "has_flag M m e' = has_flag M m e" if "m \<in> set (ef_masks (EF M)) - {VALID (EF M)}" for m
  proof -
    have "has_flag M m (e_set_target M f e) = has_flag M m e"
      using flags that unfolding flag_laws_def Let_def e_set_target_def by blast
    with that show ?thesis by (simp add: e'_def e_set_present_def has_flag_set[OF flags] masks_in)
  qed
  let ?pt = "put_entry M (of_addr a) e' (table vm)"
  have t: "tbl ?pt = (tbl (table vm))(of_addr a \<mapsto> e')" by (rule put_of[OF assms(1)])
  then have "get_page_frame M a ?pt = Inr f"
    using translate_of[of ?pt "of_addr a" e'] pr ad by (simp add: get_page_frame_def)
  then have "fault_in M a (Inr bs) vm =
      Inr (True, vm\<lparr>frames := fa, table := ?pt, ram := write_frame f bs (ram vm)\<rparr>)"
    using entry_of[OF assms(1)] assms(2) f(1) by (simp add: fault_in_def pt_get_entry_def e'_def Let_def)
  then show ?thesis
    using t pr fl ad frame_bytes_write[OF assms(3), of f "ram vm"]
    by (intro exI[of _ "vm\<lparr>frames := fa, table := ?pt, ram := write_frame f bs (ram vm)\<rparr>"] exI[of _ e'])
      (simp add: e_target_def)
qed

end

lemma fill_data_file:
  assumes "unat (addr - ms + fs) + 4096 < 2 ^ 63" "unat fe < 2 ^ 63"
  shows "fill_data (FileMap (\<lambda>o' n. Inr (take n (drop (unat o') c))) ms fs fe) addr =
    Inr (map (\<lambda>j. let k = unat (addr - ms + fs) + j in if k < unat fe \<and> k < length c then c ! k else 0) [0 ..< 4096])"
proof -
  define off where "off = addr - ms + fs"
  have o': "addr + fs - ms = off" by (simp add: off_def)
  have "unat off < 2 ^ 63" using assms(1) unfolding off_def by linarith
  from sint_sub_window[OF assms(2) this] have "sint (fe - off) = int (unat fe) - int (unat off)"
    by (simp only: uint_nat)
  then have sz: "fill_size fe off = min (unat fe - unat off) 4096"
    unfolding fill_size_def by linarith
  define bs where "bs = take (min (unat fe - unat off) 4096) (drop (unat off) c)"
  have len: "length bs = min (length c - unat off) (min (unat fe - unat off) 4096)" by (simp add: bs_def)
  have "bs @ replicate (4096 - length bs) 0 =
      map (\<lambda>j. let k = unat off + j in if k < unat fe \<and> k < length c then c ! k else 0) [0 ..< 4096]"
  proof (rule nth_equalityI)
    fix i assume "i < length (bs @ replicate (4096 - length bs) 0)"
    then have i: "i < 4096" using len by simp
    show "(bs @ replicate (4096 - length bs) 0) ! i =
        map (\<lambda>j. let k = unat off + j in if k < unat fe \<and> k < length c then c ! k else 0) [0 ..< 4096] ! i"
    proof (cases "i < length bs")
      case True
      with len have "unat off + i < unat fe" "unat off + i < length c" by linarith+
      with True i show ?thesis by (simp add: nth_append Let_def) (simp add: bs_def)
    next
      case False
      with len i have "\<not> (unat off + i < unat fe \<and> unat off + i < length c)" by linarith
      moreover from False i have "i - length bs < 4096 - length bs" by simp
      ultimately show ?thesis using False i by (auto simp: nth_append Let_def)
    qed
  qed (simp add: len)
  then show ?thesis using len by (simp add: fill_data_def Let_def o' sz flip: off_def bs_def)
qed

lemma fault_in_page: "of_addr a = of_addr b \<Longrightarrow> fault_in M a data vm = fault_in M b data vm"
proof -
  assume eq: "of_addr a = of_addr b"
  show ?thesis unfolding fault_in_def pt_get_entry_def get_page_frame_def eq ..
qed



section \<open>Frames are not given back\<close>

text \<open>a frame is not returned to where it came from: the allocator hands out frame \<open>i\<close> at the address
  \<open>i * 4096 + MEMORY_OFFSET\<close>, but giving that address back frees frame \<open>i + 0x40000\<close>, because the offset of
  memory is added in one direction and not subtracted in the other.\<close>
lemma frame_dealloc_wrong_frame:
  assumes "buddy_alloc M n fa = (Some i, fa')" "unat i < 2 ^ 35"
  shows "\<exists>f. frame_alloc M n fa = (Some f, fa') \<and> frame_dealloc M f n fb = buddy_dealloc M (i + 0x40000) n fb"
proof -
  let ?f = "i * PAGE_SIZE + MEMORY_OFFSET"
  have "unat (?f div PAGE_SIZE) = unat i + 0x40000"
    using page_frame_range(2)[OF assms(2)] by (simp add: PAGE_SIZE_def unat_div_distrib)
  moreover have "unat (i + 0x40000) = unat i + 0x40000"
    using assms(2) unat_add_no_wrap[of i "0x40000"] by simp
  ultimately have "?f div PAGE_SIZE = i + 0x40000" by (simp add: word_unat_eq_iff)
  then show ?thesis using assms(1) by (intro exI[of _ ?f]) (simp add: frame_alloc_def frame_dealloc_def)
qed

end
