(* ===== verification/Memory_Set.thy ===== *)
theory Memory_Set
  imports Memory_Handler
begin

text \<open>
  Address spaces (\<^verbatim>\<open>src/kernel/src/memory/memory_set.rs\<close>): a \<open>MemorySet\<close> is a list of areas and a
  page table. The invariant \<open>ms_ok\<close> says that the areas are page aligned, sorted and disjoint, and that
  the page table maps exactly their pages; every operation keeps it.

  The page table comes with the frame allocator and the bytes of memory (\<open>space\<close>). A pointer check
  returns whether it succeeds; \<open>sz\<close> is \<^verbatim>\<open>size_of::<S>()\<close> of the pointer's type.
\<close>

section \<open>Areas\<close>

record MemoryArea =
  start_addr :: VirtAddr
  end_addr :: VirtAddr
  area_attr :: MemoryAttr
  area_handler :: MemoryHandler
  area_name :: string

definition area_contains :: "MemoryArea \<Rightarrow> VirtAddr \<Rightarrow> bool" where
  "area_contains a addr \<longleftrightarrow> addr \<ge> start_addr a \<and> addr < end_addr a"

definition area_check_read_array :: "usize \<Rightarrow> MemoryArea \<Rightarrow> VirtAddr \<Rightarrow> usize \<Rightarrow> usize" where
  "area_check_read_array sz a ptr count =
     (let min_bound = max ptr (start_address (of_addr (start_addr a)));
          max_bound = min (ptr + sz * count) (start_address (of_addr (end_addr a + PAGE_SIZE - 1)))
      in if max_bound \<ge> min_bound then max_bound - min_bound else 0)"

definition area_check_write_array :: "usize \<Rightarrow> MemoryArea \<Rightarrow> VirtAddr \<Rightarrow> usize \<Rightarrow> usize" where
  "area_check_write_array sz a ptr count =
     (if readonly (area_attr a) then 0 else area_check_read_array sz a ptr count)"

definition is_overlap_with :: "MemoryArea \<Rightarrow> VirtAddr \<Rightarrow> VirtAddr \<Rightarrow> bool" where
  "is_overlap_with a s e =
     (let p0 = number (of_addr (start_addr a));
          p1 = number (page_add (of_addr (end_addr a - 1)) 1);
          p2 = number (of_addr s);
          p3 = number (page_add (of_addr (e - 1)) 1)
      in \<not> (p1 \<le> p2 \<or> p0 \<ge> p3))"

definition area_map :: "('pt, 'b) mmu \<Rightarrow> MemoryArea \<Rightarrow> ('pt, 'b) vm \<Rightarrow> ('pt, 'b) vm outcome" where
  "area_map M a =
     iterE (\<lambda>p. handler_map M (area_handler a) (start_address p) (area_attr a))
       (page_list (range_of (start_addr a) (end_addr a)))"

definition area_unmap :: "('pt, 'b) mmu \<Rightarrow> MemoryArea \<Rightarrow> ('pt, 'b) vm \<Rightarrow> ('pt, 'b) vm outcome" where
  "area_unmap M a =
     iterE (\<lambda>p. handler_unmap M (area_handler a) (start_address p))
       (page_list (range_of (start_addr a) (end_addr a)))"

section \<open>Memory sets\<close>

record ('pt, 'b) MemorySet =
  areas :: "MemoryArea list"
  space :: "('pt, 'b) vm"

definition MemorySet_new :: "('pt, 'b) vm \<Rightarrow> ('pt, 'b) MemorySet" where
  "MemorySet_new sp = \<lparr>areas = [], space = sp\<rparr>"

fun check_read_loop :: "usize \<Rightarrow> VirtAddr \<Rightarrow> usize \<Rightarrow> usize \<Rightarrow> MemoryArea list \<Rightarrow> bool" where
  "check_read_loop sz ptr count valid_size [] = False"
| "check_read_loop sz ptr count valid_size (a # as) =
     (let valid_size = valid_size + area_check_read_array sz a ptr count
      in if valid_size = sz * count then True else check_read_loop sz ptr count valid_size as)"

definition check_read_array :: "usize \<Rightarrow> ('pt, 'b) MemorySet \<Rightarrow> VirtAddr \<Rightarrow> usize \<Rightarrow> bool" where
  "check_read_array sz ms ptr count = check_read_loop sz ptr count 0 (areas ms)"

fun check_write_loop :: "usize \<Rightarrow> VirtAddr \<Rightarrow> usize \<Rightarrow> usize \<Rightarrow> MemoryArea list \<Rightarrow> bool" where
  "check_write_loop sz ptr count valid_size [] = False"
| "check_write_loop sz ptr count valid_size (a # as) =
     (let valid_size = valid_size + area_check_write_array sz a ptr count
      in if valid_size = sz * count then True else check_write_loop sz ptr count valid_size as)"

definition check_write_array :: "usize \<Rightarrow> ('pt, 'b) MemorySet \<Rightarrow> VirtAddr \<Rightarrow> usize \<Rightarrow> bool" where
  "check_write_array sz ms ptr count = check_write_loop sz ptr count 0 (areas ms)"

definition check_read_ptr :: "usize \<Rightarrow> ('pt, 'b) MemorySet \<Rightarrow> VirtAddr \<Rightarrow> bool" where
  "check_read_ptr sz ms ptr = check_read_array sz ms ptr 1"

definition check_write_ptr :: "usize \<Rightarrow> ('pt, 'b) MemorySet \<Rightarrow> VirtAddr \<Rightarrow> bool" where
  "check_write_ptr sz ms ptr = check_write_array sz ms ptr 1"

definition test_free_area :: "MemoryArea list \<Rightarrow> VirtAddr \<Rightarrow> VirtAddr \<Rightarrow> bool" where
  "test_free_area as s e = (find (\<lambda>a. is_overlap_with a s e) as = None)"

definition find_free_area :: "('pt, 'b) MemorySet \<Rightarrow> VirtAddr \<Rightarrow> usize \<Rightarrow> VirtAddr outcome" where
  "find_free_area ms hint len =
     expect ''failed to find free area ???''
       (find (\<lambda>addr. test_free_area (areas ms) addr (addr + len)) (map page_up (hint # map end_addr (areas ms))))"

text \<open>\<^verbatim>\<open>Vec::insert\<close> and \<^verbatim>\<open>Vec::remove\<close> at an index within bounds.\<close>

definition vec_insert :: "nat \<Rightarrow> 'a \<Rightarrow> 'a list \<Rightarrow> 'a list" where
  "vec_insert i x xs = take i xs @ x # drop i xs"

definition vec_remove :: "nat \<Rightarrow> 'a list \<Rightarrow> 'a list" where
  "vec_remove i xs = take i xs @ drop (Suc i) xs"

fun insert_index :: "VirtAddr \<Rightarrow> MemoryArea list \<Rightarrow> nat" where
  "insert_index s [] = 0"
| "insert_index s (a # as) = (if s < start_addr a then 0 else Suc (insert_index s as))"

definition ms_push ::
  "('pt, 'b) mmu \<Rightarrow> VirtAddr \<Rightarrow> VirtAddr \<Rightarrow> MemoryAttr \<Rightarrow> MemoryHandler \<Rightarrow> string \<Rightarrow>
   ('pt, 'b) MemorySet \<Rightarrow> ('pt, 'b) MemorySet outcome" where
  "ms_push M s e attr h name ms =
     (if s \<ge> e then Inr ms
      else let s = page_down s; e = page_up e
           in if \<not> s < e then Inl (AssertFailed ''invalid memory area'')
              else if \<not> test_free_area (areas ms) s e then Inl (AssertFailed ''memory area overlap'')
              else let a = \<lparr>start_addr = s, end_addr = e, area_attr = attr, area_handler = h, area_name = name\<rparr>
                   in bindE (area_map M a (space ms)) (\<lambda>sp.
                        Inr \<lparr>areas = vec_insert (insert_index s (areas ms)) a (areas ms), space = sp\<rparr>))"

fun pop_loop ::
  "('pt, 'b) mmu \<Rightarrow> VirtAddr \<Rightarrow> VirtAddr \<Rightarrow> nat list \<Rightarrow> MemoryArea list \<Rightarrow> ('pt, 'b) vm \<Rightarrow>
   (MemoryArea list \<times> ('pt, 'b) vm) outcome" where
  "pop_loop M s e [] as sp = Inl (Panicked ''no memory area found'')"
| "pop_loop M s e (i # is) as sp =
     (if start_addr (as ! i) = s \<and> end_addr (as ! i) = e
      then bindE (area_unmap M (as ! i) sp) (\<lambda>sp. Inr (vec_remove i as, sp))
      else pop_loop M s e is as sp)"

definition ms_pop ::
  "('pt, 'b) mmu \<Rightarrow> VirtAddr \<Rightarrow> VirtAddr \<Rightarrow> ('pt, 'b) MemorySet \<Rightarrow> ('pt, 'b) MemorySet outcome" where
  "ms_pop M s e ms =
     (if \<not> s \<le> e then Inl (AssertFailed ''invalid memory area'')
      else bindE (pop_loop M s e [0 ..< length (areas ms)] (areas ms) (space ms))
             (\<lambda>(as, sp). Inr \<lparr>areas = as, space = sp\<rparr>))"

text \<open>The loop of \<open>pop_with_split\<close>, in the four cases of the code. Removing an area leaves the index
  where it is (the code decrements and increments it); splitting one moves it past both halves.\<close>

function pop_split_loop ::
  "('pt, 'b) mmu \<Rightarrow> VirtAddr \<Rightarrow> VirtAddr \<Rightarrow> nat \<Rightarrow> MemoryArea list \<Rightarrow> ('pt, 'b) vm \<Rightarrow>
   (MemoryArea list \<times> ('pt, 'b) vm) outcome" where
  "pop_split_loop M s e i as sp =
     (if i < length as then
        let a = as ! i
        in if is_overlap_with a s e then
             if start_addr a \<ge> s \<and> end_addr a \<le> e then
               bindE (area_unmap M a sp) (\<lambda>sp. pop_split_loop M s e i (vec_remove i as) sp)
             else if start_addr a \<ge> s \<and> start_addr a < e then
               bindE (area_unmap M (a\<lparr>end_addr := e\<rparr>) sp) (\<lambda>sp.
                 pop_split_loop M s e (i + 1) (vec_insert i (a\<lparr>start_addr := e\<rparr>) (vec_remove i as)) sp)
             else if end_addr a \<le> e \<and> end_addr a > s then
               bindE (area_unmap M (a\<lparr>start_addr := s\<rparr>) sp) (\<lambda>sp.
                 pop_split_loop M s e (i + 1) (vec_insert i (a\<lparr>end_addr := s\<rparr>) (vec_remove i as)) sp)
             else
               bindE (area_unmap M (a\<lparr>start_addr := s, end_addr := e\<rparr>) sp) (\<lambda>sp.
                 pop_split_loop M s e (i + 2)
                   (vec_insert (i + 1) (a\<lparr>start_addr := e\<rparr>) (vec_insert i (a\<lparr>end_addr := s\<rparr>) (vec_remove i as))) sp)
           else pop_split_loop M s e (i + 1) as sp
      else Inr (as, sp))"
  by pat_completeness auto
termination
  by (relation "measure (\<lambda>(M, s, e, i, as, sp). length as - i)") (auto simp: vec_insert_def vec_remove_def)

declare pop_split_loop.simps [simp del]

definition pop_with_split ::
  "('pt, 'b) mmu \<Rightarrow> VirtAddr \<Rightarrow> VirtAddr \<Rightarrow> ('pt, 'b) MemorySet \<Rightarrow> ('pt, 'b) MemorySet outcome" where
  "pop_with_split M s e ms =
     (if \<not> s \<le> e then Inl (AssertFailed ''invalid memory area'')
      else bindE (pop_split_loop M s e 0 (areas ms) (space ms)) (\<lambda>(as, sp). Inr \<lparr>areas = as, space = sp\<rparr>))"

definition ms_clear :: "('pt, 'b) mmu \<Rightarrow> ('pt, 'b) MemorySet \<Rightarrow> ('pt, 'b) MemorySet outcome" where
  "ms_clear M ms =
     bindE (iterE (area_unmap M) (areas ms) (space ms)) (\<lambda>sp. Inr \<lparr>areas = [], space = sp\<rparr>)"

definition ms_translate :: "('pt, 'b) mmu \<Rightarrow> VirtAddr \<Rightarrow> ('pt, 'b) MemorySet \<Rightarrow> PhysAddr option" where
  "ms_translate M addr ms =
     (case pt_get_entry M addr (table (space ms)) of
        None \<Rightarrow> None
      | Some e \<Rightarrow> if e_user M e then Some (e_target M e) else None)"

definition ms_handle_page_fault ::
  "('pt, 'b) mmu \<Rightarrow> VirtAddr \<Rightarrow> ('pt, 'b) MemorySet \<Rightarrow> (bool \<times> ('pt, 'b) MemorySet) outcome" where
  "ms_handle_page_fault M addr ms =
     (case find (\<lambda>a. area_contains a addr) (areas ms) of
        Some a \<Rightarrow> bindE (handler_page_fault M (area_handler a) addr (space ms))
                   (\<lambda>(ok, sp). Inr (ok, ms\<lparr>space := sp\<rparr>))
      | None \<Rightarrow> Inr (False, ms))"

text \<open>\<open>clone\<close> into a new page table \<open>pt\<close>, sharing the allocator and the memory; it returns the new set,
  whose allocator and memory the old one then sees as well.\<close>

definition ms_clone :: "('pt, 'b) mmu \<Rightarrow> 'pt \<Rightarrow> ('pt, 'b) MemorySet \<Rightarrow> ('pt, 'b) MemorySet outcome" where
  "ms_clone M pt ms =
     bindE (iterE (\<lambda>a. iterE (\<lambda>p. handler_clone_map M (area_handler a) (start_address p) (area_attr a) (table (space ms)))
                (page_list (range_of (start_addr a) (end_addr a)))) (areas ms) ((space ms)\<lparr>table := pt\<rparr>))
       (\<lambda>sp. Inr \<lparr>areas = areas ms, space = sp\<rparr>)"


section \<open>Aligned ranges\<close>

abbreviation pg :: "usize \<Rightarrow> nat" where
  "pg x \<equiv> unat x div 4096"

lemma aligned_unat: "aligned x \<Longrightarrow> unat x = pg x * 4096"
  by (auto simp: aligned_def)

lemma aligned_less: "aligned x \<Longrightarrow> aligned y \<Longrightarrow> x < y \<longleftrightarrow> pg x < pg y"
  using aligned_unat[of x] aligned_unat[of y] by (simp add: word_less_nat_alt) linarith

lemma aligned_le: "aligned x \<Longrightarrow> aligned y \<Longrightarrow> x \<le> y \<longleftrightarrow> pg x \<le> pg y"
  using aligned_less[of y x] by (simp add: linorder_not_less[symmetric])

lemma aligned_max: "aligned x \<Longrightarrow> aligned y \<Longrightarrow> aligned (max x y)"
  by (simp add: max_def)

lemma aligned_min: "aligned x \<Longrightarrow> aligned y \<Longrightarrow> aligned (min x y)"
  by (simp add: min_def)

lemma pg_last:
  assumes "aligned s" "aligned e" "s < e"
  shows "Suc (pg (e - 1)) = pg e"
proof -
  from assms obtain k where k: "unat e = 4096 * k" "0 < k"
    by (fastforce simp: aligned_def word_less_nat_alt mod_eq_0_iff_dvd elim!: dvdE)
  have "unat (e - 1) = unat e - 1"
    using assms(3) by (subst unat_sub_no_wrap) (auto simp: word_le_nat_alt word_less_nat_alt)
  with k show ?thesis by (cases k) simp_all
qed

text \<open>The pages of an aligned range.\<close>

definition pages_between :: "usize \<Rightarrow> usize \<Rightarrow> Page set" where
  "pages_between s e = {p. pg s \<le> unat (number p) \<and> unat (number p) < pg e}"

lemma pg_bound: "pg x < 2 ^ 52"
  using number_of_addr_bound[of x] by (simp add: unat_of_addr)

lemma aligned_up_fits:
  assumes "aligned x"
  shows "unat x + 4095 < 2 ^ 64"
proof -
  have "k < 2 ^ 52 \<Longrightarrow> k * 4096 + 4095 < (2 ^ 64 :: nat)" for k by simp
  from this[OF pg_bound[of x]] show ?thesis using aligned_unat[OF assms] by simp
qed

lemma page_up_aligned:
  assumes "aligned x"
  shows "page_up x = x"
proof -
  have "(k * 4096 + 4095) div 4096 = k" for k :: nat by simp
  from this[of "pg x"] have "(unat x + 4095) div 4096 * 4096 = unat x"
    by (simp only: aligned_unat[OF assms, symmetric])
  then show ?thesis by (simp only: word_unat_eq_iff unat_page_up[OF aligned_up_fits[OF assms]])
qed

lemma page_list_between:
  assumes "aligned s" "aligned e" "s < e"
  shows "set (page_list (range_of s e)) = pages_between s e" "distinct (page_list (range_of s e))"
    "p \<in> pages_between s e \<Longrightarrow> of_addr (start_address p) = p"
proof -
  have pl: "page_list (range_of s e) = map (Page \<circ> of_nat) [pg s ..< pg e]"
    by (simp only: page_list_range_of pg_last[OF assms])
  have inj: "unat (of_nat n :: usize) = n" if "n < pg e" for n
    using that pg_bound[of e] by (intro of_nat_page_inj) simp
  show "set (page_list (range_of s e)) = pages_between s e"
  proof (intro set_eqI iffI)
    fix p assume "p \<in> set (page_list (range_of s e))"
    then show "p \<in> pages_between s e" using inj by (auto simp: pl pages_between_def)
  next
    fix p assume p: "p \<in> pages_between s e"
    have "p = Page (of_nat (unat (number p)))" by (cases p) simp
    moreover from p have "unat (number p) \<in> {pg s ..< pg e}" by (simp add: pages_between_def)
    ultimately show "p \<in> set (page_list (range_of s e))"
      unfolding pl set_map set_upt comp_def by (rule image_eqI)
  qed
  show "distinct (page_list (range_of s e))"
    unfolding pl distinct_map using inj by (auto intro!: inj_onI) metis
  assume "p \<in> pages_between s e"
  then have "unat (number p) < 2 ^ 52" using pg_bound[of e] by (simp add: pages_between_def)
  then show "of_addr (start_address p) = p" by (rule of_addr_start_address)
qed

lemma pages_between_Int:
  assumes "aligned s" "aligned e" "aligned s'" "aligned e'"
  shows "pages_between s e \<inter> pages_between s' e' = pages_between (max s s') (min e e')"
  using aligned_le[OF assms(1,3)] aligned_le[OF assms(2,4)] by (auto simp: pages_between_def max_def min_def)

section \<open>The invariant\<close>

definition area_ok :: "MemoryArea \<Rightarrow> bool" where
  "area_ok a \<longleftrightarrow> aligned (start_addr a) \<and> aligned (end_addr a) \<and> start_addr a < end_addr a"

definition area_pages :: "MemoryArea \<Rightarrow> Page set" where
  "area_pages a = pages_between (start_addr a) (end_addr a)"

definition areas_ok :: "MemoryArea list \<Rightarrow> bool" where
  "areas_ok as \<longleftrightarrow> (\<forall>a \<in> set as. area_ok a) \<and> sorted_wrt (\<lambda>a b. end_addr a \<le> start_addr b) as"

text \<open>The page table maps the pages of the areas and no other, each as its area's handler maps it.\<close>

definition backed :: "('pt, 'b) mmu \<Rightarrow> MemoryArea list \<Rightarrow> (Page \<rightharpoonup> u64) \<Rightarrow> bool" where
  "backed M as t \<longleftrightarrow> dom t = \<Union> (area_pages ` set as) \<and>
     (\<forall>a \<in> set as. \<forall>p \<in> area_pages a. \<exists>e. t p = Some e \<and> handler_ok M (area_handler a) e)"

definition ms_ok :: "('pt, 'b) mmu \<Rightarrow> ('pt \<Rightarrow> Page \<rightharpoonup> u64) \<Rightarrow> ('pt, 'b) MemorySet \<Rightarrow> bool" where
  "ms_ok M tbl ms \<longleftrightarrow> areas_ok (areas ms) \<and> backed M (areas ms) (tbl (table (space ms)))"

text \<open>The abstract address space: which attributes, handler and name an address has.\<close>

definition area_at :: "MemoryArea list \<Rightarrow> VirtAddr \<Rightarrow> (MemoryAttr \<times> MemoryHandler \<times> string) option" where
  "area_at as x = map_option (\<lambda>a. (area_attr a, area_handler a, area_name a)) (find (\<lambda>a. area_contains a x) as)"

lemma area_at_Cons:
  "area_at (a # as) x = (if area_contains a x then Some (area_attr a, area_handler a, area_name a) else area_at as x)"
  by (simp add: area_at_def)

lemma area_at_Nil [simp]: "area_at [] x = None"
  by (simp add: area_at_def)

lemma area_at_append: "area_at (as @ bs) x = (case area_at as x of None \<Rightarrow> area_at bs x | Some d \<Rightarrow> Some d)"
  by (induction as) (auto simp: area_at_Cons)

lemma is_overlap_aligned:
  assumes "area_ok a" "aligned s" "aligned e" "s < e"
  shows "is_overlap_with a s e \<longleftrightarrow> start_addr a < e \<and> s < end_addr a"
proof -
  have last: "unat (number (page_add (of_addr (y - 1)) 1)) = pg y" if "aligned x" "aligned y" "x < y" for x y
  proof -
    have "Suc (pg (y - 1)) = pg y" by (rule pg_last[OF that])
    moreover have "unat (number (of_addr (y - 1)) + 1) = Suc (unat (y - 1) div 4096)"
      using number_of_addr_bound[of "y - 1"] unat_add_no_wrap[of "number (of_addr (y - 1))" 1]
      by (simp add: unat_of_addr)
    ultimately show ?thesis by (simp add: page_add_def)
  qed
  have al: "aligned (start_addr a)" "aligned (end_addr a)" "start_addr a < end_addr a"
    using assms(1) by (simp_all add: area_ok_def)
  show ?thesis
    unfolding is_overlap_with_def Let_def word_le_nat_alt last[OF al] last[OF assms(2-4)] unat_of_addr
      aligned_less[OF al(1) assms(3)] aligned_less[OF assms(2) al(2)] by auto
qed

lemma test_free_area_iff:
  assumes "areas_ok as" "aligned s" "aligned e" "s < e"
  shows "test_free_area as s e \<longleftrightarrow> (\<forall>a \<in> set as. end_addr a \<le> s \<or> e \<le> start_addr a)"
  using assms is_overlap_aligned[OF _ assms(2-4)]
  by (auto simp: test_free_area_def find_None_iff areas_ok_def linorder_not_less) 


section \<open>Mapping and unmapping a whole area\<close>

context mmu_env
begin

lemma area_map_ok:
  assumes "area_ok a" "\<And>p. p \<in> area_pages a \<Longrightarrow> tbl (table sp) p = None"
  shows "\<exists>sp'. area_map M a sp = Inr sp' \<and> (\<forall>p. p \<notin> area_pages a \<longrightarrow> tbl (table sp') p = tbl (table sp) p) \<and>
    (\<forall>p \<in> area_pages a. \<exists>e. tbl (table sp') p = Some e \<and> handler_ok M (area_handler a) e)"
proof -
  have "mmu_handler M tbl" by unfold_locales
  note pages = page_list_between[of "start_addr a" "end_addr a"]
  from assms(1) have al: "aligned (start_addr a)" "aligned (end_addr a)" "start_addr a < end_addr a"
    by (simp_all add: area_ok_def)
  have "\<And>p. p \<in> set (page_list (range_of (start_addr a) (end_addr a))) \<Longrightarrow>
      of_addr (start_address p) = p \<and> tbl (table sp) p = None"
    using assms(2) pages[OF al] by (simp add: area_pages_def)
  from mmu_handler.handler_map_pages[OF \<open>mmu_handler M tbl\<close> pages(2)[OF al] this, of "area_handler a" "area_attr a"]
  show ?thesis unfolding pages(1)[OF al] area_map_def area_pages_def by blast
qed

lemma area_unmap_ok:
  assumes "area_ok a" "\<And>p. p \<in> area_pages a \<Longrightarrow> \<exists>e. tbl (table sp) p = Some e \<and> handler_ok M (area_handler a) e"
  shows "\<exists>sp'. area_unmap M a sp = Inr sp' \<and>
    tbl (table sp') = (\<lambda>p. if p \<in> area_pages a then None else tbl (table sp) p)"
proof -
  have "mmu_handler M tbl" by unfold_locales
  note pages = page_list_between[of "start_addr a" "end_addr a"]
  from assms(1) have al: "aligned (start_addr a)" "aligned (end_addr a)" "start_addr a < end_addr a"
    by (simp_all add: area_ok_def)
  have "\<And>p. p \<in> set (page_list (range_of (start_addr a) (end_addr a))) \<Longrightarrow>
      of_addr (start_address p) = p \<and> (\<exists>e. tbl (table sp) p = Some e \<and> handler_ok M (area_handler a) e)"
    using assms(2) pages[OF al] by (simp add: area_pages_def)
  from mmu_handler.handler_unmap_pages[OF \<open>mmu_handler M tbl\<close> pages(2)[OF al] this]
  show ?thesis unfolding pages(1)[OF al] area_unmap_def area_pages_def by blast
qed

end

section \<open>Pushing an area\<close>

lemma insert_area_ok:
  assumes "areas_ok as" "area_ok a" "\<forall>b \<in> set as. end_addr b \<le> start_addr a \<or> end_addr a \<le> start_addr b"
  shows "areas_ok (vec_insert (insert_index (start_addr a) as) a as)"
  using assms
proof (induction as)
  case Nil
  then show ?case by (simp add: vec_insert_def areas_ok_def)
next
  case (Cons b as)
  show ?case
  proof (cases "start_addr a < start_addr b")
    case True
    moreover have "start_addr b < end_addr b" using Cons.prems(1) by (simp add: areas_ok_def area_ok_def)
    ultimately have "end_addr a \<le> start_addr b" using Cons.prems(3) by auto
    moreover have "start_addr b \<le> start_addr c" if "c \<in> set as" for c
      using that \<open>start_addr b < end_addr b\<close> Cons.prems(1) by (force simp: areas_ok_def)
    ultimately show ?thesis using True Cons.prems by (force simp: vec_insert_def areas_ok_def)
  next
    case False
    have "start_addr a < end_addr a" using Cons.prems(2) by (simp add: area_ok_def)
    with False Cons.prems(3) have "end_addr b \<le> start_addr a" by auto
    moreover have "areas_ok (vec_insert (insert_index (start_addr a) as) a as)"
      using Cons by (simp add: areas_ok_def)
    moreover have "set (vec_insert i a as) \<subseteq> insert a (set as)" for i
      by (auto simp: vec_insert_def dest: in_set_takeD in_set_dropD)
    ultimately show ?thesis using False Cons.prems(1) by (fastforce simp: vec_insert_def areas_ok_def)
  qed
qed

lemma set_vec_insert [simp]: "set (vec_insert i a as) = insert a (set as)"
proof -
  have "set (vec_insert i a as) = insert a (set (take i as @ drop i as))" 
    by (simp only: vec_insert_def set_append list.set Un_insert_right)
  then show ?thesis by simp
qed

lemma find_area_at:
  assumes "areas_ok as" "a \<in> set as" "area_contains a x"
  shows "find (\<lambda>a. area_contains a x) as = Some a"
  using assms
proof (induction as)
  case (Cons b as)
  show ?case
  proof (cases "a = b")
    case False
    then have "a \<in> set as" using Cons.prems by simp
    moreover from this have "end_addr b \<le> start_addr a" using Cons.prems(1) by (simp add: areas_ok_def)
    then have "\<not> area_contains b x" using Cons.prems(3) by (auto simp: area_contains_def)
    ultimately show ?thesis using Cons by (simp add: areas_ok_def)
  qed (use Cons.prems in simp)
qed simp

lemma area_at_Some:
  assumes "areas_ok as"
  shows "area_at as x = Some d \<longleftrightarrow>
    (\<exists>a \<in> set as. area_contains a x \<and> d = (area_attr a, area_handler a, area_name a))"
proof
  assume "area_at as x = Some d"
  then show "\<exists>a \<in> set as. area_contains a x \<and> d = (area_attr a, area_handler a, area_name a)"
    by (auto simp: area_at_def find_Some_iff intro: bexI[OF _ nth_mem])
qed (auto simp: area_at_def find_area_at[OF assms])

lemma areas_pages_disjoint:
  assumes "area_ok a" "area_ok b" "end_addr a \<le> start_addr b"
  shows "area_pages a \<inter> area_pages b = {}"
  using assms aligned_le[of "end_addr a" "start_addr b"] by (auto simp: area_pages_def pages_between_def area_ok_def)

lemma backed_insert:
  assumes "backed M as t" "area_pages a \<inter> \<Union> (area_pages ` set as) = {}"
    "\<forall>p. p \<notin> area_pages a \<longrightarrow> t' p = t p" "\<forall>p \<in> area_pages a. \<exists>e. t' p = Some e \<and> handler_ok M (area_handler a) e"
    "set as' = insert a (set as)"
  shows "backed M as' t'"
proof -
  have "dom t' = area_pages a \<union> dom t - {p. p \<in> area_pages a \<and> t' p = None}"
    using assms(3,4) by (auto simp: dom_def)
  also have "\<dots> = \<Union> (area_pages ` set as')" using assms by (auto simp: backed_def)
  finally have d: "dom t' = \<Union> (area_pages ` set as')" .
  have "\<exists>e. t' p = Some e \<and> handler_ok M (area_handler b) e" if "b \<in> set as" "p \<in> area_pages b" for b p
  proof -
    have "p \<notin> area_pages a" using that assms(2) by blast
    then show ?thesis using that assms(1,3) by (auto simp: backed_def)
  qed
  with d assms(4,5) show ?thesis by (auto simp: backed_def)
qed


lemma free_area_at:
  assumes "areas_ok as" "aligned s" "aligned e" "s < e"
  shows "test_free_area as s e \<longleftrightarrow> (\<forall>x. s \<le> x \<and> x < e \<longrightarrow> area_at as x = None)"
proof
  assume "test_free_area as s e"
  then have free: "\<forall>a \<in> set as. end_addr a \<le> s \<or> e \<le> start_addr a" using test_free_area_iff[OF assms] by simp
  have "\<not> area_contains a x" if "s \<le> x" "x < e" "a \<in> set as" for a x
    using free that by (auto simp: area_contains_def)
  then show "\<forall>x. s \<le> x \<and> x < e \<longrightarrow> area_at as x = None"
    by (auto simp: area_at_def find_None_iff)
next
  assume none: "\<forall>x. s \<le> x \<and> x < e \<longrightarrow> area_at as x = None"
  have "end_addr a \<le> s \<or> e \<le> start_addr a" if a: "a \<in> set as" for a
  proof (rule ccontr)
    assume "\<not> (end_addr a \<le> s \<or> e \<le> start_addr a)"
    moreover have "start_addr a < end_addr a" using a assms(1) by (auto simp: areas_ok_def area_ok_def)
    ultimately have "area_contains a (max s (start_addr a))" "s \<le> max s (start_addr a)" "max s (start_addr a) < e"
      using assms(4) by (auto simp: area_contains_def)
    with none a show False by (auto simp: area_at_def find_None_iff)
  qed
  then show "test_free_area as s e" using test_free_area_iff[OF assms] by simp
qed

lemma area_at_insert:
  assumes "areas_ok as'" "areas_ok as" "set as' = insert a (set as)"
  shows "area_at as' x = (if area_contains a x then Some (area_attr a, area_handler a, area_name a) else area_at as x)"
proof (cases "area_contains a x")
  case True
  then show ?thesis using area_at_Some[OF assms(1), of x] assms(3) by auto
next
  case False
  then have "area_at as' x = Some d \<longleftrightarrow> area_at as x = Some d" for d
    using area_at_Some[OF assms(1)] area_at_Some[OF assms(2)] assms(3) by auto
  with False show ?thesis by (metis option.exhaust)
qed

context mmu_env
begin

lemma ms_push_free:
  fixes attr h name
  assumes "ms_ok M tbl ms" "s < e" "unat e + 4095 < 2 ^ 64"
    and "\<forall>x. page_down s \<le> x \<and> x < page_up e \<longrightarrow> area_at (areas ms) x = None"
  defines "a \<equiv> \<lparr>start_addr = page_down s, end_addr = page_up e, area_attr = attr, area_handler = h, area_name = name\<rparr>"
  shows "\<exists>ms'. ms_push M s e attr h name ms = Inr ms' \<and> ms_ok M tbl ms' \<and>
    (\<forall>x. area_at (areas ms') x = (if page_down s \<le> x \<and> x < page_up e then Some (attr, h, name) else area_at (areas ms) x)) \<and>
    area_ok a \<and> (\<forall>p \<in> area_pages a. tbl (table (space ms)) p = None) \<and> area_map M a (space ms) = Inr (space ms')"
proof -
  let ?s = "page_down s" and ?e = "page_up e"
  have al: "aligned ?s" "aligned ?e" using aligned_page_up[OF assms(3)] by simp_all
  have lt: "?s < ?e" using assms(2) unat_page_up[OF assms(3)]
    by (simp add: word_less_nat_alt unat_page_down)
  have ok: "areas_ok (areas ms)" "backed M (areas ms) (tbl (table (space ms)))" using assms(1) by (simp_all add: ms_ok_def)
  have a: "area_ok a" using al lt by (simp add: area_ok_def a_def)
  have True: "test_free_area (areas ms) ?s ?e" using free_area_at[OF ok(1) al lt] assms(4) by simp
  then have dis: "\<forall>b \<in> set (areas ms). end_addr b \<le> start_addr a \<or> end_addr a \<le> start_addr b"
    using test_free_area_iff[OF ok(1) al lt] by (simp add: a_def)
  then have pd: "area_pages a \<inter> \<Union> (area_pages ` set (areas ms)) = {}"
    using ok(1) areas_pages_disjoint[OF a] areas_pages_disjoint[OF _ a] by (fastforce simp: areas_ok_def)
  have un: "p \<notin> dom (tbl (table (space ms)))" if "p \<in> area_pages a" for p
    using that pd ok(2) unfolding backed_def by blast
  then obtain sp where sp: "area_map M a (space ms) = Inr sp"
    "\<forall>p. p \<notin> area_pages a \<longrightarrow> tbl (table sp) p = tbl (table (space ms)) p"
    "\<forall>p \<in> area_pages a. \<exists>e. tbl (table sp) p = Some e \<and> handler_ok M (area_handler a) e"
    using area_map_ok[OF a, of "space ms"] by (auto simp: domIff)
  define as' where "as' = vec_insert (insert_index ?s (areas ms)) a (areas ms)"
  have sa: "set as' = insert a (set (areas ms))" by (simp add: as'_def)
  have ok': "areas_ok as'" using insert_area_ok[OF ok(1) a dis] by (simp add: as'_def a_def)
  have "backed M as' (tbl (table sp))" by (rule backed_insert[OF ok(2) pd sp(2,3) sa])
  moreover have "ms_push M s e attr h name ms = Inr \<lparr>areas = as', space = sp\<rparr>"
    using assms(2) lt True sp(1) by (simp add: ms_push_def Let_def as'_def a_def not_le)
  moreover have "area_at as' x = (if ?s \<le> x \<and> x < ?e then Some (attr, h, name) else area_at (areas ms) x)" for x
    using area_at_insert[OF ok' ok(1) sa] by (simp add: area_contains_def) (auto simp: a_def)
  ultimately show ?thesis using a ok' un sp(1) by (auto simp: ms_ok_def domIff)
qed

end


section \<open>Removing a range\<close>

text \<open>What is left of an area when an aligned range is taken out of it, and the part that goes.\<close>

definition cut :: "VirtAddr \<Rightarrow> VirtAddr \<Rightarrow> MemoryArea \<Rightarrow> MemoryArea list" where
  "cut s e a =
     (if is_overlap_with a s e
      then (if start_addr a < s then [a\<lparr>end_addr := s\<rparr>] else []) @ (if e < end_addr a then [a\<lparr>start_addr := e\<rparr>] else [])
      else [a])"

definition dead :: "VirtAddr \<Rightarrow> VirtAddr \<Rightarrow> MemoryArea \<Rightarrow> MemoryArea" where
  "dead s e a = a\<lparr>start_addr := max (start_addr a) s, end_addr := min (end_addr a) e\<rparr>"

lemma vec_at_length [simp]:
  "(as @ a # bs) ! length as = a" "vec_remove (length as) (as @ a # bs) = as @ bs"
  "vec_insert (length as) b (as @ bs) = as @ b # bs"
  "vec_insert (Suc (length as)) b (as @ c # bs) = as @ c # b # bs"
  by (simp_all add: vec_remove_def vec_insert_def)

lemma pop_split_step:
  assumes "area_ok a" "aligned s" "aligned e" "s < e"
  shows "pop_split_loop M s e (length xs) (xs @ a # as) sp =
    (if is_overlap_with a s e
     then bindE (area_unmap M (dead s e a) sp)
       (\<lambda>sp. pop_split_loop M s e (length (xs @ cut s e a)) ((xs @ cut s e a) @ as) sp)
     else pop_split_loop M s e (length (xs @ cut s e a)) ((xs @ cut s e a) @ as) sp)"
proof (cases "is_overlap_with a s e")
  case False
  then show ?thesis by (subst pop_split_loop.simps) (simp add: cut_def)
next
  case True
  then have o: "start_addr a < e" "s < end_addr a" using is_overlap_aligned[OF assms] by simp_all
  consider "start_addr a \<ge> s" "end_addr a \<le> e" | "start_addr a \<ge> s" "e < end_addr a"
    | "start_addr a < s" "end_addr a \<le> e" | "start_addr a < s" "e < end_addr a" by force
  then show ?thesis
  proof cases
    case 1
    then have "dead s e a = a" "cut s e a = []" using True by (simp_all add: dead_def cut_def max_absorb1 min_absorb1 not_less)
    then show ?thesis using True 1 by (subst pop_split_loop.simps) (simp add: Let_def)
  next
    case 2
    then have "dead s e a = a\<lparr>end_addr := e\<rparr>" "cut s e a = [a\<lparr>start_addr := e\<rparr>]"
      using True by (simp_all add: dead_def cut_def max_absorb1 min_absorb2 not_less)
    then show ?thesis using True 2(1) 2(2)[folded not_le] o by (subst pop_split_loop.simps) (simp add: Let_def)
  next
    case 3
    then have "dead s e a = a\<lparr>start_addr := s\<rparr>" "cut s e a = [a\<lparr>end_addr := s\<rparr>]"
      using True by (simp_all add: dead_def cut_def max_absorb2 min_absorb1 not_less)
    then show ?thesis using True 3(1)[folded not_le] 3(2) o by (subst pop_split_loop.simps) (simp add: Let_def)
  next
    case 4
    then have "dead s e a = a\<lparr>start_addr := s, end_addr := e\<rparr>"
        "cut s e a = [a\<lparr>end_addr := s\<rparr>, a\<lparr>start_addr := e\<rparr>]"
      using True by (simp_all add: dead_def cut_def max_absorb2 min_absorb2)
    then show ?thesis using True 4(1)[folded not_le] 4(2)[folded not_le] o by (subst pop_split_loop.simps) (simp add: Let_def)
  qed
qed

lemma dead_pages:
  assumes "area_ok a" "aligned s" "aligned e" "s < e"
  shows "is_overlap_with a s e \<Longrightarrow> area_ok (dead s e a)"
    "is_overlap_with a s e \<Longrightarrow> area_pages (dead s e a) = area_pages a \<inter> pages_between s e"
    "\<not> is_overlap_with a s e \<Longrightarrow> area_pages a \<inter> pages_between s e = {}"
proof -
  have al: "aligned (start_addr a)" "aligned (end_addr a)" "start_addr a < end_addr a"
    using assms(1) by (simp_all add: area_ok_def)
  note int = pages_between_Int[OF al(1,2) assms(2,3)]
  show "area_ok (dead s e a)" if "is_overlap_with a s e"
    using that is_overlap_aligned[OF assms] al assms by (auto simp: area_ok_def dead_def aligned_max aligned_min)
  show "area_pages (dead s e a) = area_pages a \<inter> pages_between s e" if "is_overlap_with a s e"
    using int by (simp add: area_pages_def dead_def)
  show "area_pages a \<inter> pages_between s e = {}" if "\<not> is_overlap_with a s e"
    using that is_overlap_aligned[OF assms] aligned_less[OF al(1) assms(3)] aligned_less[OF assms(2) al(2)]
    by (auto simp: area_pages_def pages_between_def)
qed

context mmu_env
begin

lemma pop_split_loop_ok:
  assumes "aligned s" "aligned e" "s < e"
  shows "areas_ok as \<Longrightarrow> (\<And>a p. a \<in> set as \<Longrightarrow> p \<in> area_pages a \<Longrightarrow> \<exists>en. tbl (table sp) p = Some en \<and> handler_ok M (area_handler a) en) \<Longrightarrow>
    \<exists>sp'. pop_split_loop M s e (length xs) (xs @ as) sp = Inr (xs @ concat (map (cut s e) as), sp') \<and>
      tbl (table sp') = (\<lambda>p. if p \<in> pages_between s e \<inter> \<Union> (area_pages ` set as) then None else tbl (table sp) p)"
proof (induction as arbitrary: xs sp)
  case Nil
  then show ?case by (simp add: pop_split_loop.simps[of _ _ _ "length xs"])
next
  case (Cons a as)
  have a: "area_ok a" and ok: "areas_ok as" using Cons.prems(1) by (simp_all add: areas_ok_def)
  have dis: "area_pages a \<inter> area_pages b = {}" if "b \<in> set as" for b
    using that Cons.prems(1) by (intro areas_pages_disjoint) (auto simp: areas_ok_def)
  note step = pop_split_step[OF a assms, of M xs as] and dp = dead_pages[OF a assms]
  show ?case
  proof (cases "is_overlap_with a s e")
    case True
    have "\<exists>en. tbl (table sp) p = Some en \<and> handler_ok M (area_handler (dead s e a)) en"
      if "p \<in> area_pages (dead s e a)" for p
      using that Cons.prems(2)[of a p] dp(2)[OF True] by (simp add: dead_def)
    then obtain sp1 where sp1: "area_unmap M (dead s e a) sp = Inr sp1"
      "tbl (table sp1) = (\<lambda>p. if p \<in> area_pages (dead s e a) then None else tbl (table sp) p)"
      using area_unmap_ok[OF dp(1)[OF True], of sp] by blast
    have "\<exists>en. tbl (table sp1) p = Some en \<and> handler_ok M (area_handler b) en" if "b \<in> set as" "p \<in> area_pages b" for b p
      using that Cons.prems(2)[of b p] dis[of b] dp(2)[OF True] sp1(2) by auto
    from Cons.IH[OF ok this, of "xs @ cut s e a"] obtain sp2 where
      "pop_split_loop M s e (length (xs @ cut s e a)) ((xs @ cut s e a) @ as) sp1 =
         Inr ((xs @ cut s e a) @ concat (map (cut s e) as), sp2)"
      "tbl (table sp2) = (\<lambda>p. if p \<in> pages_between s e \<inter> \<Union> (area_pages ` set as) then None else tbl (table sp1) p)"
      by blast
    with step True sp1 dp(2)[OF True] show ?thesis by (auto simp: fun_eq_iff)
  next
    case False
    from Cons.IH[OF ok Cons.prems(2), of "xs @ cut s e a"] obtain sp2 where
      "pop_split_loop M s e (length (xs @ cut s e a)) ((xs @ cut s e a) @ as) sp =
         Inr ((xs @ cut s e a) @ concat (map (cut s e) as), sp2)"
      "tbl (table sp2) = (\<lambda>p. if p \<in> pages_between s e \<inter> \<Union> (area_pages ` set as) then None else tbl (table sp) p)"
      by fastforce
    with step False dp(3)[OF False] show ?thesis by (auto simp: fun_eq_iff)
  qed
qed

end


lemma cut_within:
  assumes "area_ok a" "aligned s" "aligned e" "s < e" "c \<in> set (cut s e a)"
  shows "area_ok c" "start_addr a \<le> start_addr c" "end_addr c \<le> end_addr a"
    "area_pages c \<subseteq> area_pages a" "area_handler c = area_handler a"
proof -
  have al: "aligned (start_addr a)" "aligned (end_addr a)" "start_addr a < end_addr a"
    using assms(1) by (simp_all add: area_ok_def)
  show ok: "area_ok c" and le: "start_addr a \<le> start_addr c" "end_addr c \<le> end_addr a"
    using assms(2-5) al is_overlap_aligned[OF assms(1-4)] by (auto simp: cut_def area_ok_def split: if_splits)
  show "area_pages c \<subseteq> area_pages a"
    using le ok al aligned_le[of "start_addr a" "start_addr c"] aligned_le[of "end_addr c" "end_addr a"]
    by (auto simp: area_pages_def pages_between_def area_ok_def)
  show "area_handler c = area_handler a" using assms(5) by (auto simp: cut_def split: if_splits)
qed

lemma cut_pages:
  assumes "area_ok a" "aligned s" "aligned e" "s < e"
  shows "\<Union> (area_pages ` set (cut s e a)) = area_pages a - pages_between s e"
proof -
  have al: "aligned (start_addr a)" "aligned (end_addr a)" "start_addr a < end_addr a"
    using assms(1) by (simp_all add: area_ok_def)
  show ?thesis
  proof (cases "is_overlap_with a s e")
    case True
    have n: "pg s < pg e" using aligned_less[OF assms(2,3)] assms(4) by simp
    show ?thesis
      using True is_overlap_aligned[OF assms] n aligned_less[OF al(1) assms(2)] aligned_less[OF assms(3) al(2)]
        aligned_less[OF al(1) assms(3)] aligned_less[OF assms(2) al(2)]
      by (auto simp: cut_def area_pages_def pages_between_def)
  next
    case False
    then show ?thesis using dead_pages(3)[OF assms] by (auto simp: cut_def)
  qed
qed

lemma cuts_ok:
  assumes "aligned s" "aligned e" "s < e" "areas_ok as"
  shows "areas_ok (concat (map (cut s e) as))"
  using assms(4)
proof (induction as)
  case (Cons a as)
  have a: "area_ok a" using Cons.prems by (simp add: areas_ok_def)
  have "end_addr c \<le> start_addr d" if "c \<in> set (cut s e a)" "b \<in> set as" "d \<in> set (cut s e b)" for b c d
  proof -
    have "area_ok b" "end_addr a \<le> start_addr b" using that(2) Cons.prems by (simp_all add: areas_ok_def)
    then show ?thesis
      using cut_within(3)[OF a assms(1-3) that(1)] cut_within(2)[OF _ assms(1-3) that(3)] by (meson order_trans)
  qed
  moreover have "sorted_wrt (\<lambda>a b. end_addr a \<le> start_addr b) (cut s e a)"
    using assms(3) by (auto simp: cut_def)
  ultimately show ?case
    using Cons cut_within(1)[OF a assms(1-3)] by (auto simp: areas_ok_def sorted_wrt_append)
qed (simp add: areas_ok_def)

lemma cut_contains:
  assumes "area_ok a" "aligned s" "aligned e" "s < e"
  shows "area_at (cut s e a) x =
    (if area_contains a x \<and> \<not> (s \<le> x \<and> x < e) then Some (area_attr a, area_handler a, area_name a) else None)"
  using is_overlap_aligned[OF assms] assms(4) by (auto simp: cut_def area_at_Cons area_contains_def)

lemma cuts_contain:
  assumes "aligned s" "aligned e" "s < e" "areas_ok as"
  shows "area_at (concat (map (cut s e) as)) x = (if s \<le> x \<and> x < e then None else area_at as x)"
  using assms(4)
  by (induction as) (auto simp: areas_ok_def area_at_append cut_contains[OF _ assms(1-3)] area_at_Cons split: option.splits)

text \<open>C3: unmapping an aligned range always succeeds and removes exactly that range: every address in it
  is free afterwards and its pages are no longer mapped; every other address keeps its attributes,
  handler and page table entry, whichever areas had to be shrunk, split or dropped. The areas stay
  aligned, sorted, disjoint and backed by the page table.\<close>
theorem pop_with_split_exact:
  assumes "mmu_laws M tbl" "ms_ok M tbl ms" "aligned s" "aligned e" "s < e"
  shows "\<exists>ms'. pop_with_split M s e ms = Inr ms' \<and> ms_ok M tbl ms' \<and>
    (\<forall>x. area_at (areas ms') x = (if s \<le> x \<and> x < e then None else area_at (areas ms) x)) \<and>
    (\<forall>p. tbl (table (space ms')) p = (if p \<in> pages_between s e then None else tbl (table (space ms)) p))"
proof -
  have env: "mmu_env M tbl" by unfold_locales (fact assms(1))
  let ?t = "tbl (table (space ms))" and ?as = "concat (map (cut s e) (areas ms))"
  have ok: "areas_ok (areas ms)" and b: "backed M (areas ms) ?t" using assms(2) by (simp_all add: ms_ok_def)
  obtain sp where sp: "pop_split_loop M s e (length []) ([] @ areas ms) (space ms) = Inr ([] @ ?as, sp)"
    "tbl (table sp) = (\<lambda>p. if p \<in> pages_between s e \<inter> \<Union> (area_pages ` set (areas ms)) then None else ?t p)"
    using mmu_env.pop_split_loop_ok[OF env assms(3-5) ok, of "space ms" "[]"] b by (auto simp: backed_def)
  have t: "tbl (table sp) p = (if p \<in> pages_between s e then None else ?t p)" for p
    using b unfolding sp(2) backed_def by (auto simp: domIff)
  have "\<Union> (area_pages ` set ?as) = \<Union> (area_pages ` set (areas ms)) - pages_between s e"
    using ok cut_pages[OF _ assms(3-5)] by (auto simp: areas_ok_def)
  then have d: "dom (tbl (table sp)) = \<Union> (area_pages ` set ?as)"
    using b t by (auto simp: backed_def dom_def split: if_splits)
  have "\<exists>en. tbl (table sp) p = Some en \<and> handler_ok M (area_handler c) en" if c: "c \<in> set ?as" "p \<in> area_pages c" for c p
  proof -
    from c(1) obtain a where a: "a \<in> set (areas ms)" "c \<in> set (cut s e a)" by auto
    then have aok: "area_ok a" using ok by (simp add: areas_ok_def)
    have "p \<in> dom (tbl (table sp))" unfolding d using c by blast
    then have "tbl (table sp) p = ?t p" using t[of p] by (auto split: if_splits)
    moreover have "p \<in> area_pages a" using cut_within(4)[OF aok assms(3-5) a(2)] c(2) by blast
    ultimately show ?thesis using b a(1) cut_within(5)[OF aok assms(3-5) a(2)] by (auto simp: backed_def)
  qed
  with d have "backed M ?as (tbl (table sp))" by (simp add: backed_def)
  moreover have "pop_with_split M s e ms = Inr \<lparr>areas = ?as, space = sp\<rparr>"
    using sp(1) assms(5) by (simp add: pop_with_split_def less_imp_le)
  ultimately show ?thesis
    using cuts_ok[OF assms(3-5) ok] cuts_contain[OF assms(3-5) ok] t by (simp add: ms_ok_def)
qed


text \<open>A small address space: pages 1 to 3 in a demand-paged area.\<close>

definition demo_area :: MemoryArea where
  "demo_area = \<lparr>start_addr = 0x1000, end_addr = 0x4000, area_attr = attr_user MemoryAttr_default,
     area_handler = Delay, area_name = ''heap''\<rparr>"

definition demo_set :: "((Page \<rightharpoonup> u64), usize) MemorySet" where
  "demo_set = \<lparr>areas = [demo_area],
     space = \<lparr>table = [Page 1 \<mapsto> 0, Page 2 \<mapsto> 0, Page 3 \<mapsto> 0], frames = 7, ram = (\<lambda>_. 0)\<rparr>\<rparr>"

lemma demo_pages: "area_pages demo_area = {Page 1, Page 2, Page 3}"
proof -
  have "{Suc 0 ..< 4} = {1, 2, 3}" by auto
  then have "set (page_list (range_of 0x1000 0x4000)) = {Page 1, Page 2, Page 3}"
    by (simp add: page_list_range_of)
  then show ?thesis
    using page_list_between(1)[of "0x1000" "0x4000"] by (simp add: area_pages_def demo_area_def aligned_def)
qed

lemma demo_ok: "ms_ok map_mmu (\<lambda>pt. pt) demo_set"
proof -
  have "area_ok demo_area" by (simp add: area_ok_def demo_area_def aligned_def)
  then show ?thesis
    by (auto simp: ms_ok_def demo_set_def areas_ok_def backed_def demo_pages) (simp add: demo_area_def)+
qed


theorem pop_with_split_exact_witness:
  "\<exists>ms'. pop_with_split map_mmu 0x2000 0x3000 demo_set = Inr ms' \<and> area_at (areas ms') 0x2fff = None \<and>
     area_at (areas ms') 0x1fff \<noteq> None \<and> area_at (areas ms') 0x3000 \<noteq> None \<and>
     table (space ms') (Page 2) = None \<and> table (space ms') (Page 3) = Some 0"
proof -
  have "aligned 0x2000" "aligned 0x3000" by (simp_all add: aligned_def)
  from pop_with_split_exact[OF map_mmu_laws demo_ok this] obtain ms' where
    "pop_with_split map_mmu 0x2000 0x3000 demo_set = Inr ms'"
    "\<forall>x. area_at (areas ms') x = (if 0x2000 \<le> x \<and> x < 0x3000 then None else area_at (areas demo_set) x)"
    "\<forall>p. table (space ms') p = (if p \<in> pages_between 0x2000 0x3000 then None else table (space demo_set) p)"
    by auto
  then show ?thesis
    by (intro exI[of _ ms']) (simp add: pages_between_def demo_set_def demo_area_def area_at_Cons area_contains_def)
qed


section \<open>Checking user pointers\<close>

fun sum_reaches :: "('a \<Rightarrow> usize) \<Rightarrow> usize \<Rightarrow> usize \<Rightarrow> 'a list \<Rightarrow> bool" where
  "sum_reaches f n v [] = False"
| "sum_reaches f n v (a # as) = (v + f a = n \<or> sum_reaches f n (v + f a) as)"

lemma check_loops:
  "check_read_loop sz ptr count v as = sum_reaches (\<lambda>a. area_check_read_array sz a ptr count) (sz * count) v as"
  "check_write_loop sz ptr count v as = sum_reaches (\<lambda>a. area_check_write_array sz a ptr count) (sz * count) v as"
  by (induction as arbitrary: v) (simp_all add: Let_def)

lemma sum_reaches_iff:
  "unat v + (\<Sum>a \<leftarrow> as. unat (f a)) \<le> unat n \<Longrightarrow>
   sum_reaches f n v as \<longleftrightarrow> as \<noteq> [] \<and> unat v + (\<Sum>a \<leftarrow> as. unat (f a)) = unat n"
proof (induction as arbitrary: v)
  case (Cons a as)
  have "unat v + unat (f a) < 2 ^ 64" using Cons.prems unat_lt_64[of n] by simp
  then have s: "unat (v + f a) = unat v + unat (f a)" by (intro unat_add_no_wrap) simp
  then have le: "unat (v + f a) + (\<Sum>a \<leftarrow> as. unat (f a)) \<le> unat n" using Cons.prems by simp
  show ?case
  proof (cases "v + f a = n")
    case True
    then have "unat v + unat (f a) = unat n" using s by simp
    then show ?thesis using True Cons.prems by simp
  next
    case False
    then have "unat v + unat (f a) \<noteq> unat n" using s by (simp add: word_unat_eq_iff)
    then show ?thesis using Cons.IH[OF le] False s by (cases as) auto
  qed
qed simp

text \<open>The addresses of an area, and of an array of \<open>n\<close> bytes, as sets of numbers.\<close>

abbreviation area_bytes :: "MemoryArea \<Rightarrow> nat set" where
  "area_bytes a \<equiv> {unat (start_addr a) ..< unat (end_addr a)}"

lemma area_check_read_card:
  assumes "area_ok a" "unat ptr + unat (sz * count) < 2 ^ 64"
  shows "unat (area_check_read_array sz a ptr count) =
    card ({unat ptr ..< unat ptr + unat (sz * count)} \<inter> area_bytes a)"
proof -
  have al: "aligned (start_addr a)" "aligned (end_addr a)" using assms(1) by (simp_all add: area_ok_def)
  have s: "start_address (of_addr (start_addr a)) = start_addr a"
    using aligned_unat[OF al(1)] by (simp add: start_address_of_addr word_unat_eq_iff unat_page_down)
  have "page_up (end_addr a) = page_down (end_addr a + PAGE_SIZE - 1)"
    by (simp add: page_up_def page_down_def)
  then have e: "start_address (of_addr (end_addr a + PAGE_SIZE - 1)) = end_addr a"
    using page_up_aligned[OF al(2)] by (simp add: start_address_of_addr)
  have p: "unat (ptr + sz * count) = unat ptr + unat (sz * count)" using assms(2) by (intro unat_add_no_wrap) simp
  let ?lo = "max ptr (start_addr a)" and ?hi = "min (ptr + sz * count) (end_addr a)"
  have lohi: "unat ?lo = max (unat ptr) (unat (start_addr a))"
    "unat ?hi = min (unat ptr + unat (sz * count)) (unat (end_addr a))"
    using p by (simp_all add: max_def min_def word_le_nat_alt)
  have "{unat ptr ..< unat ptr + unat (sz * count)} \<inter> area_bytes a = {unat ?lo ..< unat ?hi}"
    unfolding lohi by auto
  moreover have "unat (if ?hi \<ge> ?lo then ?hi - ?lo else 0) = unat ?hi - unat ?lo"
    by (simp add: unat_sub_no_wrap word_le_nat_alt)
  ultimately show ?thesis unfolding area_check_read_array_def Let_def s e by simp
qed

lemma covered_sum:
  assumes "areas_ok as" "finite B"
  shows "(\<Sum>a \<leftarrow> as. if P a then card (B \<inter> area_bytes a) else 0) = card (B \<inter> \<Union> (area_bytes ` {a \<in> set as. P a}))"
  using assms(1)
proof (induction as)
  case (Cons a as)
  then have IH: "(\<Sum>a \<leftarrow> as. if P a then card (B \<inter> area_bytes a) else 0) = card (B \<inter> \<Union> (area_bytes ` {a \<in> set as. P a}))"
    by (simp add: areas_ok_def)
  have "area_bytes a \<inter> area_bytes b = {}" if "b \<in> set as" for b
    using that Cons.prems by (auto simp: areas_ok_def word_le_nat_alt)
  then have dis: "(B \<inter> area_bytes a) \<inter> (B \<inter> \<Union> (area_bytes ` {a \<in> set as. P a})) = {}" by blast
  have "B \<inter> \<Union> (area_bytes ` {b \<in> set (a # as). P b}) =
      (if P a then B \<inter> area_bytes a else {}) \<union> (B \<inter> \<Union> (area_bytes ` {a \<in> set as. P a}))" by auto
  then show ?case using IH card_Un_disjoint[OF _ _ dis] assms(2) by simp
qed simp

lemma sum_reaches_covered:
  assumes "areas_ok as" "unat ptr + unat (sz * count) < 2 ^ 64"
    "\<And>a. area_ok a \<Longrightarrow> unat (f a) = (if P a then card ({unat ptr ..< unat ptr + unat (sz * count)} \<inter> area_bytes a) else 0)"
  shows "sum_reaches f (sz * count) 0 as \<longleftrightarrow>
    as \<noteq> [] \<and> {unat ptr ..< unat ptr + unat (sz * count)} \<subseteq> \<Union> (area_bytes ` {a \<in> set as. P a})"
proof -
  let ?B = "{unat ptr ..< unat ptr + unat (sz * count)}"
  have "(\<Sum>a \<leftarrow> as. unat (f a)) = (\<Sum>a \<leftarrow> as. if P a then card (?B \<inter> area_bytes a) else 0)"
    using assms(1,3) by (intro arg_cong[of _ _ sum_list] map_cong) (auto simp: areas_ok_def)
  also have "\<dots> = card (?B \<inter> \<Union> (area_bytes ` {a \<in> set as. P a}))" by (rule covered_sum[OF assms(1)]) simp
  finally have sum: "(\<Sum>a \<leftarrow> as. unat (f a)) = card (?B \<inter> \<Union> (area_bytes ` {a \<in> set as. P a}))" .
  have c: "card ?B = unat (sz * count)" by simp
  have "card (?B \<inter> \<Union> (area_bytes ` {a \<in> set as. P a})) \<le> card ?B" by (intro card_mono) auto
  moreover have "card (?B \<inter> \<Union> (area_bytes ` {a \<in> set as. P a})) = card ?B \<longleftrightarrow> ?B \<subseteq> \<Union> (area_bytes ` {a \<in> set as. P a})"
  proof
    assume "card (?B \<inter> \<Union> (area_bytes ` {a \<in> set as. P a})) = card ?B"
    then have "?B \<inter> \<Union> (area_bytes ` {a \<in> set as. P a}) = ?B" by (intro card_subset_eq) auto
    then show "?B \<subseteq> \<Union> (area_bytes ` {a \<in> set as. P a})" by blast
  qed (simp add: Int_absorb2)
  ultimately show ?thesis using sum_reaches_iff[of 0 f as "sz * count"] sum c by simp
qed

text \<open>C10: a pointer check accepts exactly the arrays that are safe to access: when the size of the array
  does not overflow, the read check of an array of \<open>count\<close> elements of \<open>sz\<close> bytes succeeds if and only if
  every one of its bytes lies in some area, and the write check if and only if every byte lies in a
  writable area, across as many adjacent areas as it takes.\<close>
theorem check_array_exact:
  assumes "areas_ok (areas ms)" "areas ms \<noteq> []"
    and "unat ptr + unat sz * unat count < 2 ^ 64"
  shows "(check_read_array sz ms ptr count \<longleftrightarrow>
      (\<forall>x. unat ptr \<le> unat x \<and> unat x < unat ptr + unat sz * unat count \<longrightarrow> (\<exists>a \<in> set (areas ms). area_contains a x))) \<and>
    (check_write_array sz ms ptr count \<longleftrightarrow>
      (\<forall>x. unat ptr \<le> unat x \<and> unat x < unat ptr + unat sz * unat count \<longrightarrow>
         (\<exists>a \<in> set (areas ms). area_contains a x \<and> \<not> readonly (area_attr a))))"
proof -
  have n: "unat (sz * count) = unat sz * unat count" using assms(3) by (intro unat_mult_no_wrap) simp
  have cover: "{unat ptr ..< unat ptr + unat (sz * count)} \<subseteq> \<Union> (area_bytes ` {a \<in> set (areas ms). P a}) \<longleftrightarrow>
      (\<forall>x. unat ptr \<le> unat x \<and> unat x < unat ptr + unat sz * unat count \<longrightarrow> (\<exists>a \<in> set (areas ms). area_contains a x \<and> P a))" for P
  proof
    assume "{unat ptr ..< unat ptr + unat (sz * count)} \<subseteq> \<Union> (area_bytes ` {a \<in> set (areas ms). P a})"
    then show "\<forall>x. unat ptr \<le> unat x \<and> unat x < unat ptr + unat sz * unat count \<longrightarrow> (\<exists>a \<in> set (areas ms). area_contains a x \<and> P a)"
      unfolding n area_contains_def word_le_nat_alt word_less_nat_alt by fastforce
  next
    assume all: "\<forall>x. unat ptr \<le> unat x \<and> unat x < unat ptr + unat sz * unat count \<longrightarrow> (\<exists>a \<in> set (areas ms). area_contains a x \<and> P a)"
    show "{unat ptr ..< unat ptr + unat (sz * count)} \<subseteq> \<Union> (area_bytes ` {a \<in> set (areas ms). P a})"
    proof
      fix y assume y: "y \<in> {unat ptr ..< unat ptr + unat (sz * count)}"
      then have "unat (of_nat y :: usize) = y" using assms(3) n by (simp add: unat_of_nat)
      with y n all[rule_format, of "of_nat y"] show "y \<in> \<Union> (area_bytes ` {a \<in> set (areas ms). P a})"
        by (auto simp: area_contains_def word_le_nat_alt word_less_nat_alt)
    qed
  qed
  have b: "unat ptr + unat (sz * count) < 2 ^ 64" using assms(3) n by simp
  have "check_read_array sz ms ptr count \<longleftrightarrow>
      {unat ptr ..< unat ptr + unat (sz * count)} \<subseteq> \<Union> (area_bytes ` {a \<in> set (areas ms). True})"
    unfolding check_read_array_def check_loops using assms(2) area_check_read_card[OF _ b]
    by (subst sum_reaches_covered[OF assms(1) b, where P = "\<lambda>_. True"]) simp_all
  moreover have "check_write_array sz ms ptr count \<longleftrightarrow>
      {unat ptr ..< unat ptr + unat (sz * count)} \<subseteq> \<Union> (area_bytes ` {a \<in> set (areas ms). \<not> readonly (area_attr a)})"
    unfolding check_write_array_def check_loops using assms(2) area_check_read_card[OF _ b]
    by (subst sum_reaches_covered[OF assms(1) b, where P = "\<lambda>a. \<not> readonly (area_attr a)"])
      (simp_all add: area_check_write_array_def)
  ultimately show ?thesis using cover[of "\<lambda>_. True"] cover[of "\<lambda>a. \<not> readonly (area_attr a)"] by simp
qed


theorem check_array_exact_witness:
  "check_read_array 8 demo_set 0x1ffc 0x200 \<and> check_write_array 8 demo_set 0x1ffc 0x200 \<and>
   \<not> check_read_array 8 demo_set 0x3ffc 1"
proof -
  have ok: "areas_ok (areas demo_set)" "areas demo_set \<noteq> []" using demo_ok by (auto simp: ms_ok_def demo_set_def)
  have in_demo: "(\<exists>a \<in> set (areas demo_set). area_contains a x \<and> P a) \<longleftrightarrow> 0x1000 \<le> unat x \<and> unat x < 0x4000 \<and> P demo_area" for x P
    by (auto simp: demo_set_def demo_area_def area_contains_def word_le_nat_alt word_less_nat_alt)
  have w: "\<not> readonly (area_attr demo_area)" by (simp add: demo_area_def attr_user_def MemoryAttr_default_def)
  have "\<exists>x :: usize. 0x3ffc \<le> unat x \<and> unat x < 0x4004 \<and> \<not> unat x < 0x4000" by (intro exI[of _ "0x4000"]) simp
  then show ?thesis
    using check_array_exact[OF ok, of "0x1ffc" 8 "0x200"] check_array_exact[OF ok, of "0x3ffc" 8 1]
      in_demo[where P = "\<lambda>_. True"] in_demo[where P = "\<lambda>a. \<not> readonly (area_attr a)"] w by auto
qed

text \<open>C40: the size computation of a pointer check can overflow, and the check then accepts anything: an
  array of \<open>2 ^ 61\<close> elements of 8 bytes passes as readable and writable at every address, kernel addresses
  included, as soon as the process has a single area.\<close>
theorem check_array_overflow:
  assumes "areas ms \<noteq> []"
  shows "check_read_array 8 ms ptr (2 ^ 61) \<and> check_write_array 8 ms ptr (2 ^ 61)"
proof -
  obtain a as where as: "areas ms = a # as" using assms by (cases "areas ms") auto
  have z: "(8 :: usize) * 2 ^ 61 = 0" by simp
  have r: "area_check_read_array 8 a ptr (2 ^ 61) = 0"
    unfolding area_check_read_array_def Let_def z by (auto simp: max_def min_def split: if_splits)
  then show ?thesis
    unfolding check_read_array_def check_write_array_def as check_read_loop.simps check_write_loop.simps Let_def z
    by (simp add: area_check_write_array_def)
qed

theorem check_array_overflow_witness:
  "check_read_array 8 demo_set 0xffff000000000000 (2 ^ 61)"
  using check_array_overflow[of demo_set "0xffff000000000000"] by (simp add: demo_set_def del: One_nat_def)

section \<open>Finding a free range\<close>

lemma find_SomeD: "find P xs = Some x \<Longrightarrow> x \<in> set xs \<and> P x"
  by (induction xs) (auto split: if_splits)

lemma is_overlap_round:
  assumes "s < e" "unat e + 4095 < 2 ^ 64"
  shows "is_overlap_with a s e = is_overlap_with a (page_down s) (page_up e)"
proof -
  have d: "of_addr (page_down s) = of_addr s"
    using of_addr_start_address[OF number_of_addr_bound[of s]] by (simp only: start_address_of_addr)
  have e1: "unat (e - 1) = unat e - 1" "unat e > 0"
    using assms(1) by (auto simp: unat_sub_no_wrap word_le_nat_alt word_less_nat_alt)
  have up: "unat (page_up e) = (unat e + 4095) div 4096 * 4096" by (rule unat_page_up[OF assms(2)])
  then have "unat (page_up e) > 0" using e1(2) by simp
  then have "unat (page_up e - 1) = unat (page_up e) - 1" by (subst unat_sub_no_wrap) (auto simp: word_le_nat_alt)
  moreover have "((n + 4095) div 4096 * 4096 - 1) div 4096 = (n - 1) div 4096" if "0 < n" for n :: nat
  proof -
    define q where "q = (n - 1) div 4096"
    have "n + 4095 = (n - 1) mod 4096 + Suc q * 4096" using that by (simp add: q_def)
    then have "(n + 4095) div 4096 = Suc q" by simp
    moreover have "Suc q * 4096 - 1 = 4095 + q * 4096" by simp
    then have "(Suc q * 4096 - 1) div 4096 = q" by simp
    ultimately show ?thesis by (simp only: q_def)
  qed
  from this[OF e1(2)] have "(unat (page_up e) - 1) div 4096 = (unat e - 1) div 4096" by (simp only: up)
  ultimately have "pg (page_up e - 1) = pg (e - 1)" by (simp only: e1(1))
  then have "of_addr (page_up e - 1) = of_addr (e - 1)"
    using unat_of_addr[of "e - 1"] unat_of_addr[of "page_up e - 1"] by (metis Page.expand word_unat_eq_iff)
  with d show ?thesis by (simp add: is_overlap_with_def)
qed


lemma aligned_page_down_id: "aligned x \<Longrightarrow> page_down x = x"
  using aligned_unat[of x] by (simp add: word_unat_eq_iff unat_page_down)

lemma unat_page_up_le: "unat x + 4095 < 2 ^ 64 \<Longrightarrow> unat (page_up x) \<le> unat x + 4095 \<and> unat x \<le> unat (page_up x)"
  using div_times_less_eq_dividend[of "unat x + 4095" 4096] div_mult_mod_eq[of "unat x + 4095" 4096]
    mod_less_divisor[of 4096 "unat x + 4095"] by (simp add: unat_page_up)

text \<open>A candidate start address with room for the range behind it.\<close>

definition fits :: "VirtAddr \<Rightarrow> usize \<Rightarrow> bool" where
  "fits addr len \<longleftrightarrow> unat addr + unat len + 8192 \<le> 2 ^ 64"

lemma fits_range:
  assumes "fits addr len" "0 < len" "r = page_up addr"
  shows "aligned r" "r < r + len" "unat (r + len) + 4095 < 2 ^ 64" "addr \<le> r"
proof -
  have l: "0 < unat len" using assms(2) by (simp add: word_less_nat_alt)
  have a: "unat addr + 4095 < 2 ^ 64" using assms(1) unfolding fits_def by linarith
  note r = unat_page_up_le[OF a, folded assms(3)]
  have s: "unat (r + len) = unat r + unat len"
    using r assms(1) unfolding fits_def by (intro unat_add_no_wrap) simp
  show "aligned r" using aligned_page_up[OF a] assms(3) by simp
  show "r < r + len" using s l by (simp add: word_less_nat_alt)
  show "unat (r + len) + 4095 < 2 ^ 64" using s r assms(1) unfolding fits_def by simp
  show "addr \<le> r" using r by (simp add: word_le_nat_alt)
qed

lemma test_free_range:
  assumes "areas_ok as" "fits addr len" "0 < len" "r = page_up addr"
  shows "test_free_area as r (r + len) \<longleftrightarrow> (\<forall>x. r \<le> x \<and> x < page_up (r + len) \<longrightarrow> area_at as x = None)"
proof -
  note f = fits_range[OF assms(2-4)]
  have "test_free_area as r (r + len) = test_free_area as r (page_up (r + len))"
    using is_overlap_round[OF f(2,3)] aligned_page_down_id[OF f(1)] by (simp add: test_free_area_def)
  moreover have "r < page_up (r + len)"
    using unat_page_up_le[OF f(3)] f(2) by (simp add: word_less_nat_alt)
  ultimately show ?thesis using free_area_at[OF assms(1) f(1) aligned_page_up[OF f(3)]] by simp
qed

lemma end_of_last_free:
  assumes "areas_ok as" "as \<noteq> []" "end_addr (last as) \<le> r"
  shows "\<forall>x. r \<le> x \<longrightarrow> area_at as x = None"
proof -
  have "end_addr a \<le> end_addr (last as)" if "a \<in> set as" for a
  proof -
    have "areas_ok (butlast as @ [last as])" "a \<in> set (butlast as @ [last as])" using assms(1,2) that by simp_all
    then show ?thesis by (auto simp: areas_ok_def area_ok_def sorted_wrt_append)
  qed
  with assms(3) have "\<not> area_contains a x" if "a \<in> set as" "r \<le> x" for a x
    using that by (fastforce simp: area_contains_def)
  then show ?thesis by (auto simp: area_at_def find_None_iff)
qed

text \<open>C35: mmap finds room: with space left behind every area, \<open>find_free_area\<close> never panics; it returns a
  page-aligned address from which the requested length, rounded up to whole pages, is entirely free, and
  that is the hint itself, rounded up to a page, if the range there is free.\<close>
theorem find_free_area_free:
  assumes "ms_ok M tbl ms" "0 < len" "fits hint len" "\<forall>a \<in> set (areas ms). fits (end_addr a) len"
  shows "\<exists>r. find_free_area ms hint len = Inr r \<and> aligned r \<and>
    (\<forall>x. r \<le> x \<and> x < page_up (r + len) \<longrightarrow> area_at (areas ms) x = None) \<and>
    ((\<forall>x. page_up hint \<le> x \<and> x < page_up (page_up hint + len) \<longrightarrow> area_at (areas ms) x = None) \<longrightarrow> r = page_up hint)"
proof -
  have ok: "areas_ok (areas ms)" using assms(1) by (simp add: ms_ok_def)
  let ?cs = "map page_up (hint # map end_addr (areas ms))" and ?P = "\<lambda>addr. test_free_area (areas ms) addr (addr + len)"
  have free: "?P (page_up addr) \<longleftrightarrow> (\<forall>x. page_up addr \<le> x \<and> x < page_up (page_up addr + len) \<longrightarrow> area_at (areas ms) x = None)"
    if "addr \<in> set (hint # map end_addr (areas ms))" for addr
    using that assms test_free_range[OF ok, of addr len] by auto
  have "\<exists>addr \<in> set (hint # map end_addr (areas ms)). ?P (page_up addr)"
  proof (cases "areas ms = []")
    case False
    let ?l = "end_addr (last (areas ms))"
    have "?l \<le> page_up ?l" using False fits_range(4)[of ?l len] assms by simp
    then have "?P (page_up ?l)" using free[of ?l] end_of_last_free[OF ok False] False by simp
    with False show ?thesis by (intro bexI[of _ ?l]) auto
  qed (simp add: test_free_area_def)
  then have "find ?P ?cs \<noteq> None" unfolding find_None_iff by auto
  then obtain r where r: "find ?P ?cs = Some r" by blast
  then have "r \<in> set ?cs" "?P r" by (auto simp only: dest: find_SomeD)
  then obtain addr where a: "addr \<in> set (hint # map end_addr (areas ms))" "r = page_up addr" by auto
  then have "aligned r" using fits_range(1)[of addr len] assms by auto
  moreover have "find_free_area ms hint len = Inr r" unfolding find_free_area_def r by simp
  moreover have "\<forall>x. r \<le> x \<and> x < page_up (r + len) \<longrightarrow> area_at (areas ms) x = None"
    using free[OF a(1)] \<open>?P r\<close> unfolding a(2) by blast
  moreover have "r = page_up hint" if "?P (page_up hint)" using r that by simp
  moreover have "hint \<in> set (hint # map end_addr (areas ms))" by simp
  note free[OF this]
  ultimately show ?thesis by blast
qed

theorem find_free_area_free_witness:
  "find_free_area demo_set 0x5008 0x800 = Inr 0x6000 \<and> area_at (areas demo_set) 0x6000 = None"
proof -
  have f: "fits 0x5008 0x800" "\<forall>a \<in> set (areas demo_set). fits (end_addr a) 0x800"
    by (simp_all add: fits_def demo_set_def demo_area_def)
  have at: "area_at (areas demo_set) x = (if 0x1000 \<le> x \<and> x < 0x4000 then Some (attr_user MemoryAttr_default, Delay, ''heap'') else None)" for x
    by (simp add: demo_set_def area_at_Cons area_contains_def demo_area_def)
  have r: "page_up 0x5008 = 0x6000" "page_up (0x6000 + 0x800) = 0x7000" by (simp_all add: page_up_def PAGE_SIZE_def)
  have "\<forall>x. 0x6000 \<le> x \<and> x < 0x7000 \<longrightarrow> area_at (areas demo_set) x = None"
    unfolding at by (auto simp: word_le_nat_alt word_less_nat_alt)
  then show ?thesis using find_free_area_free[OF demo_ok _ f] unfolding r by auto
qed

section \<open>Removing a whole area, and all of them\<close>

lemma backed_remove:
  assumes "areas_ok (xs @ a # as)" "backed M (xs @ a # as) t"
  shows "backed M (xs @ as) (\<lambda>p. if p \<in> area_pages a then None else t p)"
proof -
  have ok: "area_ok a" "\<forall>b \<in> set (xs @ as). area_ok b"
    "\<forall>b \<in> set (xs @ as). end_addr b \<le> start_addr a \<or> end_addr a \<le> start_addr b"
    using assms(1) by (auto simp: areas_ok_def sorted_wrt_append)
  then have dis: "area_pages b \<inter> area_pages a = {}" if "b \<in> set (xs @ as)" for b
    using that areas_pages_disjoint[of a b] areas_pages_disjoint[of b a] by blast
  let ?t = "\<lambda>p. if p \<in> area_pages a then None else t p"
  have "dom ?t = dom t - area_pages a" by (auto split: if_splits)
  also have "\<dots> = \<Union> (area_pages ` set (xs @ as))" using assms(2) dis unfolding backed_def by auto
  finally have d: "dom ?t = \<Union> (area_pages ` set (xs @ as))" .
  have "\<exists>e. ?t p = Some e \<and> handler_ok M (area_handler b) e" if "b \<in> set (xs @ as)" "p \<in> area_pages b" for b p
  proof -
    have "p \<notin> area_pages a" using dis[OF that(1)] that(2) by blast
    then show ?thesis using assms(2) that by (auto simp: backed_def)
  qed
  with d show ?thesis unfolding backed_def by blast
qed

lemma areas_ok_remove: "areas_ok (xs @ a # as) \<Longrightarrow> areas_ok (xs @ as)"
  by (auto simp: areas_ok_def sorted_wrt_append)

lemma area_at_remove:
  assumes "areas_ok (xs @ a # as)"
  shows "area_at (xs @ as) x = (if area_contains a x then None else area_at (xs @ a # as) x)"
proof -
  have other: "\<not> area_contains b x" if "area_contains a x" "b \<in> set (xs @ as)" for b
  proof -
    have "end_addr b \<le> start_addr a \<or> end_addr a \<le> start_addr b"
      using that(2) assms by (auto simp: areas_ok_def sorted_wrt_append)
    with that(1) show ?thesis by (auto simp: area_contains_def)
  qed
  have "area_at (xs @ as) x = Some d \<longleftrightarrow> \<not> area_contains a x \<and> area_at (xs @ a # as) x = Some d" for d
    unfolding area_at_Some[OF assms] area_at_Some[OF areas_ok_remove[OF assms]]
    using other by auto
  then show ?thesis by (metis option.exhaust)
qed

lemma pop_loop_skip:
  assumes "\<And>i. i \<in> set js \<Longrightarrow> \<not> (start_addr (as ! i) = s \<and> end_addr (as ! i) = e)"
  shows "pop_loop M s e (js @ ks) as sp = pop_loop M s e ks as sp"
  using assms by (induction js) auto

context mmu_env
begin

lemma ms_pop_ok:
  assumes "ms_ok M tbl ms" "areas ms = xs @ a # as"
  shows "\<exists>ms'. ms_pop M (start_addr a) (end_addr a) ms = Inr ms' \<and> ms_ok M tbl ms' \<and> areas ms' = xs @ as \<and>
    tbl (table (space ms')) = (\<lambda>p. if p \<in> area_pages a then None else tbl (table (space ms)) p)"
proof -
  have ok: "areas_ok (xs @ a # as)" "backed M (xs @ a # as) (tbl (table (space ms)))"
    using assms by (simp_all add: ms_ok_def)
  have a: "area_ok a" using ok(1) by (simp add: areas_ok_def)
  obtain sp where sp: "area_unmap M a (space ms) = Inr sp"
    "tbl (table sp) = (\<lambda>p. if p \<in> area_pages a then None else tbl (table (space ms)) p)"
    using area_unmap_ok[OF a, of "space ms"] ok(2) by (auto simp: backed_def)
  have "\<not> (start_addr ((xs @ a # as) ! i) = start_addr a \<and> end_addr ((xs @ a # as) ! i) = end_addr a)" if "i \<in> set [0 ..< length xs]" for i
  proof -
    have "(xs @ a # as) ! i \<in> set xs" "area_ok ((xs @ a # as) ! i)"
      using that ok(1) by (auto simp: nth_append areas_ok_def)
    then show ?thesis using ok(1) by (fastforce simp: areas_ok_def area_ok_def sorted_wrt_append)
  qed
  then have skip: "pop_loop M (start_addr a) (end_addr a) ([0 ..< length xs] @ ks) (xs @ a # as) sp' =
      pop_loop M (start_addr a) (end_addr a) ks (xs @ a # as) sp'" for ks sp'
    by (rule pop_loop_skip)
  have "pop_loop M (start_addr a) (end_addr a) ([0 ..< length xs] @ [length xs ..< length (xs @ a # as)]) (xs @ a # as) (space ms) =
      Inr (xs @ as, sp)" unfolding skip using sp(1) by (simp add: upt_conv_Cons del: upt_Suc)
  moreover have "[0 ..< length xs] @ [length xs ..< length (xs @ a # as)] = [0 ..< length (xs @ a # as)]"
    using upt_add_eq_append[of 0 "length xs" "Suc (length as)"] by (simp del: upt_Suc)
  ultimately have "pop_loop M (start_addr a) (end_addr a) [0 ..< length (xs @ a # as)] (xs @ a # as) (space ms) = Inr (xs @ as, sp)"
    by (simp only:)
  then have "ms_pop M (start_addr a) (end_addr a) ms = Inr \<lparr>areas = xs @ as, space = sp\<rparr>"
    using a assms(2) by (simp add: ms_pop_def area_ok_def less_imp_le del: upt_Suc)
  then show ?thesis using areas_ok_remove[OF ok(1)] backed_remove[OF ok] sp(2) by (simp add: ms_ok_def)
qed

lemma clear_areas:
  "areas_ok as \<Longrightarrow> backed M as (tbl (table sp)) \<Longrightarrow>
   \<exists>sp'. iterE (area_unmap M) as sp = Inr sp' \<and> tbl (table sp') = Map.empty"
proof (induction as arbitrary: sp)
  case (Cons a as)
  have a: "area_ok a" using Cons.prems by (simp add: areas_ok_def)
  obtain sp1 where sp: "area_unmap M a sp = Inr sp1"
    "tbl (table sp1) = (\<lambda>p. if p \<in> area_pages a then None else tbl (table sp) p)"
    using area_unmap_ok[OF a, of sp] Cons.prems(2) by (auto simp: backed_def)
  have "backed M as (tbl (table sp1))" using backed_remove[of "[]" a as M] Cons.prems sp(2) by simp
  then show ?case using Cons.IH[of sp1] areas_ok_remove[of "[]" a as] Cons.prems(1) sp(1) by auto
qed (auto simp: backed_def)

end

text \<open>an address space is torn down completely: removing an area by its bounds frees exactly its
  addresses and pages, and clearing the set, as dropping it does, unmaps every page, without a panic.\<close>
lemma pop_and_clear:
  assumes "mmu_laws M tbl" "ms_ok M tbl ms" "areas ms = xs @ a # as"
  shows "(\<exists>ms'. ms_pop M (start_addr a) (end_addr a) ms = Inr ms' \<and> ms_ok M tbl ms' \<and>
      (\<forall>x. area_at (areas ms') x = (if area_contains a x then None else area_at (areas ms) x))) \<and>
    (\<exists>ms'. ms_clear M ms = Inr ms' \<and> areas ms' = [] \<and> tbl (table (space ms')) = Map.empty)"
proof -
  have env: "mmu_env M tbl" by unfold_locales (fact assms(1))
  have ok: "areas_ok (xs @ a # as)" using assms by (simp add: ms_ok_def)
  obtain ms' where ms': "ms_pop M (start_addr a) (end_addr a) ms = Inr ms'" "ms_ok M tbl ms'" "areas ms' = xs @ as"
    using mmu_env.ms_pop_ok[OF env assms(2,3)] by blast
  moreover have "\<forall>x. area_at (areas ms') x = (if area_contains a x then None else area_at (areas ms) x)"
    unfolding ms'(3) assms(3) using area_at_remove[OF ok] by blast
  moreover obtain sp where "iterE (area_unmap M) (areas ms) (space ms) = Inr sp" "tbl (table sp) = Map.empty"
    using mmu_env.clear_areas[OF env, of "areas ms" "space ms"] assms(2) by (auto simp: ms_ok_def)
  ultimately show ?thesis by (simp add: ms_clear_def)
qed

end
