(* ===== verification/Process_State.thy ===== *)
theory Process_State
  imports File_Handle Signal_Set Memory_Set
begin

text \<open>
  Processes and threads (\<^verbatim>\<open>src/kernel/src/process/mod.rs\<close>, \<^verbatim>\<open>process/thread.rs\<close>): the two global
  tables, creating, cloning and forking, and how a process ends.

  Processes are shared (\<^verbatim>\<open>Arc\<close>) and refer to each other weakly, so they live in a store, \<open>objects\<close>, and
  \<open>ProcessRef\<close> is a reference into it. A process object is alive as long as the process table, a thread of
  the thread table or a running task (\<open>held\<close>) refers to it; upgrading a weak reference succeeds exactly
  then. The mutable part of a thread, \<open>ThreadInner\<close>, is an argument of the operations that use it; the thread
  table holds threads as they were created. The address space of a process is its areas and its page table; the frame allocator and the bytes
  of memory belong to the machine. The task handle of a thread is left out, and \<open>Thread.vm\<close> is the address
  space of its process, which is what every constructor makes it.
\<close>

section \<open>Processes, threads and the global tables\<close>

type_synonym Pid = nat
type_synonym Tid = nat
type_synonym ProcessRef = nat

definition PID_INIT :: nat where "PID_INIT = 1"

record ('pt, 'i, 'w) Process =
  vm_areas :: "MemoryArea list"
  vm_table :: 'pt
  files :: "(nat, 'i FileHandle) btree"
  cwd :: string
  exec_path :: string
  pid :: Pid
  pgid :: "32 word"
  parent :: "Pid \<times> ProcessRef option"
  children :: "(Pid \<times> ProcessRef) list"
  threads :: "Tid list"
  event_bus :: "'w EventBus"
  exit_code :: usize
  sig_queue :: "(Siginfo \<times> usize) list"
  pending_sigset :: Sigset
  dispositions :: "SignalAction list"

record ThreadInner =
  ctx :: "UserContext option"
  clear_child_tid :: usize
  sig_mask :: Sigset
  signal_alternate_stack :: SignalStack

record Thread =
  inner :: ThreadInner
  process :: ProcessRef
  tid :: Tid

record ('pt, 'b, 'i, 'w, 's) kernel =
  PROCESSES :: "(Pid, ProcessRef) btree"
  THREADS :: "(Tid, Thread) btree"
  objects :: "ProcessRef \<Rightarrow> ('pt, 'i, 'w) Process"
  next_object :: nat
  held :: "ProcessRef list"
  mem_frames :: 'b
  mem_ram :: "PhysAddr \<Rightarrow> u8"
  fsys :: "'s fsys"

definition alive :: "('pt, 'b, 'i, 'w, 's) kernel \<Rightarrow> ProcessRef set" where
  "alive k = snd ` set (PROCESSES k) \<union> process ` snd ` set (THREADS k) \<union> set (held k)"

definition upgrade :: "('pt, 'b, 'i, 'w, 's) kernel \<Rightarrow> ProcessRef option \<Rightarrow> ('pt, 'i, 'w) Process option" where
  "upgrade k r = (case r of None \<Rightarrow> None | Some r \<Rightarrow> if r \<in> alive k then Some (objects k r) else None)"

definition set_process :: "ProcessRef \<Rightarrow> ('pt, 'i, 'w) Process \<Rightarrow> ('pt, 'b, 'i, 'w, 's) kernel \<Rightarrow> ('pt, 'b, 'i, 'w, 's) kernel" where
  "set_process r p k = k\<lparr>objects := (objects k)(r := p)\<rparr>"

definition alloc_process :: "('pt, 'i, 'w) Process \<Rightarrow> ('pt, 'b, 'i, 'w, 's) kernel \<Rightarrow> ProcessRef \<times> ('pt, 'b, 'i, 'w, 's) kernel" where
  "alloc_process p k =
     (next_object k, k\<lparr>objects := (objects k)(next_object k := p), next_object := Suc (next_object k)\<rparr>)"

section \<open>Looking up processes\<close>

text \<open>The process a thread belongs to, by the thread lists of the processes.\<close>

definition process_of :: "Tid \<Rightarrow> ('pt, 'b, 'i, 'w, 's) kernel \<Rightarrow> ProcessRef option" where
  "process_of t k = find (\<lambda>r. t \<in> set (threads (objects k r))) (map snd (PROCESSES k))"

definition process_by_pid :: "Pid \<Rightarrow> ('pt, 'b, 'i, 'w, 's) kernel \<Rightarrow> ProcessRef option" where
  "process_by_pid p k = bt_get (PROCESSES k) p"

definition process_group :: "32 word \<Rightarrow> ('pt, 'b, 'i, 'w, 's) kernel \<Rightarrow> ProcessRef list" where
  "process_group g k = filter (\<lambda>r. pgid (objects k r) = g) (map snd (PROCESSES k))"

definition add_to_process_table ::
  "ProcessRef \<Rightarrow> Pid \<Rightarrow> ('pt, 'b, 'i, 'w, 's) kernel \<Rightarrow> ('pt, 'b, 'i, 'w, 's) kernel" where
  "add_to_process_table r p k =
     (let k = set_process r ((objects k r)\<lparr>pid := p\<rparr>) k in k\<lparr>PROCESSES := bt_insert p r (PROCESSES k)\<rparr>)"

section \<open>Descriptors\<close>

definition get_free_fd :: "('pt, 'i, 'w) Process \<Rightarrow> nat" where
  "get_free_fd p = first_free (files p) 0"

definition get_free_fd_from :: "nat \<Rightarrow> ('pt, 'i, 'w) Process \<Rightarrow> nat" where
  "get_free_fd_from n p = first_free (files p) n"

definition add_file :: "'i FileHandle \<Rightarrow> ('pt, 'i, 'w) Process \<Rightarrow> nat \<times> ('pt, 'i, 'w) Process" where
  "add_file h p = (let fd = get_free_fd p in (fd, p\<lparr>files := bt_insert fd h (files p)\<rparr>))"

section \<open>How a process ends\<close>

text \<open>\<open>exit\<close> drops the files one by one, sets its own quit event and the one of its parent, stores the exit
  code and removes its threads from the thread table. It returns the wakers the two events wake.\<close>

definition drop_files :: "('pt, 'i, 'w) Process \<Rightarrow> ('pt, 'i, 'w) Process" where
  "drop_files p = p\<lparr>files := fold bt_remove (map fst (files p)) (files p)\<rparr>"

definition notify_parent ::
  "ProcessRef \<Rightarrow> ('pt, 'b, 'i, 'w, 's) kernel \<Rightarrow> 'w list \<times> ('pt, 'b, 'i, 'w, 's) kernel" where
  "notify_parent r k =
     (let pr = snd (parent (objects k r))
      in case upgrade k pr of
           None \<Rightarrow> ([], k)
         | Some q \<Rightarrow> let (woken, bus) = bus_set CHILD_PROCESS_QUIT (event_bus q)
                    in (woken, set_process (the pr) (q\<lparr>event_bus := bus\<rparr>) k))"

definition process_exit ::
  "usize \<Rightarrow> ProcessRef \<Rightarrow> ('pt, 'b, 'i, 'w, 's) kernel \<Rightarrow> 'w list \<times> ('pt, 'b, 'i, 'w, 's) kernel" where
  "process_exit ec r k =
     (let p = drop_files (objects k r);
          (woken, bus) = bus_set PROCESS_QUIT (event_bus p);
          k = set_process r (p\<lparr>event_bus := bus\<rparr>) k;
          (woken', k) = notify_parent r k;
          p = objects k r;
          k = k\<lparr>THREADS := fold bt_remove (threads p) (THREADS k)\<rparr>
      in (woken @ woken', set_process r (p\<lparr>exit_code := ec, threads := []\<rparr>) k))"

definition exited :: "('pt, 'i, 'w) Process \<Rightarrow> bool" where
  "exited p \<longleftrightarrow> threads p = []"

section \<open>Threads\<close>

definition add_to_table :: "Thread \<Rightarrow> ('pt, 'b, 'i, 'w, 's) kernel \<Rightarrow> Thread \<times> ('pt, 'b, 'i, 'w, 's) kernel" where
  "add_to_table t k =
     (let t = t\<lparr>tid := first_free (THREADS k) PID_INIT\<rparr>
      in (t, k\<lparr>THREADS := bt_insert (tid t) t (THREADS k)\<rparr>))"

text \<open>What the accessors of the \<^verbatim>\<open>aarch64\<close> crate do to a context.\<close>

record context_ops =
  get_sp :: "UserContext \<Rightarrow> usize"
  set_syscall_ret :: "usize \<Rightarrow> UserContext \<Rightarrow> UserContext"
  set_sp :: "usize \<Rightarrow> UserContext \<Rightarrow> UserContext"
  set_ip :: "usize \<Rightarrow> UserContext \<Rightarrow> UserContext"
  set_tls :: "usize \<Rightarrow> UserContext \<Rightarrow> UserContext"
  context_default :: UserContext

text \<open>\<open>fork\<close> is the part of \<^verbatim>\<open>Thread::fork\<close> after the address space has been cloned to \<open>areas'\<close> and \<open>table'\<close>;
  \<open>fork_vm\<close> clones it into a new page table first.\<close>

definition fork ::
  "context_ops \<Rightarrow> MemoryArea list \<Rightarrow> 'pt \<Rightarrow> Thread \<Rightarrow> UserContext \<Rightarrow> ('pt, 'b, 'i, 'w, 's) kernel \<Rightarrow>
   Thread \<times> ('pt, 'b, 'i, 'w, 's) kernel" where
  "fork C areas' table' self tf k =
     (let p = objects k (process self);
          (r, k) = alloc_process
            \<lparr>vm_areas = areas', vm_table = table', files = files p, cwd = cwd p, exec_path = exec_path p, pid = 0,
             pgid = pgid p, parent = (pid p, Some (process self)), children = [], threads = [],
             event_bus = EventBus_new, exit_code = 0, sig_queue = [], pending_sigset = Sigset_empty,
             dispositions = dispositions p\<rparr> k;
          (t, k) = add_to_table
            \<lparr>inner = \<lparr>ctx = Some (set_syscall_ret C 0 tf), clear_child_tid = 0, sig_mask = sig_mask (inner self),
                      signal_alternate_stack = signal_alternate_stack (inner self)\<rparr>,
             process = r, tid = 0\<rparr> k;
          k = add_to_process_table r (tid t) k;
          k = set_process r ((objects k r)\<lparr>threads := threads (objects k r) @ [tid t]\<rparr>) k;
          p = objects k (process self)
      in (t, set_process (process self) (p\<lparr>children := children p @ [(tid t, r)]\<rparr>) k))"

definition fork_vm ::
  "('pt, 'b) mmu \<Rightarrow> 'pt \<Rightarrow> context_ops \<Rightarrow> Thread \<Rightarrow> UserContext \<Rightarrow> ('pt, 'b, 'i, 'w, 's) kernel \<Rightarrow>
   (Thread \<times> ('pt, 'b, 'i, 'w, 's) kernel) outcome" where
  "fork_vm M new_table C self tf k =
     (let p = objects k (process self);
          vm = \<lparr>areas = vm_areas p, space = \<lparr>table = vm_table p, frames = mem_frames k, ram = mem_ram k\<rparr>\<rparr>
      in bindE (ms_clone M new_table vm) (\<lambda>vm'.
           Inr (fork C (areas vm') (table (space vm')) self tf
                  (k\<lparr>mem_frames := frames (space vm'), mem_ram := ram (space vm')\<rparr>))))"

definition new_clone ::
  "context_ops \<Rightarrow> Thread \<Rightarrow> UserContext \<Rightarrow> usize \<Rightarrow> usize \<Rightarrow> usize \<Rightarrow> ('pt, 'b, 'i, 'w, 's) kernel \<Rightarrow>
   Thread \<times> ('pt, 'b, 'i, 'w, 's) kernel" where
  "new_clone C self tf stack_top tls clear_tid k =
     (let (t, k) = add_to_table
            \<lparr>inner = \<lparr>ctx = Some (set_tls C tls (set_sp C stack_top (set_syscall_ret C 0 tf))),
                      clear_child_tid = clear_tid, sig_mask = sig_mask (inner self),
                      signal_alternate_stack = signal_alternate_stack (inner self)\<rparr>,
             process = process self, tid = 0\<rparr> k;
          p = objects k (process t)
      in (t, set_process (process t) (p\<lparr>threads := threads p @ [tid t]\<rparr>) k))"

text \<open>The process and thread that \<^verbatim>\<open>Thread::new_user\<close> makes around an address space; descriptors 0, 1 and
  2 are the terminal.\<close>

definition tty_handle :: "'i \<Rightarrow> bool \<Rightarrow> 's fsys \<Rightarrow> 'i FileHandle \<times> 's fsys" where
  "tty_handle tty rd st =
     FileHandle_new tty \<lparr>opt_read = rd, opt_write = \<not> rd, opt_append = False\<rparr> ''/dev/tty'' False st"

definition new_user ::
  "context_ops \<Rightarrow> 'i \<Rightarrow> MemoryArea list \<Rightarrow> 'pt \<Rightarrow> usize \<Rightarrow> usize \<Rightarrow> string \<Rightarrow> ('pt, 'b, 'i, 'w, 's) kernel \<Rightarrow>
   Thread \<times> ('pt, 'b, 'i, 'w, 's) kernel" where
  "new_user C tty as pt entry_addr ustack_top path k =
     (let (h0, f) = tty_handle tty True (fsys k);
          (h1, f) = tty_handle tty False f;
          (h2, f) = tty_handle tty False f;
          (r, k) = alloc_process
            \<lparr>vm_areas = as, vm_table = pt, files = bt_insert 2 h2 (bt_insert 1 h1 (bt_insert 0 h0 [])), cwd = ''/'',
             exec_path = path, pid = 0, pgid = 0, parent = (0, None), children = [], threads = [],
             event_bus = EventBus_new, exit_code = 0, sig_queue = [], pending_sigset = Sigset_empty,
             dispositions = replicate (RTMAX + 1) SignalAction_default\<rparr> (k\<lparr>fsys := f\<rparr>);
          c = (set_sp C ustack_top (set_ip C entry_addr (context_default C)))\<lparr>spsr := 0x340\<rparr>;
          (t, k) = add_to_table
            \<lparr>inner = \<lparr>ctx = Some c, clear_child_tid = 0, sig_mask = Sigset 0, signal_alternate_stack = SignalStack_default\<rparr>,
             process = r, tid = 0\<rparr> k
      in (t, add_to_process_table r (tid t) k))"

definition begin_running :: "ThreadInner \<Rightarrow> (UserContext \<times> ThreadInner) outcome" where
  "begin_running i = bindE (unwrap (ctx i)) (\<lambda>c. Inr (c, i\<lparr>ctx := None\<rparr>))"

definition end_running :: "UserContext \<Rightarrow> ThreadInner \<Rightarrow> ThreadInner" where
  "end_running c i = i\<lparr>ctx := Some c\<rparr>"

end
