(* ===== verification/Kernel_Timer.thy ===== *)
theory Kernel_Timer
  imports Event_Bus Ordered_Map
begin

text \<open>
  Timers and sleeping: the timer queue (\<^verbatim>\<open>src/kernel/src/task/timer.rs\<close>), the futures
  \<open>DelayFuture\<close> and \<open>YieldNow\<close> (\<^verbatim>\<open>task/future.rs\<close>), the conversion of the generic timer's counter to
  nanoseconds (\<^verbatim>\<open>arch/aarch64/timer.rs\<close>) and the future behind \<^verbatim>\<open>sys_nanosleep\<close>
  (\<^verbatim>\<open>syscall/process.rs\<close>).

  A \<^verbatim>\<open>core::time::Duration\<close> is its number of nanoseconds; its seconds are a \<open>u64\<close>, and adding past the
  greatest one panics. The timers are a \<^verbatim>\<open>BTreeMap\<close> from deadlines to wakers.
\<close>

section \<open>Durations and the timer queue\<close>

type_synonym Duration = nat

definition DURATION_MAX :: nat where
  "DURATION_MAX = (2 ^ 64 - 1) * 1000000000 + 999999999"

definition duration_add :: "Duration \<Rightarrow> Duration \<Rightarrow> Duration outcome" where
  "duration_add a b =
     (if a + b \<le> DURATION_MAX then Inr (a + b) else Inl (ExpectFailed ''overflow when adding durations''))"

type_synonym 'w Timer = "(Duration \<times> 'w) list"

definition Timer_new :: "'w Timer" where "Timer_new = []"

text \<open>The loop \<^verbatim>\<open>while self.events.contains_key(&deadline) { deadline += Duration::from_nanos(1) }\<close>.\<close>

function timer_slot :: "'w Timer \<Rightarrow> Duration \<Rightarrow> Duration outcome" where
  "timer_slot es d =
     (if d \<in> fst ` set es then bindE (duration_add d 1) (timer_slot es) else Inr d)"
  by pat_completeness auto
termination
proof (relation "measure (\<lambda>(es, d). card {k \<in> fst ` set es. d \<le> k})", goal_cases)
  case (2 es d d')
  then have "d' = d + 1" by (simp add: duration_add_def split: if_splits)
  then have "{k \<in> fst ` set es. d' \<le> k} \<subseteq> {k \<in> fst ` set es. d \<le> k}"
    "d \<notin> {k \<in> fst ` set es. d' \<le> k}" "d \<in> {k \<in> fst ` set es. d \<le> k}" using 2 by auto
  then have "{k \<in> fst ` set es. d' \<le> k} \<subset> {k \<in> fst ` set es. d \<le> k}" by blast
  then show ?case by (simp add: psubset_card_mono)
qed simp

declare timer_slot.simps [simp del]

definition timer_add :: "Duration \<Rightarrow> 'w \<Rightarrow> 'w Timer \<Rightarrow> 'w Timer outcome" where
  "timer_add deadline w es = bindE (timer_slot es deadline) (\<lambda>d. Inr (bt_insert d w es))"

fun timer_expire :: "Duration \<Rightarrow> 'w Timer \<Rightarrow> 'w list \<times> 'w Timer" where
  "timer_expire now [] = ([], [])"
| "timer_expire now ((k, w) # es) =
     (if k > now then ([], (k, w) # es)
      else let (woken, es) = timer_expire now es in (w # woken, es))"

section \<open>The generic timer\<close>

text \<open>\<^verbatim>\<open>CNTPCT_EL0.get() * 1_000_000_000 / freq\<close>: the product wraps.\<close>

definition read_ns :: "u64 \<Rightarrow> u64 \<Rightarrow> u64" where
  "read_ns freq cntpct = cntpct * 1000000000 div freq"

definition timer_read :: "u64 \<Rightarrow> u64 \<Rightarrow> Duration" where
  "timer_read freq cntpct = unat (read_ns freq cntpct)"

text \<open>The count written to \<^verbatim>\<open>CNTP_TVAL_EL0\<close>.\<close>

definition tick_in :: "u64 \<Rightarrow> usize \<Rightarrow> u64" where
  "tick_in freq ns = freq * ns div 1000000000"

definition timer_handle_interrupt :: "Duration \<Rightarrow> 'w Timer \<Rightarrow> 'w list \<times> 'w Timer" where
  "timer_handle_interrupt now es = timer_expire now es"

section \<open>Futures\<close>

definition delay_for :: "Duration \<Rightarrow> Duration \<Rightarrow> Duration outcome" where
  "delay_for now duration = duration_add now duration"

definition delay_poll :: "Duration \<Rightarrow> Duration \<Rightarrow> 'w \<Rightarrow> 'w Timer \<Rightarrow> (unit poll \<times> 'w Timer) outcome" where
  "delay_poll now deadline w es =
     (if now \<ge> deadline then Inr (Ready (), es)
      else bindE (timer_add deadline w es) (\<lambda>es. Inr (Pending, es)))"

datatype YieldNow = YieldNow bool

text \<open>The poll of \<^verbatim>\<open>YieldNow\<close> returns the wakers it calls as well.\<close>

fun yield_poll :: "'w \<Rightarrow> YieldNow \<Rightarrow> unit poll \<times> 'w list \<times> YieldNow" where
  "yield_poll w (YieldNow b) =
     (if \<not> b then (Pending, [w], YieldNow True) else (Ready (), [], YieldNow b))"

datatype sleep_result = Slept | Interrupted

definition sleep_poll ::
  "Duration \<Rightarrow> Duration \<Rightarrow> Duration \<Rightarrow> bool \<Rightarrow> 'w \<Rightarrow> 'w Timer \<Rightarrow> 'w EventBus \<Rightarrow>
   (sleep_result poll \<times> 'w Timer \<times> 'w EventBus) outcome" where
  "sleep_poll now deadline duration has_signal w es bus =
     (if now \<ge> deadline then Inr (Ready Slept, es, bus)
      else if has_signal then Inr (Ready Interrupted, es, bus)
      else bindE (if duration < 2 ^ 63 - 1 then timer_add deadline w es else Inr es)
             (\<lambda>es. Inr (Pending, es, subscribe (OnAny w) bus)))"

section \<open>The timer queue keeps every timer\<close>

lemma timer_slot_total:
  assumes "finite (fst ` set es)" "d + card {k \<in> fst ` set es. d \<le> k} \<le> DURATION_MAX"
  shows "\<exists>s. timer_slot es d = Inr s \<and> d \<le> s \<and> s \<le> d + card {k \<in> fst ` set es. d \<le> k} \<and>
    s \<notin> fst ` set es \<and> (\<forall>k. d \<le> k \<and> k < s \<longrightarrow> k \<in> fst ` set es)"
  using assms
proof (induction es d rule: timer_slot.induct)
  case (1 es d)
  show ?case
  proof (cases "d \<in> fst ` set es")
    case True
    have sub: "{k \<in> fst ` set es. d \<le> k} = insert d {k \<in> fst ` set es. d + 1 \<le> k}" using True by auto
    have "card {k \<in> fst ` set es. d \<le> k} = Suc (card {k \<in> fst ` set es. d + 1 \<le> k})"
      unfolding sub using 1(2) by (simp add: card_insert_if)
    moreover from this 1(3) have "duration_add d 1 = Inr (d + 1)" by (simp add: duration_add_def)
    ultimately obtain s where s: "timer_slot es (d + 1) = Inr s" "d + 1 \<le> s"
      "s \<le> d + 1 + card {k \<in> fst ` set es. d + 1 \<le> k}" "s \<notin> fst ` set es"
      "\<forall>k. d + 1 \<le> k \<and> k < s \<longrightarrow> k \<in> fst ` set es"
      using 1(1)[OF True, of "d + 1"] 1(2,3) by auto
    have "k \<in> fst ` set es" if "d \<le> k" "k < s" for k
      using that s(5) True by (cases "k = d") auto
    with s \<open>duration_add d 1 = Inr (d + 1)\<close> True
      \<open>card {k \<in> fst ` set es. d \<le> k} = Suc (card {k \<in> fst ` set es. d + 1 \<le> k})\<close>
    show ?thesis by (intro exI[of _ s]) (simp add: timer_slot.simps[of es d])
  next
    case False
    then show ?thesis by (auto simp: timer_slot.simps[of es d])
  qed
qed

lemma timer_expire_eq:
  assumes "bt_ok es"
  shows "timer_expire now es = (map snd (filter (\<lambda>(k, _). k \<le> now) es), filter (\<lambda>(k, _). now < k) es)"
  using assms
proof (induction es)
  case (Cons e es)
  obtain k w where e: "e = (k, w)" by fastforce
  from Cons.prems e have ok: "bt_ok es" and gt: "\<forall>(j, v) \<in> set es. k < j"
    by (auto simp: bt_ok_def)
  show ?case
  proof (cases "k > now")
    case True
    with gt have "filter (\<lambda>(k, _). k \<le> now) es = []" "filter (\<lambda>(k, _). now < k) es = es"
      by (auto simp: filter_empty_conv filter_id_conv)
    with True e show ?thesis by simp
  next
    case False
    with Cons.IH[OF ok] e show ?thesis by simp
  qed
qed simp

lemma card_keys_le: "card {k \<in> fst ` set es. d \<le> k} \<le> length es"
proof -
  have "card {k \<in> fst ` set es. d \<le> k} \<le> card (fst ` set es)" by (intro card_mono) auto
  also have "\<dots> \<le> length es" using card_image_le[of "set es" fst] card_length[of es] by simp
  finally show ?thesis .
qed

text \<open>setting a timer never replaces another one: the new timer is entered at the first free
  nanosecond from its deadline on, every timer that was set before is still there, and at most as many
  nanoseconds are added as there are timers.\<close>
lemma timer_add_keeps:
  assumes "bt_ok es" "deadline + length es \<le> DURATION_MAX"
  shows "\<exists>d es'. timer_add deadline w es = Inr es' \<and> bt_ok es' \<and> set es' = insert (d, w) (set es) \<and>
    d \<notin> fst ` set es \<and> deadline \<le> d \<and> d \<le> deadline + length es \<and>
    (\<forall>k. deadline \<le> k \<and> k < d \<longrightarrow> k \<in> fst ` set es)"
proof -
  have "deadline + card {k \<in> fst ` set es. deadline \<le> k} \<le> DURATION_MAX"
    using card_keys_le[where es = es and d = deadline] assms(2) by linarith
  from timer_slot_total[OF _ this] obtain d where d: "timer_slot es deadline = Inr d" "deadline \<le> d"
    "d \<le> deadline + card {k \<in> fst ` set es. deadline \<le> k}" "d \<notin> fst ` set es"
    "\<forall>k. deadline \<le> k \<and> k < d \<longrightarrow> k \<in> fst ` set es" by auto
  then have "timer_add deadline w es = Inr (bt_insert d w es)" by (simp add: timer_add_def)
  moreover have "d \<le> deadline + length es" using d(3) card_keys_le[where es = es and d = deadline] by linarith
  ultimately show ?thesis using bt_insert_ok[OF assms(1)] bt_insert_set[OF d(4)] d by blast
qed

text \<open>C24: a timer interrupt wakes exactly the timers that are due, each once and earliest first, and
  leaves the others set.\<close>
theorem timer_expire_due:
  assumes "bt_ok es"
  shows "timer_handle_interrupt now es =
      (map snd (filter (\<lambda>(k, _). k \<le> now) es), filter (\<lambda>(k, _). now < k) es) \<and>
    bt_ok (snd (timer_handle_interrupt now es))"
proof -
  have eq: "timer_handle_interrupt now es =
      (map snd (filter (\<lambda>(k, _). k \<le> now) es), filter (\<lambda>(k, _). now < k) es)"
    by (simp add: timer_handle_interrupt_def timer_expire_eq[OF assms])
  have "bt_ok (filter (\<lambda>(k, _). now < k) es)"
    using assms unfolding bt_ok_def by (simp add: sorted_wrt_map sorted_wrt_filter)
  with eq show ?thesis by simp
qed

theorem timer_expire_due_witness:
  "timer_handle_interrupt 5 [(3, ''a''), (5, ''b''), (9, ''c'')] = ([''a'', ''b''], [(9, ''c'')])"
  using timer_expire_due[of "[(3, ''a''), (5, ''b''), (9, ''c'')]" 5] by (simp add: bt_ok_def)

section \<open>The clock\<close>

text \<open>the clock is exact until the product of its counter with \<open>10\<^sup>9\<close> overflows, and then falls
  back: at the counter frequency of the emulator (62.5 MHz) that is after 295 seconds of uptime.\<close>
lemma read_ns_range:
  "(unat cntpct * 1000000000 < 2 ^ 64 \<longrightarrow> unat (read_ns freq cntpct) = unat cntpct * 1000000000 div unat freq) \<and>
   read_ns 62500000 18446744073 = 295147905168 \<and> read_ns 62500000 18446744074 = 4"
proof (intro conjI impI)
  assume "unat cntpct * 1000000000 < 2 ^ 64"
  then have "unat (cntpct * 1000000000) = unat cntpct * 1000000000"
    using unat_mult_no_wrap[of cntpct 1000000000] by simp
  then show "unat (read_ns freq cntpct) = unat cntpct * 1000000000 div unat freq"
    by (simp add: read_ns_def unat_div_distrib)
qed (simp_all add: read_ns_def)

end
