(* ===== verification/Process_Syscalls.thy ===== *)
theory Process_Syscalls
  imports Process_State Kernel_Timer
begin

text \<open>
  The system calls on processes (\<^verbatim>\<open>src/kernel/src/syscall/process.rs\<close>): creating, exiting, waiting,
  process groups and sleeping.

  \<open>sys_wait4\<close> is a loop that awaits an event, so it is a machine with a program counter, \<open>wait_pc\<close>; each step
  is one locked region. A process that locks itself twice is stuck, as the spin lock is not reentrant.
\<close>

section \<open>Errors\<close>

text \<open>The error codes the kernel names; the conversion of a file system error belongs to another crate.\<close>

datatype SysError =
    ENOSYS | ECHILD | ESRCH | EINTR | EBADF | EEXIST | ERANGE | EINVAL | ENOTDIR | EISDIR | EFAULT
  | FromFs FsError

type_synonym 'a SysResult = "SysError + 'a"

section \<open>Creating processes and threads\<close>

text \<open>\<open>spawn\<close> hands the thread to the executor; its task keeps the process alive.\<close>

definition thread_spawn :: "Thread \<Rightarrow> ('pt, 'b, 'i, 'w, 's) kernel \<Rightarrow> ('pt, 'b, 'i, 'w, 's) kernel" where
  "thread_spawn t k = k\<lparr>held := process t # held k\<rparr>"

definition sys_fork ::
  "('pt, 'b) mmu \<Rightarrow> 'pt \<Rightarrow> context_ops \<Rightarrow> Thread \<Rightarrow> UserContext \<Rightarrow> ('pt, 'b, 'i, 'w, 's) kernel \<Rightarrow>
   (Pid SysResult \<times> ('pt, 'b, 'i, 'w, 's) kernel) outcome" where
  "sys_fork M new_table C self tf k =
     bindE (fork_vm M new_table C self tf k) (\<lambda>(t, k).
       let k = thread_spawn t k in Inr (Inr (pid (objects k (process t))), k))"

text \<open>The writes of the new thread's id to user memory are returned; the \<open>u32\<close> pointers are checked.\<close>

definition check_write_u32 :: "usize \<Rightarrow> MemoryArea list \<Rightarrow> bool" where
  "check_write_u32 ptr as = check_write_loop 4 ptr 1 0 as"

definition sys_clone ::
  "('pt, 'b) mmu \<Rightarrow> 'pt \<Rightarrow> context_ops \<Rightarrow> Thread \<Rightarrow> UserContext \<Rightarrow> usize \<Rightarrow> usize \<Rightarrow> usize \<Rightarrow> usize \<Rightarrow> usize \<Rightarrow>
   ('pt, 'b, 'i, 'w, 's) kernel \<Rightarrow> (Pid SysResult \<times> (usize \<times> u32) list \<times> ('pt, 'b, 'i, 'w, 's) kernel) outcome" where
  "sys_clone M new_table C self tf flags new_sp parent_tid child_tid new_tls k =
     (if flags = 0x4111 \<or> flags = 0x11
      then bindE (sys_fork M new_table C self tf k) (\<lambda>(r, k). Inr (r, [], k))
      else if flags \<noteq> 0x7d0f00 \<and> flags \<noteq> 0x5d0f00 then Inr (Inl ENOSYS, [], k)
      else let as = vm_areas (objects k (process self))
           in if \<not> check_write_u32 parent_tid as \<or> \<not> check_write_u32 child_tid as then Inr (Inl EFAULT, [], k)
              else let (t, k) = new_clone C self tf new_sp new_tls child_tid k;
                       k = thread_spawn t k
                   in Inr (Inr (tid t), [(parent_tid, of_nat (tid t)), (child_tid, of_nat (tid t))], k))"

section \<open>Waiting for a child\<close>

datatype WaitFor = AnyChild | AnyChildInGroup | WaitPid Pid

definition wait_target :: "usize \<Rightarrow> WaitFor outcome" where
  "wait_target p =
     (if sint p = - 1 then Inr AnyChild
      else if sint p = 0 then Inr AnyChildInGroup
      else if sint p > 0 then Inr (WaitPid (unat p))
      else Inl Unimplemented)"

fun first_exited :: "('pt, 'b, 'i, 'w, 's) kernel \<Rightarrow> (Pid \<times> ProcessRef) list \<Rightarrow> (Pid \<times> usize) option" where
  "first_exited k [] = None"
| "first_exited k ((p, r) # cs) =
     (case upgrade k (Some r) of
        Some c \<Rightarrow> if exited c then Some (pid c, exit_code c) else first_exited k cs
      | None \<Rightarrow> first_exited k cs)"

fun wait_find :: "ProcessRef \<Rightarrow> WaitFor \<Rightarrow> ('pt, 'b, 'i, 'w, 's) kernel \<Rightarrow> (Pid \<times> usize) option" where
  "wait_find self (WaitPid n) k =
     (case process_by_pid n k of
        Some r \<Rightarrow> let c = objects k r in if exited c then Some (pid c, exit_code c) else None
      | None \<Rightarrow> None)"
| "wait_find self target k = first_exited k (children (objects k self))"

definition live_children :: "ProcessRef \<Rightarrow> ('pt, 'b, 'i, 'w, 's) kernel \<Rightarrow> Pid list" where
  "live_children self k = map fst (filter (\<lambda>(p, r). upgrade k (Some r) \<noteq> None) (children (objects k self)))"

fun wait_invalid :: "ProcessRef \<Rightarrow> WaitFor \<Rightarrow> ('pt, 'b, 'i, 'w, 's) kernel \<Rightarrow> bool" where
  "wait_invalid self (WaitPid n) k \<longleftrightarrow> n \<notin> set (live_children self k)"
| "wait_invalid self target k \<longleftrightarrow> live_children self k = []"

definition reap :: "ProcessRef \<Rightarrow> Pid \<Rightarrow> ('pt, 'b, 'i, 'w, 's) kernel \<Rightarrow> ('pt, 'b, 'i, 'w, 's) kernel" where
  "reap self p k =
     (let k = k\<lparr>PROCESSES := bt_remove p (PROCESSES k)\<rparr>;
          q = objects k self
      in set_process self (q\<lparr>children := filter (\<lambda>(c, _). c \<noteq> p) (children q)\<rparr>) k)"

text \<open>\<open>WDone\<close> has the exit code that is stored at \<open>wstatus\<close>.\<close>

datatype wait_pc = WTop | WAwait | WClear | WDone "(Pid \<times> usize) SysResult" | WStuck

definition wait_top :: "ProcessRef \<Rightarrow> WaitFor \<Rightarrow> ('pt, 'b, 'i, 'w, 's) kernel \<Rightarrow> wait_pc \<times> ('pt, 'b, 'i, 'w, 's) kernel" where
  "wait_top self target k =
     (if (case target of WaitPid n \<Rightarrow> process_by_pid n k = Some self | _ \<Rightarrow> False) then (WStuck, k)
      else case wait_find self target k of
             Some (p, ec) \<Rightarrow> (WDone (Inr (p, ec)), reap self p k)
           | None \<Rightarrow> if wait_invalid self target k then (WDone (Inl ECHILD), k) else (WAwait, k))"

definition wait_await :: "'w \<Rightarrow> ProcessRef \<Rightarrow> ('pt, 'b, 'i, 'w, 's) kernel \<Rightarrow> wait_pc \<times> ('pt, 'b, 'i, 'w, 's) kernel" where
  "wait_await w self k =
     (let q = objects k self
      in case wait_for_event_poll CHILD_PROCESS_QUIT w (event_bus q) of
           (Ready _, bus) \<Rightarrow> (WClear, set_process self (q\<lparr>event_bus := bus\<rparr>) k)
         | (Pending, bus) \<Rightarrow> (WAwait, set_process self (q\<lparr>event_bus := bus\<rparr>) k))"

definition wait_clear :: "ProcessRef \<Rightarrow> ('pt, 'b, 'i, 'w, 's) kernel \<Rightarrow> wait_pc \<times> 'w list \<times> ('pt, 'b, 'i, 'w, 's) kernel" where
  "wait_clear self k =
     (let q = objects k self;
          (woken, bus) = bus_clear CHILD_PROCESS_QUIT (event_bus q)
      in (WTop, woken, set_process self (q\<lparr>event_bus := bus\<rparr>) k))"

section \<open>Identities\<close>

definition sys_get_pid :: "ProcessRef \<Rightarrow> ('pt, 'b, 'i, 'w, 's) kernel \<Rightarrow> Pid" where
  "sys_get_pid self k = pid (objects k self)"

definition sys_get_pgid :: "ProcessRef \<Rightarrow> Pid \<Rightarrow> ('pt, 'b, 'i, 'w, 's) kernel \<Rightarrow> usize SysResult" where
  "sys_get_pgid self p k =
     (let p = (if p = 0 then pid (objects k self) else p)
      in case bt_get (PROCESSES k) p of
           Some r \<Rightarrow> Inr (scast (pgid (objects k r)))
         | None \<Rightarrow> Inl ESRCH)"

definition sys_set_pgid ::
  "ProcessRef \<Rightarrow> Pid \<Rightarrow> usize \<Rightarrow> ('pt, 'b, 'i, 'w, 's) kernel \<Rightarrow> nat SysResult \<times> ('pt, 'b, 'i, 'w, 's) kernel" where
  "sys_set_pgid self p g k =
     (let p = (if p = 0 then pid (objects k self) else p)
      in case bt_get (PROCESSES k) p of
           Some r \<Rightarrow> (Inr 0, set_process r ((objects k r)\<lparr>pgid := ucast g\<rparr>) k)
         | None \<Rightarrow> (Inl ESRCH, k))"

definition sys_get_tid :: "Thread \<Rightarrow> Tid" where
  "sys_get_tid t = tid t"

definition sys_get_ppid :: "ProcessRef \<Rightarrow> ('pt, 'b, 'i, 'w, 's) kernel \<Rightarrow> Pid" where
  "sys_get_ppid self k =
     (let (p, q) = parent (objects k self) in if upgrade k q \<noteq> None then p else 0)"

definition sys_set_tid_address :: "usize \<Rightarrow> ThreadInner \<Rightarrow> ThreadInner" where
  "sys_set_tid_address ptr i = i\<lparr>clear_child_tid := ptr\<rparr>"

section \<open>Exiting\<close>

definition sys_exit ::
  "usize \<Rightarrow> Thread \<Rightarrow> ('pt, 'b, 'i, 'w, 's) kernel \<Rightarrow> 'w list \<times> ('pt, 'b, 'i, 'w, 's) kernel" where
  "sys_exit ec self k =
     (let r = process self;
          p = (objects k r)\<lparr>threads := filter (\<lambda>t. t \<noteq> tid self) (threads (objects k r))\<rparr>;
          k = set_process r p k
      in if threads p = [] then process_exit ec r k else ([], k))"

definition sys_exit_group ::
  "usize \<Rightarrow> Thread \<Rightarrow> ('pt, 'b, 'i, 'w, 's) kernel \<Rightarrow> 'w list \<times> ('pt, 'b, 'i, 'w, 's) kernel" where
  "sys_exit_group ec self k = process_exit ec (process self) k"

end
