(* ===== verification/Process_Tables.thy ===== *)
theory Process_Tables
  imports Process_Syscalls
begin

text \<open>
  The tables of processes and threads over all histories: every system call that creates, ends or reaps a
  process (\<^verbatim>\<open>src/kernel/src/process\<close>, \<^verbatim>\<open>src/kernel/src/syscall/process.rs\<close>) keeps them consistent.
  The lemmas \<open>fork_result\<close>, \<open>new_clone_result\<close>, \<open>new_user_result\<close> and \<open>process_exit_result\<close> say what an
  operation does to the tables; the others rest on them.
\<close>

section \<open>The tables stay consistent\<close>

text \<open>Every entry of the process table is a process with that pid, every entry of the thread table a thread
  with that id, and the threads a process counts as its own are in the thread table and belong to it.\<close>

definition tables_ok :: "('pt, 'b, 'i, 'w, 's) kernel \<Rightarrow> bool" where
  "tables_ok k \<longleftrightarrow> bt_ok (PROCESSES k) \<and> bt_ok (THREADS k) \<and>
     (\<forall>p r. bt_get (PROCESSES k) p = Some r \<longrightarrow> pid (objects k r) = p \<and> r < next_object k) \<and>
     (\<forall>t th. bt_get (THREADS k) t = Some th \<longrightarrow> tid th = t \<and> process th < next_object k) \<and>
     (\<forall>r < next_object k. distinct (threads (objects k r)) \<and>
        (\<forall>t \<in> set (threads (objects k r)). \<exists>th. bt_get (THREADS k) t = Some th \<and> process th = r))"

lemma tables_okI:
  assumes "bt_ok (PROCESSES k)" "bt_ok (THREADS k)"
    "\<And>p r. bt_get (PROCESSES k) p = Some r \<Longrightarrow> pid (objects k r) = p \<and> r < next_object k"
    "\<And>t th. bt_get (THREADS k) t = Some th \<Longrightarrow> tid th = t \<and> process th < next_object k"
    "\<And>r. r < next_object k \<Longrightarrow> distinct (threads (objects k r)) \<and>
       (\<forall>t \<in> set (threads (objects k r)). \<exists>th. bt_get (THREADS k) t = Some th \<and> process th = r)"
  shows "tables_ok k"
  unfolding tables_ok_def by (intro conjI allI impI ballI) (use assms in blast)+

lemma tables_okD:
  assumes "tables_ok k"
  shows "bt_ok (PROCESSES k)" "bt_ok (THREADS k)"
    "\<And>p r. bt_get (PROCESSES k) p = Some r \<Longrightarrow> pid (objects k r) = p \<and> r < next_object k"
    "\<And>t th. bt_get (THREADS k) t = Some th \<Longrightarrow> tid th = t \<and> process th < next_object k"
    "\<And>r. r < next_object k \<Longrightarrow> distinct (threads (objects k r))"
    "\<And>r t. r < next_object k \<Longrightarrow> t \<in> set (threads (objects k r)) \<Longrightarrow> \<exists>th. bt_get (THREADS k) t = Some th \<and> process th = r"
  using assms unfolding tables_ok_def by blast+

lemma set_process_sel [simp]:
  "PROCESSES (set_process r p k) = PROCESSES k" "THREADS (set_process r p k) = THREADS k"
  "objects (set_process r p k) = (objects k)(r := p)" "next_object (set_process r p k) = next_object k"
  "held (set_process r p k) = held k" "mem_frames (set_process r p k) = mem_frames k"
  "mem_ram (set_process r p k) = mem_ram k" "fsys (set_process r p k) = fsys k"
  by (simp_all add: set_process_def)

lemma alive_set_process [simp]: "alive (set_process r p k) = alive k"
  by (simp add: alive_def)

lemma fork_result:
  assumes "fork C as pt self tf k = (t, k')" "process self < next_object k"
  shows "tid t = first_free (THREADS k) PID_INIT" "process t = next_object k"
    "PROCESSES k' = bt_insert (tid t) (next_object k) (PROCESSES k)" "THREADS k' = bt_insert (tid t) t (THREADS k)"
    "next_object k' = Suc (next_object k)" "held k' = held k"
    "threads (objects k' (next_object k)) = [tid t]" "pid (objects k' (next_object k)) = tid t"
    "files (objects k' (next_object k)) = files (objects k (process self))"
    "parent (objects k' (next_object k)) = (pid (objects k (process self)), Some (process self))"
    "objects k' (process self) =
       (objects k (process self))\<lparr>children := children (objects k (process self)) @ [(tid t, next_object k)]\<rparr>"
    "\<And>r. r \<noteq> next_object k \<Longrightarrow> r \<noteq> process self \<Longrightarrow> objects k' r = objects k r"
    "event_bus (objects k' (next_object k)) = EventBus_new"
  using assms by (auto simp: fork_def alloc_process_def add_to_table_def add_to_process_table_def Let_def)

lemma new_clone_result:
  assumes "new_clone C self tf sp tls ct k = (t, k')"
  shows "tid t = first_free (THREADS k) PID_INIT" "process t = process self"
    "PROCESSES k' = PROCESSES k" "THREADS k' = bt_insert (tid t) t (THREADS k)" "next_object k' = next_object k"
    "objects k' = (objects k)(process self := (objects k (process self))\<lparr>threads := threads (objects k (process self)) @ [tid t]\<rparr>)"
  using assms by (auto simp: new_clone_def add_to_table_def Let_def)

lemma fresh_tid:
  assumes "tables_ok k" "r < next_object k"
  shows "first_free (THREADS k) PID_INIT \<notin> set (threads (objects k r))"
  using assms first_free_least[of "THREADS k" PID_INIT] by (fastforce simp: tables_ok_def)

lemma fork_tables:
  assumes "tables_ok k" "process self < next_object k" "fork C as pt self tf k = (t, k')"
  shows "tables_ok k'"
proof -
  note f = fork_result[OF assms(3,2)]
  let ?n = "next_object k"
  have ok: "bt_ok (PROCESSES k)" "bt_ok (THREADS k)" using assms(1) by (simp_all add: tables_ok_def)
  have gp: "bt_get (PROCESSES k') = (bt_get (PROCESSES k))(tid t \<mapsto> ?n)"
    and gt: "bt_get (THREADS k') = (bt_get (THREADS k))(tid t \<mapsto> t)"
    unfolding f(3,4) by (rule bt.get_ins[OF ok(1)], rule bt.get_ins[OF ok(2)])
  have old: "pid (objects k' r) = pid (objects k r)" "threads (objects k' r) = threads (objects k r)" if "r \<noteq> ?n" for r
    using f(11,12) that by (cases "r = process self"; simp)+
  have P: "pid (objects k' r) = p \<and> r < next_object k'" if "bt_get (PROCESSES k') p = Some r" for p r
  proof (cases "p = tid t")
    case True
    then show ?thesis using that gp f(5,8) by simp
  next
    case False
    then have "bt_get (PROCESSES k) p = Some r" using that gp by simp
    then have "pid (objects k r) = p \<and> r < ?n" using assms(1) by (simp add: tables_ok_def)
    then show ?thesis using old[of r] f(5) by simp
  qed
  have T: "tid th = s \<and> process th < next_object k'" if "bt_get (THREADS k') s = Some th" for s th
    using that assms(1) f(2,5) by (auto simp: gt tables_ok_def less_SucI split: if_splits)
  have R: "distinct (threads (objects k' r)) \<and>
      (\<forall>s \<in> set (threads (objects k' r)). \<exists>th. bt_get (THREADS k') s = Some th \<and> process th = r)"
    if "r < next_object k'" for r
  proof (cases "r = ?n")
    case True
    then show ?thesis using f(2,7) gt by simp
  next
    case False
    then have r: "r < ?n" using that f(5) by simp
    then show ?thesis using assms(1) fresh_tid[OF assms(1) r] old[OF False] f(1) gt by (auto simp: tables_ok_def)
  qed
  show ?thesis by (rule tables_okI[OF _ _ P T R]) (use ok f(3,4) in simp_all)
qed

lemma new_clone_tables:
  assumes "tables_ok k" "process self < next_object k" "new_clone C self tf sp tls ct k = (t, k')"
  shows "tables_ok k'"
proof -
  note f = new_clone_result[OF assms(3)]
  have ok: "bt_ok (PROCESSES k)" "bt_ok (THREADS k)" using assms(1) by (simp_all add: tables_ok_def)
  have gt: "bt_get (THREADS k') = (bt_get (THREADS k))(tid t \<mapsto> t)" unfolding f(4) by (rule bt.get_ins[OF ok(2)])
  have R: "distinct (threads (objects k' r)) \<and>
      (\<forall>s \<in> set (threads (objects k' r)). \<exists>th. bt_get (THREADS k') s = Some th \<and> process th = r)"
    if "r < next_object k'" for r
    using that assms(1) fresh_tid[OF assms(1), of r] f(1,2,5,6) gt by (auto simp: tables_ok_def)
  have P: "pid (objects k' r) = p \<and> r < next_object k'" if "bt_get (PROCESSES k') p = Some r" for p r
    using tables_okD(3)[OF assms(1), of p r] that f(3,5,6) by auto
  have T: "tid th = s \<and> process th < next_object k'" if "bt_get (THREADS k') s = Some th" for s th
    using tables_okD(4)[OF assms(1), of s th] that assms(2) f(2,5) gt by (cases "s = tid t") auto
  show ?thesis by (rule tables_okI[OF _ _ P T R]) (use ok f(3,4) in simp_all)
qed

lemma objects_local_tables:
  assumes "tables_ok k" "pid p = pid (objects k r)" "set (threads p) \<subseteq> set (threads (objects k r))" "distinct (threads p)"
  shows "tables_ok (set_process r p k)"
proof (rule tables_okI)
  fix q assume "q < next_object (set_process r p k)"
  then have q: "q < next_object k" by simp
  show "distinct (threads (objects (set_process r p k) q)) \<and>
      (\<forall>t \<in> set (threads (objects (set_process r p k) q)). \<exists>th. bt_get (THREADS (set_process r p k)) t = Some th \<and> process th = q)"
    using tables_okD(5,6)[OF assms(1) q] assms(3,4) by auto
next
  show "pid (objects (set_process r p k) q) = i \<and> q < next_object (set_process r p k)"
    if "bt_get (PROCESSES (set_process r p k)) i = Some q" for i q
    using tables_okD(3)[OF assms(1), of i q] assms(2) that by auto
  show "tid th = t \<and> process th < next_object (set_process r p k)"
    if "bt_get (THREADS (set_process r p k)) t = Some th" for t th
    using tables_okD(4)[OF assms(1), of t th] that by simp
qed (use tables_okD(1,2)[OF assms(1)] in simp_all)


definition same_ids :: "('pt, 'i, 'w) Process \<Rightarrow> ('pt, 'i, 'w) Process \<Rightarrow> bool" where
  "same_ids p q \<longleftrightarrow> pid p = pid q \<and> threads p = threads q \<and> exit_code p = exit_code q \<and> children p = children q \<and>
     parent p = parent q \<and> files p = files q \<and> pgid p = pgid q"

lemma notify_parent_result:
  assumes "notify_parent r k = (woken, k')"
  shows "PROCESSES k' = PROCESSES k" "THREADS k' = THREADS k" "next_object k' = next_object k" "held k' = held k"
    "same_ids (objects k' q) (objects k q)"
  using assms by (auto simp: notify_parent_def upgrade_def Let_def same_ids_def split: prod.splits option.splits if_splits)

lemma process_exit_result:
  assumes "process_exit ec r k = (woken, k')"
  shows "PROCESSES k' = PROCESSES k" "THREADS k' = fold bt_remove (threads (objects k r)) (THREADS k)"
    "next_object k' = next_object k" "held k' = held k"
    "same_ids (objects k' r) ((objects k r)\<lparr>files := [], exit_code := ec, threads := []\<rparr>)"
    "q \<noteq> r \<Longrightarrow> same_ids (objects k' q) (objects k q)"
proof -
  obtain w bus where b: "bus_set PROCESS_QUIT (event_bus (objects k r)) = (w, bus)" by fastforce
  define p where "p = (objects k r)\<lparr>files := [], event_bus := bus\<rparr>"
  obtain w' k1 where n: "notify_parent r (set_process r p k) = (w', k1)" by fastforce
  note n' = notify_parent_result[OF n]
  have k': "k' = set_process r ((objects k1 r)\<lparr>exit_code := ec, threads := []\<rparr>)
      (k1\<lparr>THREADS := fold bt_remove (threads (objects k1 r)) (THREADS k1)\<rparr>)"
    using assms b n by (simp add: process_exit_def drop_files_def Let_def p_def)
  show "PROCESSES k' = PROCESSES k" "next_object k' = next_object k" "held k' = held k" using n'(1,3,4) by (simp_all add: k')
  show "THREADS k' = fold bt_remove (threads (objects k r)) (THREADS k)"
    using n'(2) n'(5)[of r] by (simp add: k' p_def same_ids_def)
  show "same_ids (objects k' r) ((objects k r)\<lparr>files := [], exit_code := ec, threads := []\<rparr>)"
    using n'(5)[of r] by (simp add: k' p_def same_ids_def)
  show "same_ids (objects k' q) (objects k q)" if "q \<noteq> r" using that n'(5)[of q] by (simp add: k')
qed

lemma process_exit_tables:
  assumes "tables_ok k" "r < next_object k" "process_exit ec r k = (woken, k')"
  shows "tables_ok k'"
proof -
  note x = process_exit_result[OF assms(3)] and ok = tables_okD[OF assms(1)]
  note gt = bt_remove_all[OF ok(2), of "threads (objects k r)", folded x(2)]
  have o: "pid (objects k' q) = pid (objects k q)" "threads (objects k' q) = (if q = r then [] else threads (objects k q))" for q
    using x(5) x(6)[of q] by (cases "q = r"; simp add: same_ids_def)+
  show ?thesis
  proof (rule tables_okI)
    show "bt_ok (PROCESSES k')" using ok(1) x(1) by simp
    show "bt_ok (THREADS k')" by (rule gt(1))
    show "pid (objects k' q) = p \<and> q < next_object k'" if "bt_get (PROCESSES k') p = Some q" for p q
      using ok(3)[of p q] that x(1,3) o(1) by simp
    show "tid th = t \<and> process th < next_object k'" if "bt_get (THREADS k') t = Some th" for t th
      using ok(4)[of t th] that x(3) gt(2) by (simp split: if_splits)
    fix q assume "q < next_object k'"
    then have q: "q < next_object k" using x(3) by simp
    have "t \<notin> set (threads (objects k r))" if "t \<in> set (threads (objects k q))" "q \<noteq> r" for t
      using ok(6)[OF q that(1)] ok(6)[OF assms(2), of t] that(2) by auto
    then show "distinct (threads (objects k' q)) \<and> (\<forall>t \<in> set (threads (objects k' q)). \<exists>th. bt_get (THREADS k') t = Some th \<and> process th = q)"
      using ok(5,6)[OF q] gt(2) o(2)[of q] by auto
  qed
qed

definition held_ok :: "('pt, 'b, 'i, 'w, 's) kernel \<Rightarrow> bool" where
  "held_ok k \<longleftrightarrow> (\<forall>r \<in> set (held k). r < next_object k)"

lemma mem_tables [simp]:
  "tables_ok (k\<lparr>mem_frames := f, mem_ram := m\<rparr>) = tables_ok k" "tables_ok (k\<lparr>fsys := g\<rparr>) = tables_ok k"
  "tables_ok (k\<lparr>held := h\<rparr>) = tables_ok k"
  by (simp_all add: tables_ok_def)

lemma sys_fork_result:
  assumes "sys_fork M nt C self tf k = Inr (res, k')"
  obtains as pt f m t k1 where "fork C as pt self tf (k\<lparr>mem_frames := f, mem_ram := m\<rparr>) = (t, k1)"
    "k' = thread_spawn t k1" "res = Inr (pid (objects k1 (process t)))"
  using assms by (auto simp: sys_fork_def fork_vm_def Let_def bindE_def thread_spawn_def split: sum.splits prod.splits)

lemma sys_fork_tables:
  assumes "tables_ok k" "held_ok k" "process self \<in> set (held k)" "sys_fork M nt C self tf k = Inr (res, k')"
  shows "tables_ok k' \<and> held_ok k'"
proof -
  obtain as pt f m t k1 where f: "fork C as pt self tf (k\<lparr>mem_frames := f, mem_ram := m\<rparr>) = (t, k1)"
    and k': "k' = thread_spawn t k1" using sys_fork_result[OF assms(4)] by metis
  have s: "process self < next_object (k\<lparr>mem_frames := f, mem_ram := m\<rparr>)" using assms(2,3) by (simp add: held_ok_def)
  have "tables_ok k1" by (rule fork_tables[OF _ s f]) (simp add: assms(1))
  then show ?thesis using fork_result(2,5,6)[OF f s] assms(2) by (auto simp: k' thread_spawn_def held_ok_def less_SucI)
qed

lemma sys_clone_cases:
  assumes "sys_clone M nt C self tf flags nsp ptid ctid tls k = Inr (res, ws, k')"
  obtains "sys_fork M nt C self tf k = Inr (res, k')"
  | "k' = k"
  | t k1 where "new_clone C self tf nsp tls ctid k = (t, k1)" "k' = thread_spawn t k1"
  using assms by (auto simp: sys_clone_def Let_def bindE_def split: sum.splits prod.splits if_splits)

lemma sys_clone_tables:
  assumes "tables_ok k" "held_ok k" "process self \<in> set (held k)"
    "sys_clone M nt C self tf flags nsp ptid ctid tls k = Inr (res, ws, k')"
  shows "tables_ok k' \<and> held_ok k'"
  using assms(4)
proof (cases rule: sys_clone_cases)
  case 1
  then show ?thesis by (rule sys_fork_tables[OF assms(1-3)])
next
  case 2
  then show ?thesis using assms by simp
next
  case (3 t k1)
  have s: "process self < next_object k" using assms(2,3) by (simp add: held_ok_def)
  have "held k1 = held k" using 3(1) by (auto simp: new_clone_def add_to_table_def Let_def)
  then show ?thesis using new_clone_tables[OF assms(1) s 3(1)] new_clone_result(2,5)[OF 3(1)] assms(2) s
    by (auto simp: 3(2) thread_spawn_def held_ok_def)
qed

lemma local_tables:
  assumes "tables_ok k" "held_ok k" "pid p = pid (objects k r)" "threads p = threads (objects k r)" "r < next_object k"
  shows "tables_ok (set_process r p k) \<and> held_ok (set_process r p k)"
  using objects_local_tables[OF assms(1,3), of] tables_okD(5)[OF assms(1,5)] assms(2,4) by (simp add: held_ok_def)

lemma sys_exit_tables:
  assumes "tables_ok k" "held_ok k" "process self < next_object k" "sys_exit ec self k = (w, k')"
  shows "tables_ok k' \<and> held_ok k'"
proof -
  define p where "p = (objects k (process self))\<lparr>threads := filter (\<lambda>t. t \<noteq> tid self) (threads (objects k (process self)))\<rparr>"
  have t: "tables_ok (set_process (process self) p k)"
    by (rule objects_local_tables[OF assms(1)]) (use tables_okD(5)[OF assms(1,3)] in \<open>auto simp: p_def\<close>)
  show ?thesis
  proof (cases "threads p = []")
    case True
    then have x: "process_exit ec (process self) (set_process (process self) p k) = (w, k')"
      using assms(4) by (simp add: sys_exit_def Let_def p_def)
    show ?thesis using process_exit_tables[OF t _ x] process_exit_result(3,4)[OF x] assms(2,3) by (simp add: held_ok_def)
  next
    case False
    then have "k' = set_process (process self) p k" using assms(4) by (auto simp: sys_exit_def Let_def p_def)
    then show ?thesis using t assms(2) by (simp add: held_ok_def)
  qed
qed

lemma reap_tables:
  assumes "tables_ok k" "self < next_object k"
  shows "tables_ok (reap self p k)"
proof -
  have "tables_ok (k\<lparr>PROCESSES := bt_remove p (PROCESSES k)\<rparr>)"
    using assms(1) bt_get_remove[of p "PROCESSES k"] by (auto simp: tables_ok_def split: if_splits)
  from objects_local_tables[OF this, of _ self] show ?thesis
    using tables_okD(5)[OF assms] by (simp add: reap_def Let_def)
qed

lemma wait_tables:
  assumes "tables_ok k" "held_ok k" "self < next_object k"
  shows "wait_top self tg k = (pc, k') \<Longrightarrow> tables_ok k' \<and> held_ok k'"
    "wait_await w self k = (pc, k') \<Longrightarrow> tables_ok k' \<and> held_ok k'"
    "wait_clear self k = (pc, ws, k') \<Longrightarrow> tables_ok k' \<and> held_ok k'"
proof -
  note l = local_tables[OF assms(1,2) _ _ assms(3)]
  show "wait_top self tg k = (pc, k') \<Longrightarrow> tables_ok k' \<and> held_ok k'"
    using assms(1,2) reap_tables[OF assms(1,3)] 
    by (auto simp: wait_top_def reap_def held_ok_def Let_def split: if_splits option.splits prod.splits)
  show "wait_await w self k = (pc, k') \<Longrightarrow> tables_ok k' \<and> held_ok k'"
    using l by (auto simp: wait_await_def Let_def split: poll.splits prod.splits)
  show "wait_clear self k = (pc, ws, k') \<Longrightarrow> tables_ok k' \<and> held_ok k'"
    using l by (auto simp: wait_clear_def Let_def split: prod.splits)
qed

lemma new_user_result:
  assumes "new_user C tty as pt e u path k = (t, k')"
  shows "tid t = first_free (THREADS k) PID_INIT" "process t = next_object k"
    "PROCESSES k' = bt_insert (tid t) (next_object k) (PROCESSES k)" "THREADS k' = bt_insert (tid t) t (THREADS k)"
    "next_object k' = Suc (next_object k)" "held k' = held k"
    "threads (objects k' (next_object k)) = []" "pid (objects k' (next_object k)) = tid t"
    "r \<noteq> next_object k \<Longrightarrow> objects k' r = objects k r"
  using assms by (auto simp: new_user_def add_to_table_def add_to_process_table_def alloc_process_def Let_def split: prod.splits)

lemma new_user_tables:
  assumes "tables_ok k" "held_ok k" "new_user C tty as pt e u path k = (t, k')"
  shows "tables_ok (thread_spawn t k') \<and> held_ok (thread_spawn t k')"
proof -
  note ok = tables_okD[OF assms(1)] and n = new_user_result[OF assms(3)]
  note gp = bt.get_ins[OF ok(1), of "tid t" "next_object k", folded n(3)]
    and gt = bt.get_ins[OF ok(2), of "tid t" t, folded n(4)]
  have "tables_ok k'"
  proof (rule tables_okI)
    show "bt_ok (PROCESSES k')" "bt_ok (THREADS k')" using ok(1,2) n(3,4) by simp_all
    show "pid (objects k' r) = i \<and> r < next_object k'" if "bt_get (PROCESSES k') i = Some r" for i r
      using that ok(3)[of i r] n(5,8) n(9)[of r] gp by (cases "i = tid t"; cases "r = next_object k") auto
    show "tid th = i \<and> process th < next_object k'" if "bt_get (THREADS k') i = Some th" for i th
      using that ok(4)[of i th] n(2,5) gt by (cases "i = tid t") auto
    fix r assume "r < next_object k'"
    then have r: "r \<noteq> next_object k \<Longrightarrow> r < next_object k" using n(5) by simp
    show "distinct (threads (objects k' r)) \<and> (\<forall>i \<in> set (threads (objects k' r)). \<exists>th. bt_get (THREADS k') i = Some th \<and> process th = r)"
    proof (cases "r = next_object k")
      case False
      then show ?thesis using ok(5,6)[OF r[OF False]] fresh_tid[OF assms(1) r[OF False]] n(1) n(9)[OF False] gt by auto
    qed (simp add: n(7))
  qed
  then show ?thesis using assms(2) n(2,5,6) by (auto simp: thread_spawn_def held_ok_def less_SucI)
qed

section \<open>All histories of the process table\<close>

text \<open>One step is one system call, one locked region of \<open>sys_wait4\<close>, the first process of the system, or
  the end of a thread's task, which drops its reference to the process.\<close>

inductive proc_step :: "('pt, 'b, 'i, 'w, 's) kernel \<Rightarrow> ('pt, 'b, 'i, 'w, 's) kernel \<Rightarrow> bool" where
  do_fork: "process self \<in> set (held k) \<Longrightarrow> sys_fork M nt C self tf k = Inr (res, k') \<Longrightarrow> proc_step k k'"
| do_clone: "process self \<in> set (held k) \<Longrightarrow>
    sys_clone M nt C self tf flags nsp ptid ctid tls k = Inr (res, ws, k') \<Longrightarrow> proc_step k k'"
| do_new_user: "new_user C tty as pt e u path k = (t, k') \<Longrightarrow> proc_step k (thread_spawn t k')"
| do_exit: "process self \<in> set (held k) \<Longrightarrow> sys_exit ec self k = (woken, k') \<Longrightarrow> proc_step k k'"
| do_exit_group: "process self \<in> set (held k) \<Longrightarrow> sys_exit_group ec self k = (woken, k') \<Longrightarrow> proc_step k k'"
| do_wait_top: "self \<in> set (held k) \<Longrightarrow> wait_top self target k = (pc, k') \<Longrightarrow> proc_step k k'"
| do_wait_await: "self \<in> set (held k) \<Longrightarrow> wait_await w self k = (pc, k') \<Longrightarrow> proc_step k k'"
| do_wait_clear: "self \<in> set (held k) \<Longrightarrow> wait_clear self k = (pc, woken, k') \<Longrightarrow> proc_step k k'"
| do_set_pgid: "self \<in> set (held k) \<Longrightarrow> sys_set_pgid self p g k = (res, k') \<Longrightarrow> proc_step k k'"
| task_end: "proc_step k (k\<lparr>held := remove1 r (held k)\<rparr>)"

inductive proc_reach :: "('pt, 'b, 'i, 'w, 's) kernel \<Rightarrow> ('pt, 'b, 'i, 'w, 's) kernel \<Rightarrow> bool" for k0 where
  "proc_reach k0 k0"
| "proc_reach k0 k \<Longrightarrow> proc_step k k' \<Longrightarrow> proc_reach k0 k'"

lemma proc_step_tables:
  assumes "proc_step k k'" "tables_ok k \<and> held_ok k"
  shows "tables_ok k' \<and> held_ok k'"
  using assms
proof (induction rule: proc_step.induct)
  case (do_fork self k M nt C tf res k')
  then show ?case using sys_fork_tables[of k self M nt C tf res k'] by simp
next
  case (do_clone self k M nt C tf flags nsp ptid ctid tls res ws k')
  then show ?case using sys_clone_tables[of k self M nt C tf flags nsp ptid ctid tls res ws k'] by simp
next
  case (do_new_user C tty as pt e u path k t k')
  then show ?case using new_user_tables[of k C tty as pt e u path t k'] by simp
next
  case (do_exit self k ec woken k')
  then show ?case using sys_exit_tables[of k self ec woken k'] by (simp add: held_ok_def)
next
  case (do_exit_group self k ec woken k')
  then have r: "process self < next_object k" and x: "process_exit ec (process self) k = (woken, k')"
    by (simp_all add: held_ok_def sys_exit_group_def)
  from do_exit_group(3) show ?case
    using process_exit_tables[OF _ r x] process_exit_result(3,4)[OF x] by (simp add: held_ok_def)
next
  case (do_wait_top self k target pc k')
  then show ?case using wait_tables(1)[of k self target pc k'] by (simp add: held_ok_def)
next
  case (do_wait_await self k w pc k')
  then show ?case using wait_tables(2)[of k self w pc k'] by (simp add: held_ok_def)
next
  case (do_wait_clear self k pc woken k')
  then show ?case using wait_tables(3)[of k self pc woken k'] by (simp add: held_ok_def)
next
  case (do_set_pgid self k p g res k')
  show ?case
  proof (cases "bt_get (PROCESSES k) (if p = 0 then pid (objects k self) else p)")
    case None
    then show ?thesis using do_set_pgid by (auto simp: sys_set_pgid_def Let_def)
  next
    case (Some r)
    then have "r < next_object k" using do_set_pgid tables_okD(3) by blast
    then show ?thesis using local_tables[of k _ r] Some do_set_pgid by (auto simp: sys_set_pgid_def Let_def)
  qed
next
  case (task_end k r)
  then show ?case using set_remove1_subset[of r "held k"] by (auto simp: held_ok_def)
qed

definition kernel_boot :: "'b \<Rightarrow> (PhysAddr \<Rightarrow> u8) \<Rightarrow> 's fsys \<Rightarrow> (ProcessRef \<Rightarrow> ('pt, 'i, 'w) Process) \<Rightarrow> ('pt, 'b, 'i, 'w, 's) kernel" where
  "kernel_boot f m g obs = \<lparr>PROCESSES = [], THREADS = [], objects = obs, next_object = 0, held = [],
     mem_frames = f, mem_ram = m, fsys = g\<rparr>"

text \<open>C7: From the empty tables, whatever sequence of forks, clones, exits, waits and thread ends happens: the
  process table maps each pid to a process with that pid, the thread table each id to a thread with that id,
  and the threads a process counts are distinct, are in the thread table and belong to it; so no thread id
  is counted by two processes.\<close>
theorem tables_consistent:
  assumes "proc_reach (kernel_boot f m g obs) k"
  shows "tables_ok k \<and>
    (\<forall>r q. r < q \<and> q < next_object k \<longrightarrow> set (threads (objects k r)) \<inter> set (threads (objects k q)) = {})"
proof -
  have "tables_ok k \<and> held_ok k" using assms
  proof (induction rule: proc_reach.induct)
    case 1
    then show ?case by (simp add: kernel_boot_def tables_ok_def held_ok_def)
  next
    case (2 k k')
    then show ?case using proc_step_tables by blast
  qed
  then have ok: "tables_ok k" by simp
  have "set (threads (objects k r)) \<inter> set (threads (objects k q)) = {}" if "r < q" "q < next_object k" for r q
  proof (rule ccontr)
    assume "set (threads (objects k r)) \<inter> set (threads (objects k q)) \<noteq> {}"
    then obtain t where "t \<in> set (threads (objects k r))" "t \<in> set (threads (objects k q))" by auto
    with tables_okD(6)[OF ok, of r t] tables_okD(6)[OF ok, of q t] that show False by auto
  qed
  with ok show ?thesis by blast
qed

definition demo_ctx :: context_ops where
  "demo_ctx = \<lparr>get_sp = tf_sp, set_syscall_ret = (\<lambda>r c. c\<lparr>general := (general c)(0 := r)\<rparr>), set_sp = (\<lambda>s c. c\<lparr>tf_sp := s\<rparr>),
     set_ip = (\<lambda>i c. c\<lparr>elr := i\<rparr>), set_tls = (\<lambda>_ c. c), context_default = \<lparr>general = (\<lambda>_. 0), tf_sp = 0, elr = 0, spsr = 0\<rparr>\<rparr>"

definition demo_process :: "(Page \<rightharpoonup> u64, nat, nat) Process" where
  "demo_process = \<lparr>vm_areas = [], vm_table = Map.empty, files = [], cwd = ''/'', exec_path = [], pid = 0, pgid = 0,
     parent = (0, None), children = [], threads = [], event_bus = EventBus_new, exit_code = 0, sig_queue = [],
     pending_sigset = Sigset_empty, dispositions = []\<rparr>"

definition demo_boot :: "(Page \<rightharpoonup> u64, usize, nat, nat, nat) kernel" where
  "demo_boot = kernel_boot 0 (\<lambda>_. 0) \<lparr>fs = 0, descs = (\<lambda>_. \<lparr>offset = 0, options = \<lparr>opt_read = False, opt_write = False,
     opt_append = False\<rparr>, flock = FlockNone\<rparr>), next_desc = 0\<rparr> (\<lambda>_. demo_process)"

lemma demo_fork_vm:
  assumes "vm_areas (objects k (process self)) = []"
  shows "sys_fork M pt C self tf k =
    (let (t, k) = fork C [] pt self tf (k\<lparr>mem_frames := mem_frames k, mem_ram := mem_ram k\<rparr>)
     in Inr (Inr (pid (objects k (process t))), thread_spawn t k))"
  using assms by (simp add: sys_fork_def fork_vm_def ms_clone_def bindE_def Let_def thread_spawn_def split: prod.splits)

theorem tables_consistent_witness:
  "\<exists>k. proc_reach demo_boot k \<and> length (PROCESSES k) = 2 \<and> tables_ok k"
proof -
  obtain t k1 where n: "new_user demo_ctx 0 [] Map.empty 0 0 ''sh'' demo_boot = (t, k1)" by fastforce
  note r = new_user_result[OF n]
  define k2 where "k2 = thread_spawn t k1"
  have t: "tid t = 1" "process t = 0" "next_object k1 = 1" "THREADS k1 = [(1, t)]" "PROCESSES k1 = [(1, 0)]"
    using r by (simp_all add: demo_boot_def kernel_boot_def first_free.simps[of _ "Suc 0"] PID_INIT_def)
  have a: "vm_areas (objects k2 (process t)) = []"
    using n by (auto simp: k2_def thread_spawn_def new_user_def add_to_table_def add_to_process_table_def
        alloc_process_def Let_def split: prod.splits)
  obtain u k3 where f: "fork demo_ctx [] Map.empty t (the (ctx (inner t))) (k2\<lparr>mem_frames := mem_frames k2, mem_ram := mem_ram k2\<rparr>) = (u, k3)"
    by fastforce
  have s1: "proc_step demo_boot k2" unfolding k2_def by (rule do_new_user[OF n])
  have "sys_fork map_mmu Map.empty demo_ctx t (the (ctx (inner t))) k2 = Inr (Inr (pid (objects k3 (process u))), thread_spawn u k3)"
    unfolding demo_fork_vm[OF a] f by simp
  then have s2: "proc_step k2 (thread_spawn u k3)" by (rule do_fork[rotated]) (simp add: k2_def thread_spawn_def)
  have reach: "proc_reach demo_boot (thread_spawn u k3)"
    by (rule proc_reach.intros(2)[OF proc_reach.intros(2)[OF proc_reach.intros(1) s1] s2])
  have "tid u = 2" "PROCESSES k3 = bt_insert (tid u) 1 [(1, 0)]"
    using fork_result(1,3)[OF f] t by (simp_all add: k2_def thread_spawn_def first_free.simps[of _ "Suc 0"] first_free.simps[of _ "Suc (Suc 0)"] numeral_2_eq_2 PID_INIT_def)
  then have "length (PROCESSES (thread_spawn u k3)) = 2" by (simp add: thread_spawn_def)
  with reach tables_consistent[OF reach[unfolded demo_boot_def]] show ?thesis by blast
qed

end
