(* ===== verification/Process_Wait.thy ===== *)
theory Process_Wait
  imports Process_Tables
begin

text \<open>
  What a parent learns of its children (\<^verbatim>\<open>sys_wait4\<close> with \<^verbatim>\<open>fork\<close> and \<^verbatim>\<open>exit\<close>): the status of a child
  reaches it, a waiting thread is woken, and how a status is lost when a pid is used again.
\<close>

section \<open>The exit status reaches the parent\<close>

lemma bus_set_event [simp]: "bus_set st bus = (woken, bus') \<Longrightarrow> event bus' = event bus OR st"
  by (auto simp: bus_set_def bus_change_def Let_def split: if_splits)

lemma child_quit_nonzero [simp]: "CHILD_PROCESS_QUIT \<noteq> 0"
  by (simp add: CHILD_PROCESS_QUIT_def)

lemma notify_parent_event:
  assumes "notify_parent r k = (woken, k')" "snd (parent (objects k r)) = Some q" "q \<in> alive k"
  shows "event (event_bus (objects k' q)) AND CHILD_PROCESS_QUIT \<noteq> 0"
  using assms by (auto simp: notify_parent_def upgrade_def Let_def split: prod.splits)

lemma process_exit_event:
  assumes "process_exit ec r k = (woken, k')" "snd (parent (objects k r)) = Some q" "q \<in> alive k"
  shows "event (event_bus (objects k' q)) AND CHILD_PROCESS_QUIT \<noteq> 0"
proof -
  obtain w bus where b: "bus_set PROCESS_QUIT (event_bus (objects k r)) = (w, bus)" by fastforce
  define p where "p = (objects k r)\<lparr>files := [], event_bus := bus\<rparr>"
  obtain w' k1 where n: "notify_parent r (set_process r p k) = (w', k1)" by fastforce
  have k': "k' = set_process r ((objects k1 r)\<lparr>exit_code := ec, threads := []\<rparr>)
      (k1\<lparr>THREADS := fold bt_remove (threads (objects k1 r)) (THREADS k1)\<rparr>)"
    using assms(1) b n by (simp add: process_exit_def drop_files_def Let_def p_def)
  have "event (event_bus (objects k1 q)) AND CHILD_PROCESS_QUIT \<noteq> 0"
    by (rule notify_parent_event[OF n]) (use assms(2,3) in \<open>simp_all add: p_def\<close>)
  then show ?thesis by (cases "q = r") (simp_all add: k')
qed

text \<open>C13: A parent forks, the child ends with a status, and nothing else happens to the child: then the parent
  has its child event set, and its \<open>wait4\<close> for the child's pid returns that pid and that status at its first
  turn, after which the pid is free and the child is no longer listed.\<close>
theorem exit_status_delivered:
  assumes "tables_ok k" "held_ok k" "process self \<in> set (held k)"
    "sys_fork M nt C self tf k = Inr (Inr p, k1)" "process_by_pid p k1 = Some (process child)"
    "sys_exit_group ec child k1 = (woken, k2)"
  shows "event (event_bus (objects k2 (process self))) AND CHILD_PROCESS_QUIT \<noteq> 0 \<and>
    (\<exists>k3. wait_top (process self) (WaitPid p) k2 = (WDone (Inr (p, ec)), k3) \<and>
          process_by_pid p k3 = None \<and> p \<notin> fst ` set (children (objects k3 (process self))))"
proof -
  obtain as pt f m t k0 where f: "fork C as pt self tf (k\<lparr>mem_frames := f, mem_ram := m\<rparr>) = (t, k0)"
    and k1: "k1 = thread_spawn t k0" and p: "p = pid (objects k0 (process t))"
    using sys_fork_result[OF assms(4)] by (metis sum.inject(2))
  have s: "process self < next_object (k\<lparr>mem_frames := f, mem_ram := m\<rparr>)" using assms(2,3) by (simp add: held_ok_def)
  note r = fork_result[OF f s]
  have pt: "p = tid t" using p r(2,8) by simp
  have ok: "tables_ok k1" using sys_fork_tables[OF assms(1-4)] by blast
  have "bt_get (PROCESSES k1) p = Some (next_object k)"
    using r(3) bt.get_ins[OF tables_okD(1)[OF assms(1)]] by (simp add: k1 pt thread_spawn_def)
  then have c: "process child = next_object k" using assms(5) by (simp add: process_by_pid_def)
  have ne: "next_object k \<noteq> process self" using s by simp
  have x: "process_exit ec (next_object k) k1 = (woken, k2)" using assms(6) c by (simp add: sys_exit_group_def)
  note x' = process_exit_result[OF x]
  have "event (event_bus (objects k2 (process self))) AND CHILD_PROCESS_QUIT \<noteq> 0"
    by (rule process_exit_event[OF x]) (use r(6,10) assms(3) in \<open>simp_all add: k1 thread_spawn_def alive_def\<close>)
  moreover have find: "wait_find (process self) (WaitPid p) k2 = Some (p, ec)"
    using x'(1,5) assms(5) c r(8) by (simp add: process_by_pid_def exited_def same_ids_def pt k1 thread_spawn_def)
  moreover have "process_by_pid p k2 \<noteq> Some (process self)"
    using x'(1) assms(5) c ne by (simp add: process_by_pid_def)
  moreover have "process_by_pid p (reap (process self) p k2) = None"
    by (simp add: reap_def process_by_pid_def Let_def bt_get_remove)
  moreover have "p \<notin> fst ` set (children (objects (reap (process self) p k2) (process self)))"
    by (auto simp: reap_def Let_def)
  ultimately show ?thesis by (auto simp: wait_top_def)
qed

text \<open>A thread that leaves by \<open>sys_exit\<close> is never removed from the thread table, so that its id is never used
  again.\<close>

lemma sys_exit_keeps_tid:
  assumes "sys_exit ec self k = (woken, k')"
  shows "THREADS k' = THREADS k"
proof (cases "filter (\<lambda>t. t \<noteq> tid self) (threads (objects k (process self))) = []")
  case True
  define p where "p = (objects k (process self))\<lparr>threads := []\<rparr>"
  from True have "process_exit ec (process self) (set_process (process self) p k) = (woken, k')"
    using assms by (simp add: sys_exit_def Let_def p_def)
  from process_exit_result(2)[OF this] show ?thesis by (simp add: p_def)
next
  case False
  then show ?thesis using assms by (auto simp: sys_exit_def Let_def)
qed

lemma fork_replaces:
  assumes "tables_ok k" "process self < next_object k" "process_by_pid z k = Some r"
    "r \<notin> process ` snd ` set (THREADS k) \<union> set (held k)" "first_free (THREADS k) PID_INIT = z"
    "fork C as pt self tf k = (t, k')"
  shows "r \<notin> alive k'" "process_by_pid z k' = Some (next_object k)"
proof -
  note n = fork_result[OF assms(6,2)] and ok = tables_okD[OF assms(1)]
  have z: "tid t = z" "pid (objects k r) = z" "r < next_object k"
    using n(1) assms(3,5) ok(3)[of z r] by (simp_all add: process_by_pid_def)
  have gp: "bt_get (PROCESSES k') = (bt_get (PROCESSES k))(z \<mapsto> next_object k)" using n(3) bt.get_ins[OF ok(1)] z by simp
  then show "process_by_pid z k' = Some (next_object k)" by (simp add: process_by_pid_def)
  have "r \<notin> snd ` set (PROCESSES k')"
  proof
    assume "r \<in> snd ` set (PROCESSES k')"
    then obtain i where i: "bt_get (PROCESSES k') i = Some r"
      using bt_ok_distinct[of "PROCESSES k'"] ok(1) n(3) by force
    then have "i \<noteq> z \<and> bt_get (PROCESSES k) i = Some r" using gp z(3) by (auto split: if_splits)
    then show False using ok(3)[of i r] z(2) by auto
  qed
  moreover have "set (THREADS k') = insert (z, t) (set (THREADS k))"
    using bt_insert_set[of z "THREADS k" t] first_free_least[of "THREADS k" PID_INIT] n(4) z(1) assms(5)
    by (simp add: map_of_eq_None_iff)
  ultimately show "r \<notin> alive k'" using assms(4) n(2,6) z(3) by (auto simp: alive_def)
qed


section \<open>A waiting parent is woken\<close>

text \<open>One thread of the process \<open>self\<close> runs \<open>sys_wait4\<close> for any child, while other threads fork and exit.\<close>

inductive wait_step :: "ProcessRef \<Rightarrow> wait_pc \<times> ('pt, 'b, 'i, 'w, 's) kernel \<Rightarrow> wait_pc \<times> ('pt, 'b, 'i, 'w, 's) kernel \<Rightarrow> bool"
  for self where
  ws_top: "wait_top self AnyChild k = (pc, k') \<Longrightarrow> wait_step self (WTop, k) (pc, k')"
| ws_await: "wait_await w self k = (pc, k') \<Longrightarrow> wait_step self (WAwait, k) (pc, k')"
| ws_clear: "wait_clear self k = (pc, woken, k') \<Longrightarrow> wait_step self (WClear, k) (pc, k')"
| ws_fork: "process t \<in> set (held k) \<Longrightarrow> sys_fork M nt C t tf k = Inr (res, k') \<Longrightarrow> wait_step self (pc, k) (pc, k')"
| ws_exit: "process t \<noteq> self \<Longrightarrow> process t < next_object k \<Longrightarrow> sys_exit ec t k = (woken, k') \<Longrightarrow> wait_step self (pc, k) (pc, k')"
| ws_exit_group: "process t \<noteq> self \<Longrightarrow> process t < next_object k \<Longrightarrow> sys_exit_group ec t k = (woken, k') \<Longrightarrow>
    wait_step self (pc, k) (pc, k')"

definition zombie_child :: "ProcessRef \<Rightarrow> ('pt, 'b, 'i, 'w, 's) kernel \<Rightarrow> bool" where
  "zombie_child self k \<longleftrightarrow> (\<exists>i r. (i, r) \<in> set (children (objects k self)) \<and> r \<in> alive k \<and> exited (objects k r))"

definition family_ok :: "ProcessRef \<Rightarrow> ('pt, 'b, 'i, 'w, 's) kernel \<Rightarrow> bool" where
  "family_ok self k \<longleftrightarrow> held_ok k \<and> self \<in> set (held k) \<and>
     (\<forall>i r. (i, r) \<in> set (children (objects k self)) \<longrightarrow>
        r < next_object k \<and> r \<noteq> self \<and> snd (parent (objects k r)) = Some self)"

definition wait_inv :: "ProcessRef \<Rightarrow> wait_pc \<times> ('pt, 'b, 'i, 'w, 's) kernel \<Rightarrow> bool" where
  "wait_inv self s \<longleftrightarrow> family_ok self (snd s) \<and>
     (fst s = WAwait \<longrightarrow> zombie_child self (snd s) \<longrightarrow> event (event_bus (objects (snd s) self)) AND CHILD_PROCESS_QUIT \<noteq> 0)"

lemma first_exited_None:
  "first_exited k cs = None \<longleftrightarrow> (\<forall>i r. (i, r) \<in> set cs \<longrightarrow> r \<in> alive k \<longrightarrow> \<not> exited (objects k r))"
  by (induction k cs rule: first_exited.induct) (auto simp: upgrade_def split: option.splits)

lemma zombie_child_found: "zombie_child self k \<longleftrightarrow> wait_find self AnyChild k \<noteq> None"
  by (auto simp: zombie_child_def first_exited_None)

abbreviation child_event :: "ProcessRef \<Rightarrow> ('pt, 'b, 'i, 'w, 's) kernel \<Rightarrow> bool" where
  "child_event self k \<equiv> event (event_bus (objects k self)) AND CHILD_PROCESS_QUIT \<noteq> 0"

lemma bus_event_mono: "e AND m \<noteq> (0 :: Event) \<Longrightarrow> (e OR st) AND m \<noteq> 0"
  by (metis and.commute bit.conj_disj_distrib or_eq_0_iff)

lemma process_exit_event_mono:
  assumes "process_exit ec r k = (woken, k')" "q \<noteq> r" "child_event q k"
  shows "child_event q k'"
  using assms
  by (auto simp: process_exit_def drop_files_def notify_parent_def upgrade_def Let_def bus_event_mono
      split: prod.splits option.splits if_splits)

lemma process_exit_alive: "process_exit ec r k = (woken, k') \<Longrightarrow> alive k' \<subseteq> alive k"
  using process_exit_result(1,2,4)[of ec r k woken k'] bt_remove_mem[of _ "threads (objects k r)" "THREADS k"]
  unfolding alive_def by (intro Un_mono image_mono subsetI) simp_all

lemma process_exit_wait:
  assumes "family_ok self k" "r \<noteq> self" "process_exit ec r k = (woken, k')"
    "\<And>i q. \<lbrakk>A; (i, q) \<in> set (children (objects k self)); q \<noteq> r; q \<in> alive k; exited (objects k q)\<rbrakk> \<Longrightarrow> child_event self k"
  shows "family_ok self k' \<and> (A \<longrightarrow> zombie_child self k' \<longrightarrow> child_event self k')"
proof -
  note x = process_exit_result[OF assms(3)]
  have c: "children (objects k' self) = children (objects k self)" using x(6)[of self] assms(2) by (simp add: same_ids_def)
  have p: "parent (objects k' q) = parent (objects k q)" for q using x(5) x(6)[of q] by (cases "q = r") (simp_all add: same_ids_def)
  have "child_event self k'" if A and z: "zombie_child self k'"
  proof -
    obtain i q where d: "(i, q) \<in> set (children (objects k self))" "q \<in> alive k'" "exited (objects k' q)"
      using z by (auto simp: zombie_child_def c)
    show ?thesis
    proof (cases "q = r")
      case True
      then show ?thesis using process_exit_event[OF assms(3)] assms(1) d(1) by (auto simp: family_ok_def alive_def)
    next
      case False
      then have "exited (objects k q)" using d(3) x(6)[of q] by (simp add: exited_def same_ids_def)
      moreover have "q \<in> alive k" using d(2) process_exit_alive[OF assms(3)] by auto
      ultimately show ?thesis using assms(4)[OF that(1) d(1) False] process_exit_event_mono[OF assms(3)] assms(2) by auto
    qed
  qed
  moreover have "family_ok self k'" using assms(1) unfolding family_ok_def held_ok_def c p x(3,4) .
  ultimately show ?thesis by blast
qed

lemma sys_exit_wait:
  assumes "family_ok self k" "process t \<noteq> self" "sys_exit ec t k = (woken, k')" "A \<longrightarrow> zombie_child self k \<longrightarrow> child_event self k"
  shows "family_ok self k' \<and> (A \<longrightarrow> zombie_child self k' \<longrightarrow> child_event self k')"
proof -
  define r where "r = process t"
  define p where "p = (objects k r)\<lparr>threads := filter (\<lambda>i. i \<noteq> tid t) (threads (objects k r))\<rparr>"
  have f: "family_ok self (set_process r p k)"
    using assms(1,2) by (auto simp: family_ok_def held_ok_def p_def r_def)
  show ?thesis
  proof (cases "threads p = []")
    case True
    then have x: "process_exit ec r (set_process r p k) = (woken, k')"
      using assms(3) by (simp add: sys_exit_def Let_def p_def r_def)
    show ?thesis
      by (rule process_exit_wait[OF f _ x]) (use assms(2,4) in \<open>auto simp: r_def zombie_child_def\<close>)
  next
    case False
    then have k': "k' = set_process r p k" using assms(3) by (auto simp: sys_exit_def Let_def p_def r_def)
    have "zombie_child self k" if "zombie_child self k'"
      using that False assms(2) by (auto simp: zombie_child_def k' exited_def r_def split: if_splits)
    then show ?thesis using f assms(2,4) by (auto simp: k' r_def)
  qed
qed

lemma sys_fork_wait:
  assumes "family_ok self k" "process t \<in> set (held k)" "sys_fork M nt C t tf k = Inr (res, k')"
    "A \<longrightarrow> zombie_child self k \<longrightarrow> child_event self k"
  shows "family_ok self k' \<and> (A \<longrightarrow> zombie_child self k' \<longrightarrow> child_event self k')"
proof -
  obtain as pt f m u k0 where f: "fork C as pt t tf (k\<lparr>mem_frames := f, mem_ram := m\<rparr>) = (u, k0)"
    and k': "k' = thread_spawn u k0" using sys_fork_result[OF assms(3)] by metis
  have s: "process t < next_object (k\<lparr>mem_frames := f, mem_ram := m\<rparr>)" using assms(1,2) by (simp add: family_ok_def held_ok_def)
  note n = fork_result[OF f s, simplified]
  have self: "self < next_object k" using assms(1) by (auto simp: family_ok_def held_ok_def)
  have old: "parent (objects k' q) = parent (objects k q)" "exited (objects k' q) = exited (objects k q)"
    "event_bus (objects k' q) = event_bus (objects k q)" if "q < next_object k" for q
    using n(11) n(12)[of q] that s by (cases "q = process t"; simp add: k' thread_spawn_def exited_def)+
  have ch: "set (children (objects k' self)) = set (children (objects k self)) \<or>
      set (children (objects k' self)) = insert (tid u, next_object k) (set (children (objects k self))) \<and> process t = self"
    using n(11) n(12)[of self] self by (cases "self = process t") (simp_all add: k' thread_spawn_def)
  have al: "alive k' \<subseteq> insert (next_object k) (alive k)"
    using n(2-4,6) by (auto simp: alive_def k' thread_spawn_def dest!: bt_insert_mem)
  have new: "\<not> exited (objects k' (next_object k))" "snd (parent (objects k' (next_object k))) = Some (process t)"
    using n(7,10) by (simp_all add: k' thread_spawn_def exited_def)
  have kids: "q < next_object k \<and> q \<noteq> self \<and> snd (parent (objects k q)) = Some self" if "(i, q) \<in> set (children (objects k self))" for i q
    using assms(1) that by (simp add: family_ok_def)
  have "q < Suc (next_object k) \<and> q \<noteq> self \<and> snd (parent (objects k' q)) = Some self"
    if "(i, q) \<in> set (children (objects k' self))" for i q
    using that ch kids[of i q] new(2) old(1)[of q] self by auto
  then have "family_ok self k'"
    using assms(1) n(2,5,6) by (auto simp: family_ok_def held_ok_def k' thread_spawn_def less_SucI)
  moreover have "zombie_child self k" if z: "zombie_child self k'"
  proof -
    obtain i q where c: "(i, q) \<in> set (children (objects k' self))" "q \<in> alive k'" "exited (objects k' q)"
      using z by (auto simp: zombie_child_def)
    then have "q \<noteq> next_object k" using new(1) by auto
    then have c': "(i, q) \<in> set (children (objects k self))" "q \<in> alive k" using c(1,2) ch al by auto
    then show ?thesis using c(3) kids[of i q] old(2)[of q] by (auto simp: zombie_child_def)
  qed
  ultimately show ?thesis using assms(4) old(3)[OF self] by auto
qed

lemma set_process_same [simp]: "set_process r (objects k r) k = k"
  by (simp add: set_process_def)

lemma bus_family [simp]:
  "family_ok self (set_process self ((objects k self)\<lparr>event_bus := b\<rparr>) k) = family_ok self k"
  "zombie_child self (set_process self ((objects k self)\<lparr>event_bus := b\<rparr>) k) = zombie_child self k"
proof -
  have "parent (objects (set_process self ((objects k self)\<lparr>event_bus := b\<rparr>) k) r) = parent (objects k r)"
    "exited (objects (set_process self ((objects k self)\<lparr>event_bus := b\<rparr>) k) r) = exited (objects k r)"
    "children (objects (set_process self ((objects k self)\<lparr>event_bus := b\<rparr>) k) r) = children (objects k r)" for r
    by (simp_all add: exited_def)
  then show "family_ok self (set_process self ((objects k self)\<lparr>event_bus := b\<rparr>) k) = family_ok self k"
    "zombie_child self (set_process self ((objects k self)\<lparr>event_bus := b\<rparr>) k) = zombie_child self k"
    unfolding family_ok_def held_ok_def zombie_child_def by simp_all
qed

lemma reap_family:
  assumes "family_ok self k"
  shows "family_ok self (reap self p k)"
proof -
  have "(i, r) \<in> set (children (objects (reap self p k) self)) \<Longrightarrow> (i, r) \<in> set (children (objects k self))" for i r
    by (simp add: reap_def Let_def)
  moreover have "parent (objects (reap self p k) q) = parent (objects k q)" for q by (simp add: reap_def Let_def)
  moreover have "held (reap self p k) = held k" "next_object (reap self p k) = next_object k" by (simp_all add: reap_def Let_def)
  ultimately show ?thesis using assms unfolding family_ok_def held_ok_def by metis
qed

lemma wait_step_inv:
  assumes "wait_step self s s'" "wait_inv self s"
  shows "wait_inv self s'"
  using assms
proof (induction rule: wait_step.induct)
  case (ws_top k pc k')
  then have "pc = WAwait \<Longrightarrow> \<not> zombie_child self k \<and> k' = k" "k' = k \<or> (\<exists>p. k' = reap self p k)"
    by (auto simp: wait_top_def zombie_child_found split: option.splits if_splits)
  then show ?case using ws_top(2) reap_family[of self k] by (auto simp: wait_inv_def)
next
  case (ws_await w k pc k')
  then show ?case
    by (auto simp: wait_inv_def wait_await_def wait_for_event_poll_def subscribe_def Let_def split: if_splits)
next
  case (ws_clear k pc woken k')
  then show ?case by (auto simp: wait_inv_def wait_clear_def Let_def split: prod.splits)
next
  case (ws_fork t k M nt C tf res k' pc)
  then show ?case using sys_fork_wait[of self k t M nt C tf res k' "pc = WAwait"] by (simp add: wait_inv_def)
next
  case (ws_exit t k ec woken k' pc)
  then show ?case using sys_exit_wait[of self k t ec woken k' "pc = WAwait"] by (simp add: wait_inv_def)
next
  case (ws_exit_group t k ec woken k' pc)
  then have "process_exit ec (process t) k = (woken, k')" "family_ok self k" by (simp_all add: sys_exit_group_def wait_inv_def)
  from process_exit_wait[OF this(2) ws_exit_group(1) this(1), of "pc = WAwait"] ws_exit_group(4)
  show ?case by (auto simp: wait_inv_def zombie_child_def)
qed

inductive wait_reach :: "ProcessRef \<Rightarrow> wait_pc \<times> ('pt, 'b, 'i, 'w, 's) kernel \<Rightarrow> wait_pc \<times> ('pt, 'b, 'i, 'w, 's) kernel \<Rightarrow> bool"
  for self s0 where
  "wait_reach self s0 s0"
| "wait_reach self s0 s \<Longrightarrow> wait_step self s s' \<Longrightarrow> wait_reach self s0 s'"

lemma wait_reach_inv: "wait_reach self s0 s \<Longrightarrow> wait_inv self s0 \<Longrightarrow> wait_inv self s"
  by (induction rule: wait_reach.induct) (auto intro: wait_step_inv)

text \<open>C9: A thread waits for any child, alone in its process, while forks and exits happen in any order. If a
  child has ended when the thread is at its await, the thread does not sleep: it goes on at its next poll,
  and then returns the pid and status of an ended child.\<close>
theorem wait_not_missed:
  assumes "family_ok self k0" "wait_reach self (WTop, k0) (WAwait, k)" "zombie_child self k"
  shows "\<exists>k1 woken k2 p ec k3. wait_await w self k = (WClear, k1) \<and> wait_clear self k1 = (WTop, woken, k2) \<and>
    wait_top self AnyChild k2 = (WDone (Inr (p, ec)), k3) \<and>
    (\<exists>i r. (i, r) \<in> set (children (objects k self)) \<and> exited (objects k r) \<and> pid (objects k r) = p \<and> exit_code (objects k r) = ec)"
proof -
  have "wait_inv self (WTop, k0)" using assms(1) by (simp add: wait_inv_def)
  with wait_reach_inv[OF assms(2)] have "wait_inv self (WAwait, k)" by blast
  then have e: "child_event self k" using assms(3) by (simp add: wait_inv_def)
  then have a: "wait_await w self k = (WClear, set_process self (objects k self) k)"
    by (simp add: wait_await_def wait_for_event_poll_def Let_def)
  obtain ws bus where b: "bus_clear CHILD_PROCESS_QUIT (event_bus (objects k self)) = (ws, bus)" by fastforce
  define k2 where "k2 = set_process self ((objects k self)\<lparr>event_bus := bus\<rparr>) (set_process self (objects k self) k)"
  have c: "wait_clear self (set_process self (objects k self) k) = (WTop, ws, k2)"
    using b by (simp add: wait_clear_def Let_def k2_def)
  have same: "first_exited k2 cs = first_exited k cs" for cs
  proof (induction cs)
    case (Cons c cs)
    then show ?case by (cases c) (simp add: k2_def upgrade_def exited_def)
  qed simp
  have found: "\<exists>i r. (i, r) \<in> set cs \<and> exited (objects k r) \<and> pid (objects k r) = p \<and> exit_code (objects k r) = ec"
    if "first_exited k cs = Some (p, ec)" for cs p ec
    using that
  proof (induction cs)
    case (Cons c cs)
    then show ?case by (cases c) (auto simp: upgrade_def split: if_splits)
  qed simp
  obtain p ec where f: "first_exited k (children (objects k self)) = Some (p, ec)"
    using assms(3) by (auto simp: zombie_child_found)
  then have "wait_find self AnyChild k2 = Some (p, ec)" by (simp add: same) (simp add: k2_def)
  then have "wait_top self AnyChild k2 = (WDone (Inr (p, ec)), reap self p k2)" by (simp add: wait_top_def)
  with a c found[OF f] show ?thesis by blast
qed

section \<open>Sample kernels\<close>

definition demo_thread :: "Tid \<Rightarrow> ProcessRef \<Rightarrow> Thread" where
  "demo_thread i r = \<lparr>inner = \<lparr>ctx = None, clear_child_tid = 0, sig_mask = Sigset 0, signal_alternate_stack = SignalStack_default\<rparr>,
     process = r, tid = i\<rparr>"

definition demo_kernel :: "(Pid \<times> ProcessRef) list \<Rightarrow> Tid list \<Rightarrow> (Page \<rightharpoonup> u64, usize, nat, nat, nat) kernel" where
  "demo_kernel family ts =
     demo_boot\<lparr>PROCESSES := [(1, 0), (2, 1), (3, 2)], THREADS := (1, demo_thread 1 0) # map (\<lambda>t. (t, demo_thread t (t - 1))) ts,
       next_object := 3, held := 0 # map (\<lambda>t. t - 1) ts,
       objects := (\<lambda>r. demo_process\<lparr>pid := Suc r, threads := (if r = 0 \<or> Suc r \<in> set ts then [Suc r] else []),
         parent := (1, Some 0), children := (if r = 0 then family else [])\<rparr>)\<rparr>"

lemma demo_kernel_sel [simp]:
  "PROCESSES (demo_kernel fam ts) = [(1, 0), (2, 1), (3, 2)]"
  "THREADS (demo_kernel fam ts) = (1, demo_thread 1 0) # map (\<lambda>t. (t, demo_thread t (t - 1))) ts"
  "next_object (demo_kernel fam ts) = 3" "held (demo_kernel fam ts) = 0 # map (\<lambda>t. t - 1) ts"
  "objects (demo_kernel fam ts) r = demo_process\<lparr>pid := Suc r, threads := (if r = 0 \<or> Suc r \<in> set ts then [Suc r] else []),
         parent := (1, Some 0), children := (if r = 0 then fam else [])\<rparr>"
  by (simp_all add: demo_kernel_def)

lemma demo_thread_sel [simp]: "tid (demo_thread i r) = i" "process (demo_thread i r) = r"
  by (simp_all add: demo_thread_def)

lemma demo_process_sel [simp]: "vm_areas demo_process = []" "event_bus demo_process = EventBus_new" "files demo_process = []"
  by (simp_all add: demo_process_def)

lemma demo_tables: "tables_ok (demo_kernel fam [2, 3])" "tables_ok (demo_kernel fam [3])"
  by (rule tables_okI; auto simp: bt_ok_def split: if_splits)+

lemma demo_fork:
  assumes "first_free (THREADS (demo_kernel fam ts)) PID_INIT = p" "r < 3"
  shows "\<exists>k'. sys_fork map_mmu Map.empty demo_ctx (demo_thread i r) tf (demo_kernel fam ts) = Inr (Inr p, k') \<and>
    process_by_pid p k' = Some 3"
proof -
  let ?k = "demo_kernel fam ts"
  have a: "vm_areas (objects ?k (process (demo_thread i r))) = []" by simp
  obtain t k1 where f: "fork demo_ctx [] Map.empty (demo_thread i r) tf (?k\<lparr>mem_frames := mem_frames ?k, mem_ram := mem_ram ?k\<rparr>) = (t, k1)"
    by fastforce
  note n = fork_result[OF f, simplified, OF assms(2)]
  have "bt_get (PROCESSES k1) p = Some 3"
    using n(1,3) assms(1) bt.get_ins[of "[(1 :: nat, 0), (2, 1), (3, 2)]" p 3] by (simp add: bt_ok_def)
  moreover have "pid (objects k1 (process t)) = p" using n(1,2,8) assms(1) by simp
  ultimately show ?thesis unfolding demo_fork_vm[OF a] f by (auto simp: process_by_pid_def thread_spawn_def)
qed

lemma demo_free: "first_free (THREADS (demo_kernel fam [2, 3])) PID_INIT = 4" "first_free (THREADS (demo_kernel fam [3])) PID_INIT = 2"
  by (simp_all add: first_free.simps PID_INIT_def)

theorem exit_status_delivered_witness:
  "\<exists>k1 woken k2 k3. sys_fork map_mmu Map.empty demo_ctx (demo_thread 1 0) (context_default demo_ctx) (demo_kernel [] [2, 3]) = Inr (Inr 4, k1) \<and>
     sys_exit_group 7 (demo_thread 4 3) k1 = (woken, k2) \<and> wait_top 0 (WaitPid 4) k2 = (WDone (Inr (4, 7)), k3)"
proof -
  obtain k1 where f: "sys_fork map_mmu Map.empty demo_ctx (demo_thread 1 0) (context_default demo_ctx) (demo_kernel [] [2, 3]) = Inr (Inr 4, k1)"
    and p: "process_by_pid 4 k1 = Some 3" using demo_fork[OF demo_free(1)[of "[]"], of 0 1] by auto
  obtain w k2 where x: "sys_exit_group 7 (demo_thread 4 3) k1 = (w, k2)" by fastforce
  from exit_status_delivered[OF demo_tables(1) _ _ f _ x] p f x show ?thesis by (auto simp: held_ok_def)
qed


theorem wait_not_missed_witness:
  "\<exists>k k1 woken k2 p ec k3. wait_reach 0 (WTop, demo_kernel [(2, 1)] [2, 3]) (WAwait, k) \<and> wait_await (5 :: nat) 0 k = (WClear, k1) \<and>
     wait_clear 0 k1 = (WTop, woken, k2) \<and> wait_top 0 AnyChild k2 = (WDone (Inr (p, ec)), k3)"
proof -
  let ?k0 = "demo_kernel [(2, 1)] [2, 3]"
  have fam: "family_ok 0 ?k0" by (simp add: family_ok_def held_ok_def)
  have t: "wait_top 0 AnyChild ?k0 = (WAwait, ?k0)"
    by (simp add: wait_top_def upgrade_def alive_def exited_def live_children_def)
  obtain w k where x: "sys_exit_group 7 (demo_thread 2 1) ?k0 = (w, k)" by fastforce
  have "wait_step 0 (WAwait, ?k0) (WAwait, k)" by (rule ws_exit_group[OF _ _ x]) simp_all
  then have r: "wait_reach 0 (WTop, ?k0) (WAwait, k)"
    by (rule wait_reach.intros(2)[OF wait_reach.intros(2)[OF wait_reach.intros(1) ws_top[OF t]]])
  have e: "process_exit 7 1 ?k0 = (w, k)" using x by (simp add: sys_exit_group_def)
  note x' = process_exit_result[OF e]
  have "zombie_child 0 k"
    using x'(1,5) x'(6)[of 0] by (auto simp: zombie_child_def exited_def same_ids_def alive_def)
  from wait_not_missed[OF fam r this, of 5] r show ?thesis by blast
qed

end
