(* ===== verification/Signal_Delivery.thy ===== *)
theory Signal_Delivery
  imports Process_Wait
begin

text \<open>
  Signals from sender to handler (\<^verbatim>\<open>src/kernel/src/signal/mod.rs\<close>, \<^verbatim>\<open>Thread::has_signal_to_handle\<close> in
  \<^verbatim>\<open>src/kernel/src/process/thread.rs\<close>, the interrupt character in \<^verbatim>\<open>src/kernel/src/fs/devfs/tty.rs\<close>).

  \<open>handle_signal\<close> is the loop of the source; its recursion ends as each turn takes a signal off the queue.
  The thread's \<open>inner\<close> and the user context are passed along, and the frames that it writes to user memory are
  collected. The induction rule \<open>handle_signal_induct\<close> carries the proofs about a successful call.
\<close>

section \<open>Sending\<close>

text \<open>Returns the wakers that the event wakes.\<close>

definition send_signal ::
  "ProcessRef \<Rightarrow> usize \<Rightarrow> Siginfo \<Rightarrow> ('pt, 'b, 'i, 'w, 's) kernel \<Rightarrow> ('w list \<times> ('pt, 'b, 'i, 'w, 's) kernel) outcome" where
  "send_signal r target info k =
     bindE (unwrap (from_i32 (si_signo info))) (\<lambda>signal.
       let p = objects k r
       in if is_standard signal \<and> sigset_contains (pending_sigset p) signal then Inr ([], k)
          else let (woken, bus) = bus_set RECEIVE_SIGNAL (event_bus p)
               in Inr (woken, set_process r
                    (p\<lparr>sig_queue := sig_queue p @ [(info, target)], pending_sigset := sigset_add signal (pending_sigset p),
                       event_bus := bus\<rparr>) k))"

section \<open>Choosing a signal\<close>

text \<open>A queued signal is for this thread if it is for any thread (\<open>-1\<close>) or names it, and it is not masked.\<close>

fun deliverable :: "Tid \<Rightarrow> Sigset \<Rightarrow> Siginfo \<times> usize \<Rightarrow> bool outcome" where
  "deliverable t msk (info, target) =
     (if sint target = - 1 \<or> unat target = t
      then bindE (unwrap (from_i32 (si_signo info))) (\<lambda>s. Inr (\<not> sigset_contains msk s))
      else Inr False)"

fun find_signal :: "Tid \<Rightarrow> Sigset \<Rightarrow> nat \<Rightarrow> (Siginfo \<times> usize) list \<Rightarrow> (nat \<times> Siginfo) option outcome" where
  "find_signal t msk idx [] = Inr None"
| "find_signal t msk idx (e # q) =
     bindE (deliverable t msk e) (\<lambda>b. if b then Inr (Some (idx, fst e)) else find_signal t msk (Suc idx) q)"

definition has_signal_to_handle :: "Tid \<Rightarrow> ThreadInner \<Rightarrow> ('pt, 'i, 'w) Process \<Rightarrow> bool outcome" where
  "has_signal_to_handle t i p =
     bindE (find_signal t (sig_mask i) 0 (sig_queue p)) (\<lambda>f. Inr (f \<noteq> None))"

section \<open>The frame\<close>

record SignalUserContext =
  uc_flags :: usize
  uc_link :: usize
  uc_stack :: SignalStack
  uc_context :: MachineContext
  uc_sig_mask :: Sigset

record SignalFrame =
  ret_code_addr :: usize
  frame_info :: Siginfo
  ucontext :: SignalUserContext
  ret_code :: "u8 list"

text \<open>Sizes and offsets of the \<^verbatim>\<open>repr(C)\<close> structures: \<open>Siginfo\<close> has 124 bytes, the context 280,
  \<open>SignalUserContext\<close> 328.\<close>

definition FRAME_SIZE :: usize where "FRAME_SIZE = 472"
definition INFO_OFFSET :: usize where "INFO_OFFSET = 8"
definition UCONTEXT_OFFSET :: usize where "UCONTEXT_OFFSET = 136"
definition RET_CODE_OFFSET :: usize where "RET_CODE_OFFSET = 464"
definition RET_CODE :: "u8 list" where "RET_CODE = replicate 7 0"

text \<open>The stack pointer the frame goes below, and what becomes of the alternate stack.\<close>

definition signal_stack_top :: "context_ops \<Rightarrow> SignalAction \<Rightarrow> UserContext \<Rightarrow> ThreadInner \<Rightarrow> usize \<times> ThreadInner" where
  "signal_stack_top C action tf i =
     (let stack = signal_alternate_stack i
      in if act_flags action AND SA_ONSTACK = SA_ONSTACK
         then if ss_flags stack AND SS_DISABLE = SS_DISABLE then (get_sp C tf, i)
              else let fl = ss_flags stack OR SS_ONSTACK;
                       fl = (if ss_flags stack AND SS_AUTODISARM = SS_AUTODISARM then fl OR SS_DISABLE else fl)
                   in (ss_sp stack + ss_size stack, i\<lparr>signal_alternate_stack := stack\<lparr>ss_flags := fl\<rparr>\<rparr>)
         else (get_sp C tf, i))"

text \<open>The branch of \<open>handle_signal\<close> for a user handler: the address and content of the frame are returned. The
  fields of the frame that the code does not write keep what the stack had, \<open>old\<close>.\<close>

definition enter_handler ::
  "context_ops \<Rightarrow> (usize \<Rightarrow> u8 list) \<Rightarrow> MemoryArea list \<Rightarrow> Signal \<Rightarrow> Siginfo \<Rightarrow> SignalAction \<Rightarrow> ThreadInner \<Rightarrow> UserContext \<Rightarrow>
   (ThreadInner \<times> UserContext \<times> usize \<times> SignalFrame) outcome" where
  "enter_handler C old as signal info action i tf =
     (let msk = sig_mask i;
          i = i\<lparr>sig_mask := sigset_add_set (act_mask action) (sigset_add signal msk)\<rparr>;
          stack = signal_alternate_stack i;
          (top, i) = signal_stack_top C action tf i;
          sig_sp = top - FRAME_SIZE
      in if \<not> check_write_loop FRAME_SIZE sig_sp 1 0 as then Inl Unimplemented
         else let uc = \<lparr>uc_flags = 0, uc_link = 0, uc_stack = stack, uc_context = from_tf tf, uc_sig_mask = msk\<rparr>;
                  frame =
                    (if act_flags action AND SA_RESTORER = SA_RESTORER
                     then \<lparr>ret_code_addr = act_restorer action, frame_info = info, ucontext = uc, ret_code = old sig_sp\<rparr>
                     else \<lparr>ret_code_addr = sig_sp + RET_CODE_OFFSET, frame_info = info, ucontext = uc, ret_code = RET_CODE\<rparr>)
              in Inr (i, set_signal_handler tf sig_sp (act_handler action) (scast (si_signo info))
                           (sig_sp + INFO_OFFSET) (sig_sp + UCONTEXT_OFFSET), sig_sp, frame))"

section \<open>Handling all signals of a thread\<close>

definition take_signal :: "ProcessRef \<Rightarrow> nat \<Rightarrow> Signal \<Rightarrow> ('pt, 'b, 'i, 'w, 's) kernel \<Rightarrow> ('pt, 'b, 'i, 'w, 's) kernel" where
  "take_signal r idx signal k =
     (let p = objects k r
      in set_process r (p\<lparr>sig_queue := take idx (sig_queue p) @ drop (Suc idx) (sig_queue p),
           pending_sigset := sigset_remove signal (pending_sigset p)\<rparr>) k)"

definition action_of :: "ProcessRef \<Rightarrow> Siginfo \<Rightarrow> ('pt, 'b, 'i, 'w, 's) kernel \<Rightarrow> SignalAction outcome" where
  "action_of r info k =
     (let ds = dispositions (objects k r); n = unat (scast (si_signo info) :: usize)
      in if n < length ds then Inr (ds ! n) else Inl IndexOutOfRange)"

record ('pt, 'b, 'i, 'w, 's) handled =
  thread_exits :: bool
  new_inner :: ThreadInner
  new_tf :: UserContext
  frames_written :: "(usize \<times> SignalFrame) list"
  wakers :: "'w list"
  new_kernel :: "('pt, 'b, 'i, 'w, 's) kernel"

lemma find_signal_bound: "find_signal t msk n q = Inr (Some (idx, info)) \<Longrightarrow> n \<le> idx \<and> idx < n + length q \<and> fst (q ! (idx - n)) = info"
proof (induction t msk n q rule: find_signal.induct)
  case (2 t msk n e q)
  then obtain b where b: "deliverable t msk e = Inr b" by (auto simp: bindE_eq_Inr)
  show ?case
  proof (cases b)
    case False
    with 2 b have "Suc n \<le> idx \<and> idx < Suc n + length q \<and> fst (q ! (idx - Suc n)) = info" by simp
    then show ?thesis by (auto simp: nth_Cons')
  qed (use 2 b in simp)
qed simp

lemma take_signal_queue [simp]:
  "sig_queue (objects (take_signal r idx s k) r) = take idx (sig_queue (objects k r)) @ drop (Suc idx) (sig_queue (objects k r))"
  by (simp add: take_signal_def Let_def)

function handle_signal ::
  "context_ops \<Rightarrow> (usize \<Rightarrow> u8 list) \<Rightarrow> Tid \<Rightarrow> ProcessRef \<Rightarrow> ThreadInner \<Rightarrow> UserContext \<Rightarrow> (usize \<times> SignalFrame) list \<Rightarrow>
   ('pt, 'b, 'i, 'w, 's) kernel \<Rightarrow> ('pt, 'b, 'i, 'w, 's) handled outcome" where
  "handle_signal C old t r i tf frs k =
     bindE (find_signal t (sig_mask i) 0 (sig_queue (objects k r))) (\<lambda>found.
       case found of
         None \<Rightarrow> Inr \<lparr>thread_exits = False, new_inner = i, new_tf = tf, frames_written = frs, wakers = [], new_kernel = k\<rparr>
       | Some (idx, info) \<Rightarrow>
           bindE (unwrap (from_i32 (si_signo info))) (\<lambda>signal.
           bindE (action_of r info (take_signal r idx signal k)) (\<lambda>action.
             if act_handler action = SIG_DFL
             then if signal \<in> {SIGALRM, SIGHUP, SIGINT}
                  then let (woken, k) = process_exit (scast (si_signo info) + 128) r (take_signal r idx signal k)
                       in Inr \<lparr>thread_exits = True, new_inner = i, new_tf = tf, frames_written = frs, wakers = woken, new_kernel = k\<rparr>
                  else handle_signal C old t r i tf frs (take_signal r idx signal k)
             else if act_handler action = SIG_IGN
             then handle_signal C old t r i tf frs (take_signal r idx signal k)
             else if act_handler action = SIG_ERR then Inl Unimplemented
             else bindE (enter_handler C old (vm_areas (objects k r)) signal info action i tf) (\<lambda>(i, tf, a, f).
                    handle_signal C old t r i tf (frs @ [(a, f)]) (take_signal r idx signal k)))))"
  by pat_completeness auto
termination
  by (relation "measure (\<lambda>(C, old, t, r, i, tf, frs, k). length (sig_queue (objects k r)))")
    (auto simp: bindE_eq_Inr dest!: find_signal_bound)

declare handle_signal.simps [simp del]

section \<open>Nothing deliverable is left\<close>

text \<open>A successful call either finds nothing, ends the process, or takes a signal and goes on.\<close>

lemma handle_signal_cases:
  assumes "handle_signal C old t r i tf frs k = Inr h"
  obtains (finished) "find_signal t (sig_mask i) 0 (sig_queue (objects k r)) = Inr None"
      "h = \<lparr>thread_exits = False, new_inner = i, new_tf = tf, frames_written = frs, wakers = [], new_kernel = k\<rparr>"
  | (exits) idx info signal woken k' where
      "find_signal t (sig_mask i) 0 (sig_queue (objects k r)) = Inr (Some (idx, info))" "from_i32 (si_signo info) = Some signal"
      "process_exit (scast (si_signo info) + 128) r (take_signal r idx signal k) = (woken, k')"
      "h = \<lparr>thread_exits = True, new_inner = i, new_tf = tf, frames_written = frs, wakers = woken, new_kernel = k'\<rparr>"
  | (again) idx info signal i' tf' frs' where
      "find_signal t (sig_mask i) 0 (sig_queue (objects k r)) = Inr (Some (idx, info))" "from_i32 (si_signo info) = Some signal"
      "handle_signal C old t r i' tf' frs' (take_signal r idx signal k) = Inr h"
proof -
  from assms obtain found where f: "find_signal t (sig_mask i) 0 (sig_queue (objects k r)) = Inr found"
    by (subst (asm) handle_signal.simps) (auto simp: bindE_eq_Inr)
  show thesis
  proof (cases found)
    case None
    with assms f finished show ?thesis by (subst (asm) handle_signal.simps) simp
  next
    case (Some e)
    obtain idx info where e: "e = (idx, info)" by (cases e)
    from assms f Some e obtain signal action where s: "from_i32 (si_signo info) = Some signal"
      and a: "action_of r info (take_signal r idx signal k) = Inr action"
      by (subst (asm) handle_signal.simps) (auto simp: bindE_eq_Inr)
    show ?thesis using assms f[unfolded Some e] s a exits again
      by (subst (asm) handle_signal.simps) (auto simp: bindE_eq_Inr split: if_splits prod.splits)
  qed
qed

lemma handle_signal_induct [consumes 1, case_names finished exits again]:
  assumes "handle_signal C old t r i tf frs k = Inr h"
    "\<And>i tf frs k. find_signal t (sig_mask i) 0 (sig_queue (objects k r)) = Inr None \<Longrightarrow>
       P i tf frs k \<lparr>thread_exits = False, new_inner = i, new_tf = tf, frames_written = frs, wakers = [], new_kernel = k\<rparr>"
    "\<And>i tf frs k idx info signal woken k'.
       \<lbrakk>find_signal t (sig_mask i) 0 (sig_queue (objects k r)) = Inr (Some (idx, info)); from_i32 (si_signo info) = Some signal;
        process_exit (scast (si_signo info) + 128) r (take_signal r idx signal k) = (woken, k')\<rbrakk> \<Longrightarrow>
       P i tf frs k \<lparr>thread_exits = True, new_inner = i, new_tf = tf, frames_written = frs, wakers = woken, new_kernel = k'\<rparr>"
    "\<And>i tf frs k idx info signal i' tf' frs' h.
       \<lbrakk>find_signal t (sig_mask i) 0 (sig_queue (objects k r)) = Inr (Some (idx, info)); from_i32 (si_signo info) = Some signal;
        P i' tf' frs' (take_signal r idx signal k) h\<rbrakk> \<Longrightarrow> P i tf frs k h"
  shows "P i tf frs k h"
  using assms(1)
proof (induction "length (sig_queue (objects k r))" arbitrary: i tf frs k rule: less_induct)
  case less
  from less.prems show ?case
  proof (cases rule: handle_signal_cases)
    case finished
    then show ?thesis using assms(2) by simp
  next
    case (exits idx info signal woken k')
    then show ?thesis using assms(3) by simp
  next
    case (again idx info signal i' tf' frs')
    have "length (sig_queue (objects (take_signal r idx signal k) r)) < length (sig_queue (objects k r))"
      using find_signal_bound[OF again(1)] by auto
    from assms(4)[OF again(1,2) less.hyps[OF this again(3)]] show ?thesis .
  qed
qed


section \<open>The pending set and the queue agree\<close>

definition queued :: "('pt, 'i, 'w) Process \<Rightarrow> Signal list" where
  "queued p = map (\<lambda>e. the (from_i32 (si_signo (fst e)))) (sig_queue p)"

definition pend_ok :: "('pt, 'i, 'w) Process \<Rightarrow> bool" where
  "pend_ok p \<longleftrightarrow> (\<forall>e \<in> set (sig_queue p). from_i32 (si_signo (fst e)) \<noteq> None) \<and>
     (\<forall>s. valid_signal s \<longrightarrow> sigset_contains (pending_sigset p) s \<longrightarrow> s \<in> set (queued p)) \<and>
     (\<forall>s. valid_signal s \<longrightarrow> is_standard s \<longrightarrow> count_list (queued p) s = (if sigset_contains (pending_sigset p) s then 1 else 0))"

lemma count_list_remove_nth:
  assumes "i < length xs"
  shows "count_list xs y = count_list (take i xs @ drop (Suc i) xs) y + (if xs ! i = y then 1 else 0)"
  by (subst id_take_nth_drop[OF assms]) simp

lemma queued_snoc:
  "queued (p\<lparr>sig_queue := sig_queue p @ [(info, tgt)], pending_sigset := m, event_bus := b\<rparr>) = queued p @ [the (from_i32 (si_signo info))]"
  by (simp add: queued_def)

lemma send_signal_result:
  assumes "send_signal r target info k = Inr (woken, k')"
  obtains s where "from_i32 (si_signo info) = Some s" "is_standard s" "sigset_contains (pending_sigset (objects k r)) s" "k' = k" "woken = []"
  | s bus where "from_i32 (si_signo info) = Some s" "is_standard s \<longrightarrow> \<not> sigset_contains (pending_sigset (objects k r)) s"
      "bus_set RECEIVE_SIGNAL (event_bus (objects k r)) = (woken, bus)"
      "k' = set_process r ((objects k r)\<lparr>sig_queue := sig_queue (objects k r) @ [(info, target)],
         pending_sigset := sigset_add s (pending_sigset (objects k r)), event_bus := bus\<rparr>) k"
proof -
  obtain s where s: "from_i32 (si_signo info) = Some s" using assms by (auto simp: send_signal_def bindE_eq_Inr)
  show thesis
  proof (cases "is_standard s \<and> sigset_contains (pending_sigset (objects k r)) s")
    case True
    then show ?thesis using that(1)[OF s] assms s by (simp add: send_signal_def)
  next
    case False
    then show ?thesis using that(2)[OF s] assms s by (auto simp: send_signal_def Let_def split: prod.splits)
  qed
qed

lemma send_signal_pend:
  assumes "send_signal r target info k = Inr (woken, k')" "pend_ok (objects k q)"
  shows "pend_ok (objects k' q)"
  using assms(1)
proof (cases rule: send_signal_result)
  case (2 s bus)
  have v: "valid_signal s" using from_i32_Some[OF 2(1)] by simp
  show ?thesis
  proof (cases "q = r")
    case True
    note c = sigset_contains_add[OF v]
    have "pend_ok ((objects k r)\<lparr>sig_queue := sig_queue (objects k r) @ [(info, target)],
         pending_sigset := sigset_add s (pending_sigset (objects k r)), event_bus := bus\<rparr>)"
      unfolding pend_ok_def queued_snoc
      using assms(2)[unfolded pend_ok_def True] 2(1,2) c by auto
    then show ?thesis by (simp add: 2(4) True)
  qed (use assms(2) 2(4) in simp)
qed (use assms(2) in simp)

lemma take_signal_pend:
  assumes "pend_ok (objects k q)" "find_signal t msk 0 (sig_queue (objects k r)) = Inr (Some (idx, info))"
    "from_i32 (si_signo info) = Some s"
  shows "pend_ok (objects (take_signal r idx s k) q)"
proof (cases "q = r")
  case True
  let ?p = "objects k r" and ?p' = "objects (take_signal r idx s k) r"
  have i: "idx < length (sig_queue ?p)" "fst (sig_queue ?p ! idx) = info" using find_signal_bound[OF assms(2)] by simp_all
  have v: "valid_signal s" using from_i32_Some[OF assms(3)] by simp
  have q': "queued ?p' = take idx (queued ?p) @ drop (Suc idx) (queued ?p)" by (simp add: queued_def take_map drop_map)
  have s: "queued ?p ! idx = s" "idx < length (queued ?p)" using i assms(3) by (simp_all add: queued_def)
  note n = count_list_remove_nth[OF s(2), unfolded s(1), folded q']
  have m: "pending_sigset ?p' = sigset_remove s (pending_sigset ?p)" by (simp add: take_signal_def Let_def)
  have ok: "\<forall>e \<in> set (sig_queue ?p'). from_i32 (si_signo (fst e)) \<noteq> None"
    using assms(1) by (auto simp: pend_ok_def True dest: in_set_takeD in_set_dropD)
  have mem: "u \<in> set (queued ?p')" if "u \<in> set (queued ?p)" "u \<noteq> s" for u
  proof -
    have "0 < count_list (queued ?p) u" using that(1) by (metis count_list_0_iff gr0I)
    then have "0 < count_list (queued ?p') u" using n[of u] that(2) by simp
    then show ?thesis by (metis count_list_0_iff less_irrefl)
  qed
  show ?thesis
    unfolding pend_ok_def True m
  proof (intro conjI allI impI ok)
    fix u assume u: "valid_signal u" "sigset_contains (sigset_remove s (pending_sigset ?p)) u"
    then have "u \<noteq> s" "sigset_contains (pending_sigset ?p) u" using sigset_contains_remove[OF v u(1)] by simp_all
    then show "u \<in> set (queued ?p')" using assms(1) u(1) mem by (simp add: pend_ok_def True)
  next
    fix u assume u: "valid_signal u" "is_standard u"
    then have "count_list (queued ?p) u = (if sigset_contains (pending_sigset ?p) u then 1 else 0)"
      using assms(1) by (simp add: pend_ok_def True)
    then show "count_list (queued ?p') u = (if sigset_contains (sigset_remove s (pending_sigset ?p)) u then 1 else 0)"
      using n[of u] sigset_contains_remove[OF v u(1)] by (auto split: if_splits)
  qed
qed (use assms(1) in \<open>simp add: take_signal_def Let_def\<close>)

lemma process_exit_signals:
  assumes "process_exit ec r k = (woken, k')"
  shows "sig_queue (objects k' q) = sig_queue (objects k q)" "pending_sigset (objects k' q) = pending_sigset (objects k q)"
    "dispositions (objects k' q) = dispositions (objects k q)"
  using assms by (auto simp: process_exit_def drop_files_def notify_parent_def upgrade_def Let_def
      split: prod.splits option.splits if_splits)

lemma handle_signal_pend:
  assumes "handle_signal C old t r i tf frs k = Inr h" "pend_ok (objects k q)"
  shows "pend_ok (objects (new_kernel h) q)"
  using assms
proof (induction rule: handle_signal_induct)
  case (exits i tf frs k idx info signal woken k')
  then show ?case using take_signal_pend[OF exits(4,1,2)] process_exit_signals[OF exits(3), of q] by (simp add: pend_ok_def queued_def)
next
  case (again i tf frs k idx info signal i' tf' frs' h)
  then show ?case using take_signal_pend by blast
qed simp

inductive sig_reach :: "('pt, 'b, 'i, 'w, 's) kernel \<Rightarrow> ('pt, 'b, 'i, 'w, 's) kernel \<Rightarrow> bool" for k0 where
  sr_start: "sig_reach k0 k0"
| sr_send: "sig_reach k0 k \<Longrightarrow> send_signal r target info k = Inr (woken, k') \<Longrightarrow> sig_reach k0 k'"
| sr_handle: "sig_reach k0 k \<Longrightarrow> handle_signal C old t r i tf [] k = Inr h \<Longrightarrow> sig_reach k0 (new_kernel h)"

text \<open>C16: From a process with no queued signal, after any sequence of signals sent and handled: every queued
  number is a signal, a signal in the pending set is in the queue, and a standard signal is in the queue
  exactly once if it is pending and not at all otherwise.\<close>
theorem pending_matches_queue:
  assumes "sig_reach k0 k" "sig_queue (objects k0 r) = []" "pending_sigset (objects k0 r) = Sigset_empty"
  shows "pend_ok (objects k r)"
  using assms
proof (induction rule: sig_reach.induct)
  case sr_start
  then show ?case by (simp add: pend_ok_def queued_def)
next
  case (sr_send k q target info woken k')
  then show ?case using send_signal_pend by blast
next
  case (sr_handle k C old t q i tf h)
  then show ?case using handle_signal_pend by blast
qed

section \<open>Default and ignored signals\<close>

definition no_handlers :: "('pt, 'i, 'w) Process \<Rightarrow> bool" where
  "no_handlers p \<longleftrightarrow> length (dispositions p) = RTMAX + 1 \<and>
     (\<forall>a \<in> set (dispositions p). act_handler a = SIG_DFL \<or> act_handler a = SIG_IGN)"

definition terminates :: "('pt, 'i, 'w) Process \<Rightarrow> Siginfo \<Rightarrow> bool" where
  "terminates p info \<longleftrightarrow> from_i32 (si_signo info) \<in> Some ` {SIGALRM, SIGHUP, SIGINT} \<and>
     act_handler (dispositions p ! unat (scast (si_signo info) :: usize)) = SIG_DFL"

lemma signo_unat: "from_i32 n = Some s \<Longrightarrow> unat (scast n :: usize) = sig_no s"
proof -
  assume "from_i32 n = Some s"
  with from_i32_Some sig_no_range have s: "sint n = int (sig_no s)" "1 \<le> sig_no s" "sig_no s \<le> 64" by blast+
  have "uint (scast n :: usize) = take_bit 64 (sint n)" by (simp add: unsigned_of_int scast_eq del: of_int_sint)
  also have "\<dots> = int (sig_no s)" unfolding s(1) using s(3) by (intro take_bit_int_eq_self) simp_all
  finally show ?thesis by (simp add: unat_eq_nat_uint)
qed

lemma find_signal_total:
  assumes "\<forall>e \<in> set q. from_i32 (si_signo (fst e)) \<noteq> None"
  shows "\<exists>f. find_signal t msk n q = Inr f"
  using assms
proof (induction q arbitrary: n)
  case (Cons e q)
  obtain info tg where e: "e = (info, tg)" by (cases e)
  have "\<exists>b. deliverable t msk e = Inr b"
    using Cons.prems by (cases "sint tg = - 1 \<or> unat tg = t") (auto simp: e)
  then show ?case using Cons by auto
qed simp

lemma find_signal_None_all: "find_signal t msk n q = Inr None \<Longrightarrow> e \<in> set q \<Longrightarrow> deliverable t msk e = Inr False"
  by (induction q arbitrary: n) (auto simp: bindE_eq_Inr split: if_splits)

lemma find_signal_deliverable: "find_signal t msk n q = Inr (Some (idx, info)) \<Longrightarrow> deliverable t msk (q ! (idx - n)) = Inr True"
proof (induction q arbitrary: n)
  case (Cons e q)
  then obtain b where b: "deliverable t msk e = Inr b" by (auto simp: bindE_eq_Inr)
  show ?case
  proof (cases b)
    case False
    then have f: "find_signal t msk (Suc n) q = Inr (Some (idx, info))" using Cons.prems b by simp
    from Cons.IH[OF f] find_signal_bound[OF f] show ?thesis by (simp add: nth_Cons')
  qed (use Cons.prems b in auto)
qed simp

lemma set_remove_nth: "i < length xs \<Longrightarrow> set xs = insert (xs ! i) (set (take i xs @ drop (Suc i) xs))"
  using id_take_nth_drop[of i xs] by (metis Un_insert_right list.simps(15) set_append)

lemma take_signal_sel [simp]:
  "dispositions (objects (take_signal r idx s k) r) = dispositions (objects k r)"
  "no_handlers (objects (take_signal r idx s k) r) = no_handlers (objects k r)"
  "terminates (objects (take_signal r idx s k) r) info = terminates (objects k r) info"
  by (simp_all add: take_signal_def Let_def no_handlers_def terminates_def)

lemma handle_signal_default:
  assumes "find_signal t (sig_mask i) 0 (sig_queue (objects k r)) = Inr (Some (idx, info))"
    "from_i32 (si_signo info) = Some s" "no_handlers (objects k r)"
  shows "terminates (objects k r) info \<Longrightarrow> \<exists>h. handle_signal C old t r i tf frs k = Inr h \<and> new_inner h = i \<and> new_tf h = tf \<and>
      frames_written h = frs \<and> thread_exits h"
    "\<not> terminates (objects k r) info \<Longrightarrow>
      handle_signal C old t r i tf frs k = handle_signal C old t r i tf frs (take_signal r idx s k)"
proof -
  let ?a = "dispositions (objects k r) ! sig_no s"
  have n: "sig_no s < length (dispositions (objects k r))"
    using from_i32_Some[OF assms(2)] sig_no_range[of s] assms(3) by (auto simp: no_handlers_def RTMAX_def)
  then have a: "act_handler ?a = SIG_DFL \<or> act_handler ?a = SIG_IGN" using assms(3) by (simp add: no_handlers_def)
  have act: "action_of r info (take_signal r idx s k) = Inr ?a" using n signo_unat[OF assms(2)] by (simp add: action_of_def Let_def)
  have tm: "terminates (objects k r) info \<longleftrightarrow> s \<in> {SIGALRM, SIGHUP, SIGINT} \<and> act_handler ?a = SIG_DFL"
    using signo_unat[OF assms(2)] assms(2) by (simp add: terminates_def)
  show "terminates (objects k r) info \<Longrightarrow> \<exists>h. handle_signal C old t r i tf frs k = Inr h \<and> new_inner h = i \<and> new_tf h = tf \<and>
      frames_written h = frs \<and> thread_exits h"
    unfolding tm using assms(1,2) act by (subst handle_signal.simps) (auto split: prod.splits)
  show "\<not> terminates (objects k r) info \<Longrightarrow>
      handle_signal C old t r i tf frs k = handle_signal C old t r i tf frs (take_signal r idx s k)"
    unfolding tm using assms(1,2) act a by (subst handle_signal.simps) (auto simp: SIG_DFL_def SIG_IGN_def)
qed

text \<open>C23: A process without user handlers: \<open>handle_signal\<close> returns, leaves the thread's registers, mask and stack
  as they were and pushes no frame; and the thread exits exactly if some signal that it can take now is
  \<open>SIGALRM\<close>, \<open>SIGHUP\<close> or \<open>SIGINT\<close> with the default action.\<close>
theorem default_actions:
  assumes "\<forall>e \<in> set (sig_queue (objects k r)). from_i32 (si_signo (fst e)) \<noteq> None" "no_handlers (objects k r)"
  shows "\<exists>h. handle_signal C old t r i tf frs k = Inr h \<and> new_inner h = i \<and> new_tf h = tf \<and> frames_written h = frs \<and>
    (thread_exits h \<longleftrightarrow> (\<exists>e \<in> set (sig_queue (objects k r)).
       deliverable t (sig_mask i) e = Inr True \<and> terminates (objects k r) (fst e)))"
  using assms
proof (induction "length (sig_queue (objects k r))" arbitrary: k rule: less_induct)
  case less
  let ?q = "sig_queue (objects k r)" and ?m = "sig_mask i"
  obtain f where f: "find_signal t ?m 0 ?q = Inr f" using find_signal_total[OF less.prems(1)] by blast
  show ?case
  proof (cases f)
    case None
    then have "handle_signal C old t r i tf frs k =
        Inr \<lparr>thread_exits = False, new_inner = i, new_tf = tf, frames_written = frs, wakers = [], new_kernel = k\<rparr>"
      using f by (subst handle_signal.simps) simp
    then show ?thesis using find_signal_None_all[OF f[unfolded None]] by force
  next
    case (Some e)
    obtain idx info where e: "e = (idx, info)" by (cases e)
    note f' = f[unfolded Some e]
    have i: "idx < length ?q" "fst (?q ! idx) = info" "deliverable t ?m (?q ! idx) = Inr True"
      using find_signal_bound[OF f'] find_signal_deliverable[OF f'] by simp_all
    obtain s where s: "from_i32 (si_signo info) = Some s" using less.prems(1) i(1,2) nth_mem by blast
    note d = handle_signal_default[OF f' s less.prems(2), of C old tf frs]
    show ?thesis
    proof (cases "terminates (objects k r) info")
      case True
      then show ?thesis using d(1) i nth_mem[OF i(1)] by metis
    next
      case False
      let ?k = "take_signal r idx s k"
      have q: "set ?q = insert (?q ! idx) (set (sig_queue (objects ?k r)))" using set_remove_nth[OF i(1)] by simp
      have len: "length (sig_queue (objects ?k r)) < length ?q" using i(1) by simp
      have v: "\<forall>e \<in> set (sig_queue (objects ?k r)). from_i32 (si_signo (fst e)) \<noteq> None" using less.prems(1) q by blast
      from less.hyps[OF len v] less.prems(2) show ?thesis unfolding d(2)[OF False] q using False i(2) by simp
    qed
  qed
qed

section \<open>Entering a handler\<close>

text \<open>C25: Entering a user handler saves the interrupted context: the frame has the signal information, the old
  mask and a context from which \<open>fill_tf\<close> restores every register, the stack pointer, the program counter and
  the status; except that \<open>x11\<close> gets the value of \<open>x13\<close>. The handler starts with the signal number and the
  addresses of the information and the context, below the frame, with the signal and the action's mask blocked.\<close>
theorem handler_saves_context:
  assumes "enter_handler C old as s info action i tf = Inr (i', tf', sp, frame)" "valid_signal s"
  shows "frame_info frame = info \<and> uc_sig_mask (ucontext frame) = sig_mask i \<and>
    (let c = fill_tf (uc_context (ucontext frame)) tf' in
       (\<forall>n \<le> 30. general c n = (if n = 11 then general tf 13 else general tf n)) \<and>
       tf_sp c = tf_sp tf \<and> elr c = elr tf \<and> spsr c = spsr tf) \<and>
    tf_sp tf' = sp \<and> elr tf' = act_handler action \<and> general tf' 0 = scast (si_signo info) \<and>
    general tf' 1 = sp + 8 \<and> general tf' 2 = sp + 136 \<and>
    (\<forall>u. valid_signal u \<longrightarrow> sigset_contains (sig_mask i') u = (sigset_contains (sig_mask i) u \<or> u = s \<or> sigset_contains (act_mask action) u))"
proof -
  obtain top i1 where t: "signal_stack_top C action tf (i\<lparr>sig_mask := sigset_add_set (act_mask action) (sigset_add s (sig_mask i))\<rparr>) = (top, i1)"
    by fastforce
  have m: "sig_mask i1 = sigset_add_set (act_mask action) (sigset_add s (sig_mask i))"
    using t by (auto simp: signal_stack_top_def Let_def split: if_splits)
  have ok: "check_write_loop FRAME_SIZE (top - FRAME_SIZE) 1 0 as"
    using assms(1) by (rule contrapos_pp) (simp add: enter_handler_def t Let_def)
  have f: "frame_info frame = info" "i' = i1" "sp = top - FRAME_SIZE"
    "uc_context (ucontext frame) = from_tf tf" "uc_sig_mask (ucontext frame) = sig_mask i"
    "tf' = set_signal_handler tf sp (act_handler action) (scast (si_signo info)) (sp + INFO_OFFSET) (sp + UCONTEXT_OFFSET)"
    using assms(1) ok by (auto simp: enter_handler_def t Let_def)
  have r: "general (fill_tf (from_tf tf) c) n = (if n = 11 then general tf 13 else general tf n)" if "n \<le> 30" for c n
    using that by (simp add: fill_tf_def from_tf_def)
  show ?thesis using r sigset_contains_add[OF assms(2)]
    by (simp add: f m fill_tf_def from_tf_def set_signal_handler_def INFO_OFFSET_def UCONTEXT_OFFSET_def sigset_contains_add_set disj_ac)
qed

section \<open>Waking sleepers\<close>

lemma receive_bit: "e OR RECEIVE_SIGNAL = e \<longleftrightarrow> e AND RECEIVE_SIGNAL \<noteq> 0"
proof -
  have r: "RECEIVE_SIGNAL = push_bit 12 1" by (simp add: RECEIVE_SIGNAL_def push_bit_eq_mult)
  have "e OR push_bit 12 1 = e \<longleftrightarrow> bit e 12"
  proof
    assume "e OR push_bit 12 1 = e"
    then have "bit (e OR push_bit 12 1) 12 = bit e 12" by simp
    then show "bit e 12" by (simp add: bit_simps)
  next
    assume "bit e 12"
    then have "bit (e OR push_bit 12 1) n = bit e n" for n
      by (cases "n = 12") (simp_all only: bit_or_iff bit_push_bit_iff bit_1_iff, auto)
    then show "e OR push_bit 12 1 = e" by (rule bit_eqI)
  qed
  then show ?thesis unfolding r by (simp only: bit_iff_and_push_bit_not_eq_0)
qed

lemma bus_set_receive:
  "bus_set RECEIVE_SIGNAL b =
     (if event b AND RECEIVE_SIGNAL \<noteq> 0 then ([], b)
      else (map waker (filter (\<lambda>f. fires f (event b OR RECEIVE_SIGNAL)) (callbacks b)),
            b\<lparr>event := event b OR RECEIVE_SIGNAL, callbacks := filter (\<lambda>f. \<not> fires f (event b OR RECEIVE_SIGNAL)) (callbacks b)\<rparr>))"
proof (cases "event b AND RECEIVE_SIGNAL \<noteq> 0")
  case True
  from iffD2[OF receive_bit this] have n: "event b AND NOT 0 OR RECEIVE_SIGNAL = event b"
    unfolding bit.compl_zero bit.conj_one_right .
  show ?thesis unfolding if_P[OF True] bus_set_def bus_change_def Let_def n by simp
next
  case False
  then have n: "event b OR RECEIVE_SIGNAL \<noteq> event b" using receive_bit[of "event b"] by blast
  show ?thesis
    unfolding if_not_P[OF False] bus_set_def bus_change_def Let_def bit.compl_zero bit.conj_one_right if_P[OF n] by simp
qed

text \<open>A signal that is queued wakes every sleeping thread of the process the first time. Nothing clears
  \<open>RECEIVE_SIGNAL\<close>, and while it is set a queued signal wakes nobody, so that a later sleep is not interrupted.\<close>
lemma signal_wakes_once:
  assumes "send_signal r target info k = Inr (woken, k')" "from_i32 (si_signo info) = Some s"
    "\<not> (is_standard s \<and> sigset_contains (pending_sigset (objects k r)) s)"
  shows "woken = (if event (event_bus (objects k r)) AND RECEIVE_SIGNAL \<noteq> 0 then []
                  else map waker (filter (\<lambda>f. fires f (event (event_bus (objects k r)) OR RECEIVE_SIGNAL)) (callbacks (event_bus (objects k r))))) \<and>
    event (event_bus (objects k' r)) AND RECEIVE_SIGNAL \<noteq> 0 \<and>
    sig_queue (objects k' r) = sig_queue (objects k r) @ [(info, target)]"
  using assms(1)
proof (cases rule: send_signal_result)
  case (1 u)
  then show ?thesis using assms(2,3) by simp
next
  case (2 u bus)
  have "RECEIVE_SIGNAL \<noteq> 0" by (simp add: RECEIVE_SIGNAL_def)
  then show ?thesis using 2(3,4) bus_set_event[OF 2(3)] unfolding bus_set_receive by (auto split: if_splits)
qed

section \<open>Sample runs\<close>

definition demo_info :: "nat \<Rightarrow> Siginfo" where
  "demo_info n = \<lparr>si_signo = of_nat n, si_errno = 0, si_code = 128\<rparr>"

definition demo_inner :: ThreadInner where
  "demo_inner = inner (demo_thread 1 0)"

definition signal_kernel :: "nat list \<Rightarrow> (Page \<rightharpoonup> u64, usize, nat, nat, nat) kernel" where
  "signal_kernel ns = (let k = demo_kernel [] [2, 3]
     in set_process 0 ((objects k 0)\<lparr>sig_queue := map (\<lambda>n. (demo_info n, - 1)) ns,
          dispositions := replicate (RTMAX + 1) SignalAction_default\<rparr>) k)"

lemma signal_kernel_sel [simp]:
  "sig_queue (objects (signal_kernel ns) 0) = map (\<lambda>n. (demo_info n, - 1)) ns"
  "dispositions (objects (signal_kernel ns) 0) = replicate (RTMAX + 1) SignalAction_default"
  "pending_sigset (objects (signal_kernel ns) 0) = Sigset_empty"
  "event_bus (objects (signal_kernel ns) 0) = EventBus_new"
  by (simp_all add: signal_kernel_def Let_def demo_process_def)

lemma demo_from_i32: "from_i32 (si_signo (demo_info 9)) = Some SIGKILL" "from_i32 (si_signo (demo_info 2)) = Some SIGINT"
  using from_i32_sig_no[of SIGKILL] from_i32_sig_no[of SIGINT] by (simp_all add: demo_info_def valid_signal_def)

lemma demo_no_handlers: "no_handlers (objects (signal_kernel ns) 0)"
  by (simp add: no_handlers_def SignalAction_default_def SIG_DFL_def)

lemma demo_terminates: "terminates (objects (signal_kernel ns) 0) (demo_info 2)" "\<not> terminates (objects (signal_kernel ns) 0) (demo_info 9)"
proof -
  have "(replicate (RTMAX + 1) SignalAction_default) ! 2 = SignalAction_default" by (simp add: RTMAX_def del: replicate_Suc)
  then show "terminates (objects (signal_kernel ns) 0) (demo_info 2)"
    using signo_unat[OF demo_from_i32(2)] by (simp add: terminates_def demo_from_i32 SignalAction_default_def SIG_DFL_def)
  show "\<not> terminates (objects (signal_kernel ns) 0) (demo_info 9)" by (simp add: terminates_def demo_from_i32)
qed

lemma demo_deliverable: "deliverable 1 (sig_mask demo_inner) (demo_info 9, - 1) = Inr True"
  "deliverable 1 (sig_mask demo_inner) (demo_info 2, - 1) = Inr True"
  by (simp_all add: demo_from_i32 demo_inner_def demo_thread_def)

lemma send_signal_total: "from_i32 (si_signo info) = Some s \<Longrightarrow> \<exists>w k'. send_signal r target info k = Inr (w, k')"
  by (cases "bus_set RECEIVE_SIGNAL (event_bus (objects k r))") (simp add: send_signal_def Let_def)

theorem default_actions_witness:
  "\<exists>h g. handle_signal demo_ctx (\<lambda>_. []) 1 0 demo_inner (context_default demo_ctx) [] (signal_kernel [9]) = Inr h \<and> \<not> thread_exits h \<and>
     handle_signal demo_ctx (\<lambda>_. []) 1 0 demo_inner (context_default demo_ctx) [] (signal_kernel [9, 2]) = Inr g \<and> thread_exits g"
proof -
  let ?run = "\<lambda>ns. handle_signal demo_ctx (\<lambda>_. []) 1 0 demo_inner (context_default demo_ctx) [] (signal_kernel ns)"
  obtain h where h: "?run [9] = Inr h" "\<not> thread_exits h"
    using default_actions[OF _ demo_no_handlers, of "[9]" demo_ctx "\<lambda>_. []" 1 demo_inner "context_default demo_ctx" "[]"] demo_terminates
    by (auto simp: demo_from_i32 simp del: deliverable.simps)
  obtain g where g: "?run [9, 2] = Inr g" "thread_exits g"
    using default_actions[OF _ demo_no_handlers, of "[9, 2]" demo_ctx "\<lambda>_. []" 1 demo_inner "context_default demo_ctx" "[]"]
      demo_terminates demo_deliverable
    by (auto simp: demo_from_i32 simp del: deliverable.simps)
  from h g show ?thesis by blast
qed


theorem pending_matches_queue_witness:
  "\<exists>k. sig_reach (signal_kernel []) k \<and> sig_queue (objects k 0) = [(demo_info 2, - 1)] \<and> pend_ok (objects k 0)"
proof -
  obtain w k1 where s: "send_signal 0 (- 1) (demo_info 2) (signal_kernel []) = Inr (w, k1)"
    using send_signal_total[OF demo_from_i32(2)] by blast
  have q: "sig_queue (objects k1 0) = [(demo_info 2, - 1)]" "pending_sigset (objects k1 0) = sigset_add SIGINT Sigset_empty"
    using s by (auto simp: send_signal_def demo_from_i32 Let_def split: prod.splits)
  have v: "valid_signal SIGINT" by (simp add: valid_signal_def)
  have "send_signal 0 (- 1) (demo_info 2) k1 = Inr ([], k1)"
    using sigset_contains_add[OF v v, of Sigset_empty] by (simp add: send_signal_def demo_from_i32 q(2) is_standard_def RTMIN_def)
  then have r: "sig_reach (signal_kernel []) k1" by (rule sr_send[OF sr_send[OF sr_start s]])
  from pending_matches_queue[OF r] q(1) r show ?thesis by auto
qed

theorem handler_saves_context_witness:
  "\<exists>i' tf' frame. enter_handler demo_ctx (\<lambda>_. []) [demo_area] SIGUSR1 (demo_info 10)
     \<lparr>act_handler = 0x5000, act_flags = 0, act_restorer = 0, act_mask = Sigset 0\<rparr> demo_inner
     \<lparr>general = (\<lambda>n. of_nat n), tf_sp = 0x3000, elr = 0x5100, spsr = 0x340\<rparr> = Inr (i', tf', 0x2e28, frame) \<and>
     general (fill_tf (uc_context (ucontext frame)) tf') 11 = 13 \<and> elr (fill_tf (uc_context (ucontext frame)) tf') = 0x5100"
proof -
  let ?tf = "\<lparr>general = (\<lambda>n. of_nat n), tf_sp = 0x3000, elr = 0x5100, spsr = 0x340\<rparr>"
  let ?act = "\<lparr>act_handler = 0x5000, act_flags = 0, act_restorer = 0, act_mask = Sigset 0\<rparr>"
  have c: "check_write_loop FRAME_SIZE 0x2e28 1 0 [demo_area]"
    by (simp add: FRAME_SIZE_def area_check_write_array_def area_check_read_array_def demo_area_def attr_user_def MemoryAttr_default_def
        Let_def start_address_def of_addr_def PAGE_SIZE_def)
  have t: "signal_stack_top demo_ctx ?act ?tf i = (0x3000, i)" for i
    by (simp add: signal_stack_top_def demo_ctx_def SA_ONSTACK_def Let_def)
  have s: "0x3000 - FRAME_SIZE = 0x2e28" by (simp add: FRAME_SIZE_def)
  obtain i' tf' frame where e: "enter_handler demo_ctx (\<lambda>_. []) [demo_area] SIGUSR1 (demo_info 10) ?act demo_inner ?tf = Inr (i', tf', 0x2e28, frame)"
    unfolding enter_handler_def Let_def t prod.case s using c by auto
  from handler_saves_context[OF this] this show ?thesis by (simp add: valid_signal_def Let_def)
qed

section \<open>The interrupt character\<close>

text \<open>What \<^verbatim>\<open>TtyINode::push\<close> does for the interrupt character, with the wakers it wakes.\<close>

definition tty_interrupt ::
  "32 word \<Rightarrow> ('pt, 'b, 'i, 'w, 's) kernel \<Rightarrow> ('w list \<times> ('pt, 'b, 'i, 'w, 's) kernel) outcome" where
  "tty_interrupt g k =
     iterE (\<lambda>r (woken, k). bindE (send_signal r (- 1) \<lparr>si_signo = of_nat (sig_no SIGINT), si_errno = 0, si_code = 128\<rparr> k)
              (\<lambda>(w, k). Inr (woken @ w, k)))
       (process_group g k) ([], k)"

lemma sigint_sent:
  assumes "from_i32 (si_signo info) = Some s"
  shows "\<exists>w k'. send_signal r target info k = Inr (w, k') \<and> PROCESSES k' = PROCESSES k \<and> THREADS k' = THREADS k \<and>
    sigset_contains (pending_sigset (objects k' r)) s \<and>
    (\<forall>q. q \<noteq> r \<longrightarrow> objects k' q = objects k q) \<and> (pend_ok (objects k r) \<longrightarrow> pend_ok (objects k' r))"
proof -
  obtain w k' where s: "send_signal r target info k = Inr (w, k')" using send_signal_total[OF assms] by blast
  have v: "valid_signal s" using from_i32_Some[OF assms] by simp
  from s show ?thesis
    by (cases rule: send_signal_result) (use s send_signal_pend[OF s, of r] assms sigset_contains_add[OF v v] in auto)
qed

lemma interrupt_loop_result:
  assumes "from_i32 (si_signo info) = Some s" "\<forall>r \<in> set rs \<union> R. pend_ok (objects k r)"
    "\<forall>r \<in> R. sigset_contains (pending_sigset (objects k r)) s"
  shows "\<exists>w k'. iterE (\<lambda>r (woken, k). bindE (send_signal r (- 1) info k) (\<lambda>(w, k). Inr (woken @ w, k))) rs (w0, k) = Inr (w, k') \<and>
    PROCESSES k' = PROCESSES k \<and> THREADS k' = THREADS k \<and>
    (\<forall>r \<in> set rs \<union> R. pend_ok (objects k' r) \<and> sigset_contains (pending_sigset (objects k' r)) s) \<and>
    (\<forall>q. q \<notin> set rs \<longrightarrow> objects k' q = objects k q)"
  using assms
proof (induction rs arbitrary: k w0 R)
  case (Cons r rs)
  obtain w k1 where s: "send_signal r (- 1) info k = Inr (w, k1)" "PROCESSES k1 = PROCESSES k" "THREADS k1 = THREADS k"
    "sigset_contains (pending_sigset (objects k1 r)) s" "\<forall>q. q \<noteq> r \<longrightarrow> objects k1 q = objects k q"
    "pend_ok (objects k r) \<longrightarrow> pend_ok (objects k1 r)"
    using sigint_sent[OF Cons.prems(1), of r "- 1" k] by blast
  have p: "\<forall>q \<in> set rs \<union> insert r R. pend_ok (objects k1 q)" using Cons.prems(2) s(5,6) by (metis UnE UnI1 UnI2 insertE list.set_intros)
  have c: "\<forall>q \<in> insert r R. sigset_contains (pending_sigset (objects k1 q)) s" using Cons.prems(3) s(4,5) by (metis insertE)
  from Cons.IH[OF Cons.prems(1) p c, of "w0 @ w"] show ?case using s(1,2,3,5) by auto
qed simp

text \<open>C31: The interrupt character reaches the foreground group: no send stops the kernel, every process of the
  group then has \<open>SIGINT\<close> pending and queued, and no other process is touched.\<close>
theorem interrupt_reaches_group:
  assumes "\<forall>r \<in> set (process_group g k). pend_ok (objects k r)"
  shows "\<exists>woken k'. tty_interrupt g k = Inr (woken, k') \<and> PROCESSES k' = PROCESSES k \<and> THREADS k' = THREADS k \<and>
    (\<forall>r \<in> set (process_group g k). SIGINT \<in> set (queued (objects k' r)) \<and> sigset_contains (pending_sigset (objects k' r)) SIGINT) \<and>
    (\<forall>q. q \<notin> set (process_group g k) \<longrightarrow> objects k' q = objects k q)"
proof -
  have v: "valid_signal SIGINT" by (simp add: valid_signal_def)
  let ?info = "\<lparr>si_signo = of_nat (sig_no SIGINT), si_errno = 0, si_code = 128\<rparr>"
  have s: "from_i32 (si_signo ?info) = Some SIGINT" using from_i32_sig_no[OF v] by simp
  from interrupt_loop_result[OF s, of "process_group g k" "{}" k "[]"] assms obtain w k' where
    r: "tty_interrupt g k = Inr (w, k')" "PROCESSES k' = PROCESSES k" "THREADS k' = THREADS k"
      "\<forall>q. q \<notin> set (process_group g k) \<longrightarrow> objects k' q = objects k q"
    and c: "\<forall>r \<in> set (process_group g k). pend_ok (objects k' r) \<and> sigset_contains (pending_sigset (objects k' r)) SIGINT"
    unfolding tty_interrupt_def by auto
  have "\<forall>r \<in> set (process_group g k). SIGINT \<in> set (queued (objects k' r))" using c v unfolding pend_ok_def by blast
  with r c show ?thesis by blast
qed

theorem interrupt_reaches_group_witness:
  "\<exists>woken k'. tty_interrupt 0 (demo_kernel [] [2, 3]) = Inr (woken, k') \<and> SIGINT \<in> set (queued (objects k' 2))"
proof -
  let ?k = "demo_kernel [] [2, 3]"
  have g: "process_group 0 ?k = [0, 1, 2]" by (simp add: process_group_def demo_process_def)
  have "\<forall>r \<in> set (process_group 0 ?k). pend_ok (objects ?k r)" by (simp add: pend_ok_def queued_def demo_process_def)
  from interrupt_reaches_group[OF this] have "\<exists>woken k'. tty_interrupt 0 ?k = Inr (woken, k') \<and>
      (\<forall>r \<in> set [0, 1, 2]. SIGINT \<in> set (queued (objects k' r)))" unfolding g by blast
  then show ?thesis by auto
qed

end
