(* ===== verification/File_Syscalls.thy ===== *)
theory File_Syscalls
  imports Signal_Delivery
begin

text \<open>
  The system calls on files (\<^verbatim>\<open>src/kernel/src/syscall/fs.rs\<close>) and the C strings they take
  (\<^verbatim>\<open>src/kernel/src/utils.rs\<close>).

  A call works on the process that makes it and on the state of the file system; path arguments are the
  strings that \<open>from_cstr\<close> reads from user memory. The INode interface is \<open>inode_ops\<close>, the flags of the
  \<^verbatim>\<open>queen_syscall\<close> crate are \<open>flag_ops\<close>.
\<close>

section \<open>Strings in user memory\<close>

text \<open>\<open>from_cstr\<close> searches for the zero byte without a bound; it does not return when there is none.\<close>

partial_function (option) cstr_len :: "(usize \<Rightarrow> u8) \<Rightarrow> usize \<Rightarrow> nat \<Rightarrow> nat option" where
  "cstr_len mem s i = (if mem (s + of_nat i) = 0 then Some i else cstr_len mem s (Suc i))"

definition user_bytes :: "(usize \<Rightarrow> u8) \<Rightarrow> usize \<Rightarrow> nat \<Rightarrow> u8 list" where
  "user_bytes mem base len = map (\<lambda>i. mem (base + of_nat i)) [0 ..< len]"

definition from_cstr :: "(usize \<Rightarrow> u8) \<Rightarrow> usize \<Rightarrow> string option" where
  "from_cstr mem s = map_option (\<lambda>n. map (\<lambda>b. char_of (unat b)) (user_bytes mem s n)) (cstr_len mem s 0)"

fun copy_to_user :: "usize \<Rightarrow> u8 list \<Rightarrow> (usize \<Rightarrow> u8) \<Rightarrow> usize \<Rightarrow> u8" where
  "copy_to_user ptr [] mem = mem"
| "copy_to_user ptr (b # bs) mem = copy_to_user (ptr + 1) bs (mem(ptr := b))"

definition write_cstr :: "usize \<Rightarrow> string \<Rightarrow> (usize \<Rightarrow> u8) \<Rightarrow> usize \<Rightarrow> u8" where
  "write_cstr ptr s mem =
     (copy_to_user ptr (map of_char s) mem)(ptr + of_nat (length s) := 0)"

section \<open>Flags, the root and errors\<close>

text \<open>The flags of the \<^verbatim>\<open>queen_syscall\<close> crate.\<close>

record flag_ops =
  AT_FDCWD :: nat
  of_create :: "usize \<Rightarrow> bool"
  of_exclusive :: "usize \<Rightarrow> bool"
  of_truncate :: "usize \<Rightarrow> bool"
  of_cloexec :: "usize \<Rightarrow> bool"
  of_readable :: "usize \<Rightarrow> bool"
  of_writable :: "usize \<Rightarrow> bool"
  of_append :: "usize \<Rightarrow> bool"
  at_nofollow :: "usize \<Rightarrow> bool"

definition options_from :: "flag_ops \<Rightarrow> usize \<Rightarrow> OpenOptions" where
  "options_from F flags = \<lparr>opt_read = of_readable F flags, opt_write = of_writable F flags, opt_append = of_append F flags\<rparr>"

definition FOLLOW_MAX_DEPTH :: nat where
  "FOLLOW_MAX_DEPTH = 3"

text \<open>The root of the file system is a lazy static whose initialiser is \<^verbatim>\<open>todo!()\<close>. The calls below take the
  root as an argument, so that what they do with a root can be said.\<close>

definition ROOT_INODE :: "'i outcome" where
  "ROOT_INODE = Inl Todo"

definition fs_res :: "FsError + 'a \<Rightarrow> 'a SysResult" where
  "fs_res r = (case r of Inl e \<Rightarrow> Inl (FromFs e) | Inr x \<Rightarrow> Inr x)"

section \<open>Descriptors and paths\<close>

definition get_file :: "nat \<Rightarrow> ('pt, 'i, 'w) Process \<Rightarrow> 'i FileHandle SysResult" where
  "get_file fd p = (case bt_get (files p) fd of Some h \<Rightarrow> Inr h | None \<Rightarrow> Inl EBADF)"

text \<open>\<^verbatim>\<open>trim_end_matches('/')\<close> and \<^verbatim>\<open>rsplitn(2, '/')\<close>\<close>

definition split_path :: "string \<Rightarrow> string \<times> string" where
  "split_path path =
     (let p = rev (dropWhile (\<lambda>c. c = CHR ''/'') (rev path));
          name = rev (takeWhile (\<lambda>c. c \<noteq> CHR ''/'') (rev p));
          dir = take (length p - length name - 1) p
      in (if CHR ''/'' \<in> set p then (if dir = [] then ''/'' else dir) else ''.'', name))"

definition lookup_inode_at ::
  "('i, 's) inode_ops \<Rightarrow> flag_ops \<Rightarrow> 'i outcome \<Rightarrow> ('pt, 'i, 'w) Process \<Rightarrow> nat \<Rightarrow> string \<Rightarrow> bool \<Rightarrow> 's fsys \<Rightarrow>
   'i SysResult outcome" where
  "lookup_inode_at I F root p dir_fd path follow st =
     (let depth = (if follow then FOLLOW_MAX_DEPTH else 0)
      in if dir_fd = AT_FDCWD F
         then bindE root (\<lambda>rt. Inr (bindE (fs_res (i_lookup I rt (cwd p) (fs st)))
                (\<lambda>i. fs_res (i_lookup_follow I i path depth (fs st)))))
         else Inr (bindE (get_file dir_fd p) (\<lambda>h. fs_res (fh_lookup_follow I h path depth st))))"

definition lookup_inode ::
  "('i, 's) inode_ops \<Rightarrow> flag_ops \<Rightarrow> 'i outcome \<Rightarrow> ('pt, 'i, 'w) Process \<Rightarrow> string \<Rightarrow> 's fsys \<Rightarrow> 'i SysResult outcome" where
  "lookup_inode I F root p path st = lookup_inode_at I F root p (AT_FDCWD F) path True st"

section \<open>Reading and writing\<close>

text \<open>The calls that take a buffer check it before they look at the descriptor. What is read is returned, and
  copied to the buffer by the caller.\<close>

definition sys_read ::
  "('i, 's) inode_ops \<Rightarrow> nat \<Rightarrow> usize \<Rightarrow> usize \<Rightarrow> ('pt, 'i, 'w) Process \<Rightarrow> 's fsys \<Rightarrow>
   (u8 list SysResult poll \<times> 's fsys) option" where
  "sys_read I fd base len p st =
     (if \<not> check_write_loop 1 base len 0 (vm_areas p) then Some (Ready (Inl EFAULT), st)
      else case get_file fd p of
             Inl e \<Rightarrow> Some (Ready (Inl e), st)
           | Inr h \<Rightarrow> map_option (\<lambda>(r, st). (case r of Pending \<Rightarrow> Pending | Ready v \<Rightarrow> Ready (fs_res v), st)) (fh_read I h (unat len) st))"

definition sys_write ::
  "('i, 's) inode_ops \<Rightarrow> nat \<Rightarrow> usize \<Rightarrow> usize \<Rightarrow> (usize \<Rightarrow> u8) \<Rightarrow> ('pt, 'i, 'w) Process \<Rightarrow> 's fsys \<Rightarrow>
   nat SysResult \<times> 's fsys" where
  "sys_write I fd base len mem p st =
     (if \<not> check_read_loop 1 base len 0 (vm_areas p) then (Inl EFAULT, st)
      else case get_file fd p of
             Inl e \<Rightarrow> (Inl e, st)
           | Inr h \<Rightarrow> let (r, st) = fh_write I h (user_bytes mem base (unat len)) st in (fs_res r, st))"

definition sys_pread ::
  "('i, 's) inode_ops \<Rightarrow> nat \<Rightarrow> usize \<Rightarrow> usize \<Rightarrow> usize \<Rightarrow> ('pt, 'i, 'w) Process \<Rightarrow> 's fsys \<Rightarrow>
   (u8 list SysResult poll \<times> 's fsys) option" where
  "sys_pread I fd base len pos p st =
     (if \<not> check_write_loop 1 base len 0 (vm_areas p) then Some (Ready (Inl EFAULT), st)
      else case get_file fd p of
             Inl e \<Rightarrow> Some (Ready (Inl e), st)
           | Inr h \<Rightarrow> map_option (\<lambda>(r, st). (case r of Pending \<Rightarrow> Pending | Ready v \<Rightarrow> Ready (fs_res v), st)) (fh_read_at I h pos (unat len) st))"

definition sys_pwrite ::
  "('i, 's) inode_ops \<Rightarrow> nat \<Rightarrow> usize \<Rightarrow> usize \<Rightarrow> usize \<Rightarrow> (usize \<Rightarrow> u8) \<Rightarrow> ('pt, 'i, 'w) Process \<Rightarrow> 's fsys \<Rightarrow>
   nat SysResult \<times> 's fsys" where
  "sys_pwrite I fd base len pos mem p st =
     (if \<not> check_read_loop 1 base len 0 (vm_areas p) then (Inl EFAULT, st)
      else case get_file fd p of
             Inl e \<Rightarrow> (Inl e, st)
           | Inr h \<Rightarrow> let (r, st) = fh_write_at I h pos (user_bytes mem base (unat len)) st in (fs_res r, st))"

section \<open>Opening and closing\<close>

text \<open>The inode that \<open>open_at\<close> opens or creates.\<close>

definition open_create ::
  "('i, 's) inode_ops \<Rightarrow> flag_ops \<Rightarrow> u64 \<Rightarrow> usize \<Rightarrow> u32 \<Rightarrow> 'i \<Rightarrow> string \<Rightarrow> 's fsys \<Rightarrow> 'i SysResult \<times> 's fsys" where
  "open_create I F now flags mode dir name st =
     (case i_find I dir name (fs st) of
        Inr i \<Rightarrow>
          if of_exclusive F flags then (Inl EEXIST, st)
          else (Inr i, if of_truncate F flags then st\<lparr>fs := snd (i_resize I i 0 (fs st))\<rparr> else st)
      | Inl e \<Rightarrow>
          if e = EntryNotFound
          then (case i_create I dir name File mode (fs st) of
                  (Inl e, s) \<Rightarrow> (Inl (FromFs e), st\<lparr>fs := s\<rparr>)
                | (Inr i, s) \<Rightarrow> (Inr i, st\<lparr>fs := i_update_time I dir now (i_update_time I i now s)\<rparr>))
          else (Inl (FromFs e), st))"

definition sys_open_at ::
  "('i, 's) inode_ops \<Rightarrow> flag_ops \<Rightarrow> 'i outcome \<Rightarrow> u64 \<Rightarrow> nat \<Rightarrow> string \<Rightarrow> usize \<Rightarrow> usize \<Rightarrow>
   ('pt, 'i, 'w) Process \<Rightarrow> 's fsys \<Rightarrow> (nat SysResult \<times> ('pt, 'i, 'w) Process \<times> 's fsys) outcome" where
  "sys_open_at I F root now dir_fd path flags mode p st =
     bindE (if of_create F flags
            then let (dir_path, name) = split_path path
                 in bindE (lookup_inode_at I F root p dir_fd dir_path True st) (\<lambda>r.
                      case r of Inl e \<Rightarrow> Inr (Inl e, st)
                      | Inr dir \<Rightarrow> Inr (open_create I F now flags (ucast mode) dir name st))
            else bindE (lookup_inode_at I F root p dir_fd path True st) (\<lambda>r. Inr (r, st)))
       (\<lambda>(r, st). case r of
          Inl e \<Rightarrow> Inr (Inl e, p, st)
        | Inr i \<Rightarrow>
            let (h, st) = FileHandle_new i (options_from F flags) path (of_cloexec F flags) st;
                (fd, p) = add_file h p
            in Inr (Inr fd, p, st))"

definition sys_close :: "nat \<Rightarrow> ('pt, 'i, 'w) Process \<Rightarrow> nat SysResult \<times> ('pt, 'i, 'w) Process" where
  "sys_close fd p =
     (case bt_get (files p) fd of
        None \<Rightarrow> (Inl EBADF, p)
      | Some _ \<Rightarrow> (Inr 0, p\<lparr>files := bt_remove fd (files p)\<rparr>))"

text \<open>\<open>fd2\<close> is removed before \<open>fd1\<close> is looked up.\<close>

definition sys_dup3 :: "nat \<Rightarrow> nat \<Rightarrow> usize \<Rightarrow> ('pt, 'i, 'w) Process \<Rightarrow> nat SysResult \<times> ('pt, 'i, 'w) Process" where
  "sys_dup3 fd1 fd2 flags p =
     (let p = p\<lparr>files := bt_remove fd2 (files p)\<rparr>
      in case get_file fd1 p of
           Inl e \<Rightarrow> (Inl e, p)
         | Inr h \<Rightarrow> (Inr fd2, p\<lparr>files := bt_insert fd2 (fh_dup (flags \<noteq> 0) h) (files p)\<rparr>))"

definition sys_dup2 :: "nat \<Rightarrow> nat \<Rightarrow> ('pt, 'i, 'w) Process \<Rightarrow> nat SysResult \<times> ('pt, 'i, 'w) Process" where
  "sys_dup2 fd1 fd2 p = sys_dup3 fd1 fd2 0 p"

section \<open>Offsets and lengths\<close>

text \<open>The patterns \<^verbatim>\<open>SEEK_SET\<close>, \<^verbatim>\<open>SEEK_END\<close> and \<^verbatim>\<open>SEEK_CUR\<close> are not defined anywhere, so the first one is a
  variable that matches every \<open>whence\<close>.\<close>

definition sys_lseek ::
  "('i, 's) inode_ops \<Rightarrow> nat \<Rightarrow> u64 \<Rightarrow> u8 \<Rightarrow> ('pt, 'i, 'w) Process \<Rightarrow> 's fsys \<Rightarrow> u64 SysResult \<times> 's fsys" where
  "sys_lseek I fd off whence p st =
     (case get_file fd p of
        Inl e \<Rightarrow> (Inl e, st)
      | Inr h \<Rightarrow> let (r, st) = fh_seek I h (Start off) st in (fs_res r, st))"

definition sys_fsync :: "('i, 's) inode_ops \<Rightarrow> nat \<Rightarrow> ('pt, 'i, 'w) Process \<Rightarrow> 's fsys \<Rightarrow> unit SysResult \<times> 's fsys" where
  "sys_fsync I fd p st =
     (case get_file fd p of Inl e \<Rightarrow> (Inl e, st) | Inr h \<Rightarrow> let (r, st) = fh_sync_all I h st in (fs_res r, st))"

definition sys_fdata_sync :: "('i, 's) inode_ops \<Rightarrow> nat \<Rightarrow> ('pt, 'i, 'w) Process \<Rightarrow> 's fsys \<Rightarrow> unit SysResult \<times> 's fsys" where
  "sys_fdata_sync I fd p st =
     (case get_file fd p of Inl e \<Rightarrow> (Inl e, st) | Inr h \<Rightarrow> let (r, st) = fh_sync_data I h st in (fs_res r, st))"

definition sys_ftruncate :: "('i, 's) inode_ops \<Rightarrow> nat \<Rightarrow> usize \<Rightarrow> ('pt, 'i, 'w) Process \<Rightarrow> 's fsys \<Rightarrow> unit SysResult \<times> 's fsys" where
  "sys_ftruncate I fd len p st =
     (case get_file fd p of Inl e \<Rightarrow> (Inl e, st) | Inr h \<Rightarrow> let (r, st) = fh_set_len I h len st in (fs_res r, st))"

definition sys_truncate ::
  "('i, 's) inode_ops \<Rightarrow> flag_ops \<Rightarrow> 'i outcome \<Rightarrow> string \<Rightarrow> usize \<Rightarrow> ('pt, 'i, 'w) Process \<Rightarrow> 's fsys \<Rightarrow>
   (unit SysResult \<times> 's fsys) outcome" where
  "sys_truncate I F root path len p st =
     bindE (lookup_inode I F root p path st) (\<lambda>r.
       case r of Inl e \<Rightarrow> Inr (Inl e, st)
       | Inr i \<Rightarrow> let (r, s) = i_resize I i len (fs st) in Inr (fs_res r, st\<lparr>fs := s\<rparr>))"

section \<open>The current directory\<close>

text \<open>\<^verbatim>\<open>split("/")\<close> without the empty parts.\<close>

fun split_slash :: "string \<Rightarrow> string list" where
  "split_slash [] = [[]]"
| "split_slash (c # cs) =
     (if c = CHR ''/'' then [] # split_slash cs
      else case split_slash cs of [] \<Rightarrow> [[c]] | s # ss \<Rightarrow> (c # s) # ss)"

definition segments :: "string \<Rightarrow> string list" where
  "segments s = filter (\<lambda>x. x \<noteq> []) (split_slash s)"

fun chdir_loop :: "string list \<Rightarrow> string list \<Rightarrow> string list" where
  "chdir_loop cwd_vec [] = cwd_vec"
| "chdir_loop cwd_vec (seg # segs) =
     chdir_loop (if seg = ''..'' then butlast cwd_vec else if seg = ''.'' then cwd_vec else cwd_vec @ [seg]) segs"

definition cwd_string :: "string list \<Rightarrow> string" where
  "cwd_string segs = (let c = concat (map (\<lambda>seg. ''/'' @ seg) segs) in if c = [] then ''/'' else c)"

definition sys_chdir ::
  "('i, 's) inode_ops \<Rightarrow> flag_ops \<Rightarrow> 'i outcome \<Rightarrow> string \<Rightarrow> ('pt, 'i, 'w) Process \<Rightarrow> 's fsys \<Rightarrow>
   (unit SysResult \<times> ('pt, 'i, 'w) Process) outcome" where
  "sys_chdir I F root path p st =
     bindE (lookup_inode I F root p path st) (\<lambda>r.
       case bindE r (\<lambda>i. fs_res (i_metadata I i (fs st))) of
         Inl e \<Rightarrow> Inr (Inl e, p)
       | Inr info \<Rightarrow>
           if md_type info \<noteq> Dir then Inr (Inl ENOTDIR, p)
           else if path = [] then Inr (Inr (), p)
           else let base = (if hd path = CHR ''/'' then ''/'' else cwd p)
                in Inr (Inr (), p\<lparr>cwd := cwd_string (chdir_loop (segments base) (segments path))\<rparr>))"

text \<open>The string that is stored in the buffer, with the zero byte behind it.\<close>

definition sys_get_cwd :: "usize \<Rightarrow> usize \<Rightarrow> (usize \<Rightarrow> u8) \<Rightarrow> ('pt, 'i, 'w) Process \<Rightarrow> usize SysResult \<times> (usize \<Rightarrow> u8)" where
  "sys_get_cwd ubuf len mem p =
     (if of_nat (length (cwd p)) + 1 > len then (Inl ERANGE, mem) else (Inr ubuf, write_cstr ubuf (cwd p) mem))"

section \<open>Directories and links\<close>

definition sys_faccess_at ::
  "('i, 's) inode_ops \<Rightarrow> flag_ops \<Rightarrow> 'i outcome \<Rightarrow> nat \<Rightarrow> string \<Rightarrow> usize \<Rightarrow> usize \<Rightarrow> ('pt, 'i, 'w) Process \<Rightarrow> 's fsys \<Rightarrow>
   unit SysResult outcome" where
  "sys_faccess_at I F root dir_fd path mode flags p st =
     bindE (lookup_inode_at I F root p dir_fd path (\<not> at_nofollow F flags) st) (\<lambda>r. Inr (bindE r (\<lambda>_. Inr ())))"

definition sys_read_link_at ::
  "('i, 's) inode_ops \<Rightarrow> flag_ops \<Rightarrow> 'i outcome \<Rightarrow> nat \<Rightarrow> string \<Rightarrow> usize \<Rightarrow> usize \<Rightarrow> ('pt, 'i, 'w) Process \<Rightarrow> 's fsys \<Rightarrow>
   (u8 list SysResult \<times> 's fsys) outcome" where
  "sys_read_link_at I F root dir_fd path base len p st =
     (if \<not> check_write_loop 1 base len 0 (vm_areas p) then Inr (Inl EFAULT, st)
      else bindE (lookup_inode_at I F root p dir_fd path False st) (\<lambda>r.
             case r of
               Inl e \<Rightarrow> Inr (Inl e, st)
             | Inr i \<Rightarrow>
                 (case i_metadata I i (fs st) of
                    Inl e \<Rightarrow> Inr (Inl (FromFs e), st)
                  | Inr md \<Rightarrow>
                      if md_type md = SymLink
                      then let (r, s) = i_read_at I i 0 (unat len) (fs st) in Inr (fs_res r, st\<lparr>fs := s\<rparr>)
                      else Inr (Inl EINVAL, st))))"

definition sys_rename_at ::
  "('i, 's) inode_ops \<Rightarrow> flag_ops \<Rightarrow> 'i outcome \<Rightarrow> nat \<Rightarrow> string \<Rightarrow> nat \<Rightarrow> string \<Rightarrow> ('pt, 'i, 'w) Process \<Rightarrow> 's fsys \<Rightarrow>
   (unit SysResult \<times> 's fsys) outcome" where
  "sys_rename_at I F root old_fd old_path new_fd new_path p st =
     (let (old_dir, old_name) = split_path old_path; (new_dir, new_name) = split_path new_path
      in bindE (lookup_inode_at I F root p old_fd old_dir False st) (\<lambda>r1.
           case r1 of
             Inl e \<Rightarrow> Inr (Inl e, st)
           | Inr d1 \<Rightarrow>
               bindE (lookup_inode_at I F root p new_fd new_dir False st) (\<lambda>r2.
                 case r2 of
                   Inl e \<Rightarrow> Inr (Inl e, st)
                 | Inr d2 \<Rightarrow> let (r, s) = i_move I d1 old_name d2 new_name (fs st) in Inr (fs_res r, st\<lparr>fs := s\<rparr>))))"

definition sys_mkdir_at ::
  "('i, 's) inode_ops \<Rightarrow> flag_ops \<Rightarrow> 'i outcome \<Rightarrow> u64 \<Rightarrow> nat \<Rightarrow> string \<Rightarrow> usize \<Rightarrow> ('pt, 'i, 'w) Process \<Rightarrow> 's fsys \<Rightarrow>
   (unit SysResult \<times> 's fsys) outcome" where
  "sys_mkdir_at I F root now dir_fd path mode p st =
     (let (dir_path, name) = split_path path
      in bindE (lookup_inode_at I F root p dir_fd dir_path True st) (\<lambda>r.
           case r of
             Inl e \<Rightarrow> Inr (Inl e, st)
           | Inr dir \<Rightarrow>
               (case i_find I dir name (fs st) of
                  Inr _ \<Rightarrow> Inr (Inl EEXIST, st)
                | Inl _ \<Rightarrow>
                    (case i_create I dir name Dir (ucast mode) (fs st) of
                       (Inl e, s) \<Rightarrow> Inr (Inl (FromFs e), st\<lparr>fs := s\<rparr>)
                     | (Inr i, s) \<Rightarrow> Inr (Inr (), st\<lparr>fs := i_update_time I dir now (i_update_time I i now s)\<rparr>)))))"

definition unlink_entry ::
  "('i, 's) inode_ops \<Rightarrow> (FileType \<Rightarrow> SysError option) \<Rightarrow> 'i \<Rightarrow> string \<Rightarrow> 's fsys \<Rightarrow> unit SysResult \<times> 's fsys" where
  "unlink_entry I refuse dir name st =
     (case bindE (i_find I dir name (fs st)) (\<lambda>i. i_metadata I i (fs st)) of
        Inl e \<Rightarrow> (Inl (FromFs e), st)
      | Inr md \<Rightarrow>
          (case refuse (md_type md) of
             Some e \<Rightarrow> (Inl e, st)
           | None \<Rightarrow> let (r, s) = i_unlink I dir name (fs st) in (fs_res r, st\<lparr>fs := s\<rparr>)))"

definition sys_rmdir ::
  "('i, 's) inode_ops \<Rightarrow> flag_ops \<Rightarrow> 'i outcome \<Rightarrow> string \<Rightarrow> ('pt, 'i, 'w) Process \<Rightarrow> 's fsys \<Rightarrow>
   (unit SysResult \<times> 's fsys) outcome" where
  "sys_rmdir I F root path p st =
     (let (dir_path, name) = split_path path
      in bindE (lookup_inode I F root p dir_path st) (\<lambda>r.
           case r of
             Inl e \<Rightarrow> Inr (Inl e, st)
           | Inr dir \<Rightarrow> Inr (unlink_entry I (\<lambda>t. if t \<noteq> Dir then Some ENOTDIR else None) dir name st)))"

definition sys_unlink_at ::
  "('i, 's) inode_ops \<Rightarrow> flag_ops \<Rightarrow> 'i outcome \<Rightarrow> nat \<Rightarrow> string \<Rightarrow> usize \<Rightarrow> ('pt, 'i, 'w) Process \<Rightarrow> 's fsys \<Rightarrow>
   (unit SysResult \<times> 's fsys) outcome" where
  "sys_unlink_at I F root dir_fd path flags p st =
     (let (dir_path, name) = split_path path
      in bindE (lookup_inode_at I F root p dir_fd dir_path True st) (\<lambda>r.
           case r of
             Inl e \<Rightarrow> Inr (Inl e, st)
           | Inr dir \<Rightarrow> Inr (unlink_entry I (\<lambda>t. if t = Dir then Some EISDIR else None) dir name st)))"

definition sys_link_at ::
  "('i, 's) inode_ops \<Rightarrow> flag_ops \<Rightarrow> 'i outcome \<Rightarrow> nat \<Rightarrow> string \<Rightarrow> nat \<Rightarrow> string \<Rightarrow> usize \<Rightarrow> ('pt, 'i, 'w) Process \<Rightarrow> 's fsys \<Rightarrow>
   (unit SysResult \<times> 's fsys) outcome" where
  "sys_link_at I F root old_fd old_path new_fd new_path flags p st =
     (let (new_dir, new_name) = split_path new_path
      in bindE (lookup_inode_at I F root p old_fd old_path True st) (\<lambda>r1.
           case r1 of
             Inl e \<Rightarrow> Inr (Inl e, st)
           | Inr i \<Rightarrow>
               bindE (lookup_inode_at I F root p new_fd new_dir True st) (\<lambda>r2.
                 case r2 of
                   Inl e \<Rightarrow> Inr (Inl e, st)
                 | Inr dir \<Rightarrow> let (r, s) = i_link I dir new_name i (fs st) in Inr (fs_res r, st\<lparr>fs := s\<rparr>))))"

definition sys_symlink_at ::
  "('i, 's) inode_ops \<Rightarrow> flag_ops \<Rightarrow> 'i outcome \<Rightarrow> u64 \<Rightarrow> string \<Rightarrow> nat \<Rightarrow> string \<Rightarrow> ('pt, 'i, 'w) Process \<Rightarrow> 's fsys \<Rightarrow>
   (unit SysResult \<times> 's fsys) outcome" where
  "sys_symlink_at I F root now target new_fd link_path p st =
     (let (dir_path, name) = split_path link_path
      in bindE (lookup_inode_at I F root p new_fd dir_path True st) (\<lambda>r.
           case r of
             Inl e \<Rightarrow> Inr (Inl e, st)
           | Inr dir \<Rightarrow>
               (case i_find I dir name (fs st) of
                  Inr _ \<Rightarrow> Inr (Inl EEXIST, st)
                | Inl e \<Rightarrow>
                    if e \<noteq> EntryNotFound then Inr (Inl (FromFs e), st)
                    else (case i_create I dir name SymLink 0x1FF (fs st) of
                            (Inl e, s) \<Rightarrow> Inr (Inl (FromFs e), st\<lparr>fs := s\<rparr>)
                          | (Inr i, s) \<Rightarrow>
                              (case i_write_at I i 0 (map of_char target) s of
                                 (Inl e, s) \<Rightarrow> Inr (Inl (FromFs e), st\<lparr>fs := s\<rparr>)
                               | (Inr _, s) \<Rightarrow> Inr (Inr (), st\<lparr>fs := i_update_time I dir now (i_update_time I i now s)\<rparr>))))))"

definition sys_sync :: "('i, 's) inode_ops \<Rightarrow> 'i outcome \<Rightarrow> 's fsys \<Rightarrow> (unit SysResult \<times> 's fsys) outcome" where
  "sys_sync I root st = bindE root (\<lambda>rt. let (r, s) = i_fs_sync I rt (fs st) in Inr (fs_res r, st\<lparr>fs := s\<rparr>))"

section \<open>Calls without a directory\<close>

definition sys_open where "sys_open I F root now path flags mode p st = sys_open_at I F root now (AT_FDCWD F) path flags mode p st"
definition sys_access where "sys_access I F root path mode p st = sys_faccess_at I F root (AT_FDCWD F) path mode 0 p st"
definition sys_read_link where "sys_read_link I F root path base len p st = sys_read_link_at I F root (AT_FDCWD F) path base len p st"
definition sys_rename where "sys_rename I F root old new p st = sys_rename_at I F root (AT_FDCWD F) old (AT_FDCWD F) new p st"
definition sys_mkdir where "sys_mkdir I F root now path mode p st = sys_mkdir_at I F root now (AT_FDCWD F) path mode p st"
definition sys_link where "sys_link I F root old new p st = sys_link_at I F root (AT_FDCWD F) old (AT_FDCWD F) new 0 p st"
definition sys_unlink where "sys_unlink I F root path p st = sys_unlink_at I F root (AT_FDCWD F) path 0 p st"
definition sys_symlink where "sys_symlink I F root now target path p st = sys_symlink_at I F root now target (AT_FDCWD F) path p st"

section \<open>Strings survive the trip through user memory\<close>

lemma cstr_len_found:
  assumes "mem (s + of_nat n) = 0" "\<And>j. i \<le> j \<Longrightarrow> j < n \<Longrightarrow> mem (s + of_nat j) \<noteq> 0" "i \<le> n"
  shows "cstr_len mem s i = Some n"
  using assms
proof (induction "n - i" arbitrary: i)
  case 0
  then show ?case by (subst cstr_len.simps) simp
next
  case (Suc d)
  then have "mem (s + of_nat i) \<noteq> 0" "Suc i \<le> n" by simp_all
  moreover from Suc have "cstr_len mem s (Suc i) = Some n" by simp
  ultimately show ?case by (subst cstr_len.simps) simp
qed

lemma copy_to_user_frame:
  assumes "\<And>j. j < length bs \<Longrightarrow> ptr + of_nat j \<noteq> a"
  shows "copy_to_user ptr bs mem a = mem a"
  using assms
proof (induction bs arbitrary: ptr mem)
  case (Cons b bs)
  have "(ptr + 1) + of_nat j \<noteq> a" if "j < length bs" for j using Cons.prems[of "Suc j"] that by (simp add: ac_simps)
  then have "copy_to_user (ptr + 1) bs (mem(ptr := b)) a = (mem(ptr := b)) a" by (rule Cons.IH)
  then show ?case using Cons.prems[of 0] by auto
qed simp

lemma of_nat_nonzero: "0 < k \<Longrightarrow> k < 2 ^ 64 \<Longrightarrow> (of_nat k :: usize) \<noteq> 0"
proof
  assume k: "0 < k" "k < 2 ^ 64" and z: "(of_nat k :: usize) = 0"
  have "unat (of_nat k :: usize) = k" using k(2) by (simp add: unat_of_nat)
  with z k(1) show False by simp
qed

lemma copy_to_user_at:
  assumes "length bs < 2 ^ 64" "i < length bs"
  shows "copy_to_user ptr bs mem (ptr + of_nat i) = bs ! i"
  using assms
proof (induction bs arbitrary: ptr mem i)
  case (Cons b bs)
  show ?case
  proof (cases i)
    case 0
    have "ptr + 1 + of_nat j \<noteq> ptr" if "j < length bs" for j
    proof
      assume "ptr + 1 + of_nat j = ptr"
      then have "(of_nat (Suc j) :: usize) = 0" by (simp add: algebra_simps)
      then show False using of_nat_nonzero[of "Suc j"] Cons.prems(1) that by simp
    qed
    then have "copy_to_user (ptr + 1) bs (mem(ptr := b)) ptr = b" by (subst copy_to_user_frame) auto
    with 0 show ?thesis by simp
  next
    case (Suc j)
    with Cons.prems have "copy_to_user (ptr + 1) bs (mem(ptr := b)) (ptr + 1 + of_nat j) = bs ! j" by (intro Cons.IH) simp_all
    with Suc show ?thesis by (simp add: ac_simps)
  qed
qed simp

lemma unat_of_char: "unat (of_char c :: u8) = of_char c"
proof -
  have "(of_char c :: u8) = of_nat (of_char c)" by (rule of_nat_of_char[symmetric])
  then have "unat (of_char c :: u8) = of_char c mod 256" by (simp only: unat_of_nat) simp
  then show ?thesis using nat_of_char_less_256[of c] by simp
qed

lemma of_char_zero: "(of_char c :: u8) = 0 \<longleftrightarrow> c = CHR 0x00"
proof
  assume "(of_char c :: u8) = 0"
  then have "(of_char c :: nat) = 0" using unat_of_char[of c] by simp
  then show "c = CHR 0x00" using of_char_eq_iff[where 'a = nat, of c "CHR 0x00"] by simp
qed simp

text \<open>C29: A string without a zero byte that is stored in user memory with \<open>write_cstr\<close> is read back by \<open>from_cstr\<close>,
  wherever it is stored, also across the end of the address space.\<close>
theorem cstr_roundtrip:
  assumes "CHR 0x00 \<notin> set s" "length s < 2 ^ 64"
  shows "from_cstr (write_cstr ptr s mem) ptr = Some s"
proof -
  let ?m = "write_cstr ptr s mem"
  have at: "?m (ptr + of_nat j) = of_char (s ! j)" if "j < length s" for j
  proof -
    have "(of_nat (length s - j) :: usize) \<noteq> 0" using of_nat_nonzero[of "length s - j"] assms(2) that by simp
    then have "ptr + of_nat j \<noteq> ptr + of_nat (length s)" using that by (simp add: of_nat_diff)
    then show ?thesis using copy_to_user_at[of "map of_char s" j ptr mem] assms(2) that by (simp add: write_cstr_def)
  qed
  have "cstr_len ?m ptr 0 = Some (length s)"
  proof (rule cstr_len_found)
    show "?m (ptr + of_nat j) \<noteq> 0" if "0 \<le> j" "j < length s" for j
      using at[OF that(2)] assms(1) nth_mem[OF that(2)] of_char_zero by metis
  qed (simp_all add: write_cstr_def)
  moreover have "map (\<lambda>b. char_of (unat b)) (user_bytes ?m ptr (length s)) = s"
    by (rule nth_equalityI) (simp_all add: user_bytes_def at unat_of_char)
  ultimately show ?thesis by (simp add: from_cstr_def)
qed

theorem cstr_roundtrip_witness:
  "from_cstr (write_cstr (- 2) ''/tmp'' (\<lambda>_. 7)) (- 2) = Some ''/tmp''"
  by (rule cstr_roundtrip) simp_all

section \<open>Paths\<close>

lemma split_slash_nonempty: "split_slash s \<noteq> []"
  by (induction s) (auto split: list.splits)

lemma split_slash_append: "split_slash (s @ CHR ''/'' # r) = split_slash s @ split_slash r"
proof (induction s)
  case (Cons c s)
  then show ?case using split_slash_nonempty[of s] by (auto split: list.splits)
qed simp

lemma split_slash_plain: "CHR ''/'' \<notin> set s \<Longrightarrow> split_slash s = [s]"
  by (induction s) auto

definition plain :: "string \<Rightarrow> bool" where
  "plain s \<longleftrightarrow> s \<noteq> [] \<and> CHR ''/'' \<notin> set s"

lemma segments_plain: "s \<in> set (segments p) \<Longrightarrow> plain s"
proof -
  have "CHR ''/'' \<notin> set s" if "s \<in> set (split_slash p)" for s
    using that by (induction p arbitrary: s) (auto split: list.splits if_splits)
  then show "s \<in> set (segments p) \<Longrightarrow> plain s" by (auto simp: segments_def plain_def)
qed

lemma segments_append: "segments (s @ CHR ''/'' # r) = segments s @ segments r"
  by (simp add: segments_def split_slash_append)

lemma segments_single: "plain s \<Longrightarrow> segments s = [s]" "segments [] = []"
  by (simp_all add: segments_def plain_def split_slash_plain)

lemma segments_slash: "segments (CHR ''/'' # r) = segments r"
  by (simp add: segments_def)

lemma segments_render: "(\<And>s. s \<in> set ss \<Longrightarrow> plain s) \<Longrightarrow> segments (concat (map ((#) CHR ''/'') ss)) = ss"
proof (induction ss)
  case (Cons s ss)
  then have s: "plain s" and IH: "segments (concat (map ((#) CHR ''/'') ss)) = ss" by auto
  show ?case
  proof (cases ss)
    case Nil
    then show ?thesis using segments_single(1)[OF s] by (simp add: segments_slash)
  next
    case (Cons u us)
    then have "concat (map ((#) CHR ''/'') ss) = CHR ''/'' # u @ concat (map ((#) CHR ''/'') us)" by simp
    then show ?thesis using IH segments_single(1)[OF s] by (simp add: segments_slash segments_append)
  qed
qed (simp add: segments_single)

lemma segments_cwd_string:
  assumes "\<And>s. s \<in> set ss \<Longrightarrow> plain s"
  shows "segments (cwd_string ss) = ss"
proof (cases ss)
  case Nil
  then show ?thesis by (simp add: cwd_string_def segments_slash segments_single)
next
  case (Cons s us)
  then have "cwd_string ss = concat (map ((#) CHR ''/'') ss)" by (simp add: cwd_string_def)
  then show ?thesis using segments_render[OF assms] by simp
qed

text \<open>A directory name as \<open>chdir\<close> keeps it: absolute, without empty parts, without \<open>.\<close> and \<open>..\<close>.\<close>

definition normal :: "string \<Rightarrow> bool" where
  "normal c \<longleftrightarrow> c = cwd_string (segments c) \<and> (\<forall>s \<in> set (segments c). s \<noteq> ''.'' \<and> s \<noteq> ''..'')"

text \<open>The directory a list of parts leads to, from a list of directories.\<close>

fun resolve :: "string list \<Rightarrow> string list \<Rightarrow> string list" where
  "resolve d [] = d"
| "resolve d (s # ss) = resolve (if s = ''.'' then d else if s = ''..'' then butlast d else d @ [s]) ss"

lemma chdir_loop_resolve: "chdir_loop d ss = resolve d ss"
proof (induction d ss rule: resolve.induct)
  case (2 d s ss)
  then show ?case by (cases "s = ''.''"; cases "s = ''..''") simp_all
qed simp

lemma resolve_parts:
  assumes "\<forall>s \<in> set d. P s \<and> s \<noteq> ''.'' \<and> s \<noteq> ''..''" "\<forall>s \<in> set ss. P s"
  shows "\<forall>s \<in> set (resolve d ss). P s \<and> s \<noteq> ''.'' \<and> s \<noteq> ''..''"
  using assms
proof (induction ss arbitrary: d)
  case (Cons s ss)
  let ?d = "if s = ''.'' then d else if s = ''..'' then butlast d else d @ [s]"
  have "\<forall>u \<in> set (butlast d). P u \<and> u \<noteq> ''.'' \<and> u \<noteq> ''..''" using Cons.prems(1) in_set_butlastD[of _ d] by blast
  then have "\<forall>u \<in> set ?d. P u \<and> u \<noteq> ''.'' \<and> u \<noteq> ''..''" using Cons.prems by simp
  from Cons.IH[OF this] show ?case using Cons.prems(2) unfolding resolve.simps by (meson list.set_intros(2))
qed simp

lemma sys_chdir_result:
  assumes "sys_chdir I F root path p st = Inr (Inr (), p')"
  shows "p' = (if path = [] then p else p\<lparr>cwd := cwd_string (resolve (segments (if hd path = CHR ''/'' then ''/'' else cwd p)) (segments path))\<rparr>)"
proof -
  obtain r where r: "lookup_inode I F root p path st = Inr r" using assms by (cases "lookup_inode I F root p path st") (auto simp: sys_chdir_def)
  obtain info where "bindE r (\<lambda>i. fs_res (i_metadata I i (fs st))) = Inr info"
    using assms r by (cases "bindE r (\<lambda>i. fs_res (i_metadata I i (fs st)))") (auto simp: sys_chdir_def)
  with r assms show ?thesis by (simp add: sys_chdir_def chdir_loop_resolve Let_def split: if_splits)
qed

text \<open>C17: A successful \<open>chdir\<close> keeps the current directory in normal form: absolute, with no empty part, no \<open>.\<close> and
  no \<open>..\<close>; its parts are those of the path, resolved from the root for an absolute path and from the old
  directory otherwise.\<close>
theorem chdir_normal:
  assumes "sys_chdir I F root path p st = Inr (Inr (), p')" "normal (cwd p)"
  shows "normal (cwd p') \<and>
    segments (cwd p') = resolve (if path \<noteq> [] \<and> hd path = CHR ''/'' then [] else segments (cwd p)) (segments path) \<and>
    files p' = files p"
proof (cases "path = []")
  case True
  then show ?thesis using assms(2) sys_chdir_result[OF assms(1)] by (simp add: segments_single)
next
  case False
  define d where "d = (if hd path = CHR ''/'' then [] else segments (cwd p))"
  have b: "segments (if hd path = CHR ''/'' then ''/'' else cwd p) = d" by (simp add: d_def segments_slash segments_single)
  have p': "p' = p\<lparr>cwd := cwd_string (resolve d (segments path))\<rparr>"
    using sys_chdir_result[OF assms(1)] unfolding b if_not_P[OF False] .
  have ok: "\<forall>s \<in> set (resolve d (segments path)). plain s \<and> s \<noteq> ''.'' \<and> s \<noteq> ''..''"
    by (rule resolve_parts) (use assms(2) segments_plain in \<open>auto simp: d_def normal_def\<close>)
  then have "segments (cwd_string (resolve d (segments path))) = resolve d (segments path)" by (intro segments_cwd_string) blast
  then show ?thesis using False ok unfolding p' normal_def d_def by simp
qed


section \<open>Descriptors\<close>

lemma open_create_descs:
  "descs (snd (open_create I F now flags m dir name st)) = descs st"
  "next_desc (snd (open_create I F now flags m dir name st)) = next_desc st"
  by (auto simp: open_create_def split: sum.splits prod.splits)

lemma sys_open_at_result:
  assumes "sys_open_at I F root now dir_fd path flags mode p st = Inr (Inr fd, p', st')"
  obtains i st1 h where "descs st1 = descs st" "next_desc st1 = next_desc st"
    "FileHandle_new i (options_from F flags) path (of_cloexec F flags) st1 = (h, st')" "add_file h p = (fd, p')"
proof -
  let ?A = "if of_create F flags
            then let (dir_path, name) = split_path path
                 in bindE (lookup_inode_at I F root p dir_fd dir_path True st) (\<lambda>r.
                      case r of Inl e \<Rightarrow> Inr (Inl e, st)
                      | Inr dir \<Rightarrow> Inr (open_create I F now flags (ucast mode) dir name st))
            else bindE (lookup_inode_at I F root p dir_fd path True st) (\<lambda>r. Inr (r, st))"
  obtain r st1 where A: "?A = Inr (r, st1)"
    and B: "(case r of Inl e \<Rightarrow> Inr (Inl e, p, st1) | Inr i \<Rightarrow>
       let (h, st) = FileHandle_new i (options_from F flags) path (of_cloexec F flags) st1; (fd, p) = add_file h p in Inr (Inr fd, p, st))
       = (Inr (Inr fd, p', st') :: (nat SysResult \<times> _ \<times> _) outcome)"
    using assms unfolding sys_open_at_def by (elim bindE_InrE) (auto split: prod.splits)
  have "descs st1 = descs st \<and> next_desc st1 = next_desc st"
  proof (cases "of_create F flags")
    case True
    obtain dp nm where sp: "split_path path = (dp, nm)" by fastforce
    have "bindE (lookup_inode_at I F root p dir_fd dp True st) (\<lambda>r. case r of Inl e \<Rightarrow> Inr (Inl e, st)
        | Inr dir \<Rightarrow> Inr (open_create I F now flags (ucast mode) dir nm st)) = Inr (r, st1)" using A True sp by simp
    then obtain x where "(case x of Inl e \<Rightarrow> Inr (Inl e, st) | Inr dir \<Rightarrow> Inr (open_create I F now flags (ucast mode) dir nm st)) = (Inr (r, st1) :: _ outcome)"
      by (elim bindE_InrE) blast
    then show ?thesis using open_create_descs[of I F now flags "ucast mode" _ nm st] by (cases x) (auto simp: prod_eq_iff)
  qed (use A in \<open>auto simp: bindE_eq_Inr\<close>)
  moreover obtain i where "r = Inr i" using B by (cases r) simp_all
  ultimately show thesis using that B by (auto split: prod.splits)
qed

text \<open>C26: \<open>open\<close> that succeeds returns the lowest descriptor that was free, bound to a new open file with offset
  zero and the access the flags ask for; every other descriptor and every open file stays as it was, and
  closing the new descriptor gives back the old table.\<close>
theorem open_lowest_fd:
  assumes "sys_open_at I F root now dir_fd path flags mode p st = Inr (Inr fd, p', st')" "bt_ok (files p)"
  shows "bt_get (files p) fd = None \<and> (\<forall>i < fd. bt_get (files p) i \<noteq> None) \<and>
    (\<exists>h. bt_get (files p') fd = Some h \<and> desc_of h st' = \<lparr>offset = 0, options = options_from F flags, flock = FlockNone\<rparr> \<and>
      description h = next_desc st) \<and>
    (\<forall>i. i \<noteq> fd \<longrightarrow> bt_get (files p') i = bt_get (files p) i) \<and> (\<forall>d < next_desc st. descs st' d = descs st d) \<and>
    bt_get (files (snd (sys_close fd p'))) = bt_get (files p)"
proof -
  obtain i st1 h where d: "descs st1 = descs st" "next_desc st1 = next_desc st"
    and n: "FileHandle_new i (options_from F flags) path (of_cloexec F flags) st1 = (h, st')" and a: "add_file h p = (fd, p')"
    by (rule sys_open_at_result[OF assms(1)])
  have fd: "fd = first_free (files p) 0" and f: "bt_get (files p') = (bt_get (files p))(fd \<mapsto> h)"
    using a bt.get_ins[OF assms(2)] by (auto simp: add_file_def get_free_fd_def Let_def)
  note free = first_free_least[of "files p" 0, folded fd]
  have h: "description h = next_desc st" "desc_of h st' = \<lparr>offset = 0, options = options_from F flags, flock = FlockNone\<rparr>"
    "\<forall>d < next_desc st. descs st' d = descs st d"
    using n d by (auto simp: FileHandle_new_def description_create_def desc_of_def)
  have "bt_get (files (snd (sys_close fd p'))) = (bt_get (files p'))(fd := None)"
    using f by (simp add: sys_close_def bt_get_remove)
  then have "bt_get (files (snd (sys_close fd p'))) = bt_get (files p)" using f free by (auto simp: fun_eq_iff)
  with f h free show ?thesis by simp
qed

text \<open>\<open>dup3\<close> to another descriptor binds it to the same open file, so that they share the offset, and changes
  no other. But the target is closed first: if the source is not open, or is the target itself, the call
  fails with \<open>EBADF\<close> and the target has been closed.\<close>
lemma dup3_effect:
  assumes "bt_ok (files p)" "sys_dup3 fd1 fd2 flags p = (r, p')"
  shows "(if fd1 \<noteq> fd2 \<and> bt_get (files p) fd1 \<noteq> None
    then r = Inr fd2 \<and> (\<exists>h. bt_get (files p) fd1 = Some h \<and> bt_get (files p') fd2 = Some (h\<lparr>fd_cloexec := (flags \<noteq> 0)\<rparr>))
    else r = Inl EBADF \<and> bt_get (files p') fd2 = None) \<and>
    (\<forall>i. i \<noteq> fd2 \<longrightarrow> bt_get (files p') i = bt_get (files p) i)"
  using assms bt.get_ins[of "bt_remove fd2 (files p)" fd2] bt_get_remove[of fd2 "files p"] bt.ok_del[OF assms(1), of fd2]
  by (auto simp: sys_dup3_def get_file_def fh_dup_def Let_def split: option.splits if_splits)

text \<open>As the root of the file system is not set up (its initialiser is \<open>todo!()\<close>), every call that looks up
  a path from the current directory stops the kernel.\<close>
lemma paths_stop_kernel:
  "sys_open I F ROOT_INODE now path flags mode p st = Inl Todo \<and> sys_chdir I F ROOT_INODE path p st = Inl Todo \<and>
   sys_access I F ROOT_INODE path amode p st = Inl Todo \<and> sys_truncate I F ROOT_INODE path len p st = Inl Todo \<and>
   sys_mkdir I F ROOT_INODE now path mode p st = Inl Todo \<and> sys_rmdir I F ROOT_INODE path p st = Inl Todo \<and>
   sys_unlink I F ROOT_INODE path p st = Inl Todo \<and> sys_rename I F ROOT_INODE path path2 p st = Inl Todo \<and>
   sys_link I F ROOT_INODE path path2 p st = Inl Todo \<and> sys_symlink I F ROOT_INODE now path path2 p st = Inl Todo"
proof -
  have l: "lookup_inode_at I F ROOT_INODE p (AT_FDCWD F) q follow st = Inl Todo" for q follow
    by (simp add: lookup_inode_at_def ROOT_INODE_def Let_def)
  then have "lookup_inode I F ROOT_INODE p q st = Inl Todo" for q by (simp add: lookup_inode_def)
  with l show ?thesis
    by (simp add: sys_open_def sys_open_at_def sys_chdir_def sys_access_def sys_faccess_at_def sys_truncate_def sys_mkdir_def
        sys_mkdir_at_def sys_rmdir_def sys_unlink_def sys_unlink_at_def sys_rename_def sys_rename_at_def sys_link_def
        sys_link_at_def sys_symlink_def sys_symlink_at_def split_beta)
qed

text \<open>The offset that \<open>lseek\<close> sets is the argument, whatever \<open>whence\<close> asks for.\<close>

lemma lseek_absolute:
  assumes "get_file fd p = Inr h" "sys_lseek I fd off whence p st = (r, st')"
  shows "r = Inr off \<and> offset (desc_of h st') = off"
  using assms by (auto simp: sys_lseek_def fh_seek_def fs_res_def)

section \<open>Sample calls\<close>

definition dir_inodes :: "(nat, nat \<Rightarrow> u8 list) inode_ops" where
  "dir_inodes = ram_inodes\<lparr>i_metadata := (\<lambda>i s. Inr \<lparr>md_size = 0, md_type = Dir\<rparr>), i_lookup_follow := (\<lambda>i p n s. Inr i)\<rparr>"

definition demo_flags :: flag_ops where
  "demo_flags = \<lparr>AT_FDCWD = 1000, of_create = (\<lambda>f. bit f 6), of_exclusive = (\<lambda>f. bit f 7), of_truncate = (\<lambda>f. bit f 9),
     of_cloexec = (\<lambda>f. bit f 19), of_readable = (\<lambda>f. \<not> bit f 0), of_writable = (\<lambda>f. bit f 0 \<or> bit f 1), of_append = (\<lambda>f. bit f 10),
     at_nofollow = (\<lambda>f. bit f 8)\<rparr>"

definition demo_caller :: "(nat, nat, nat) Process" where
  "demo_caller = \<lparr>vm_areas = [], vm_table = 0, files = [(0, demo_handle), (2, demo_handle)], cwd = ''/usr/bin'', exec_path = [], pid = 1, pgid = 0,
     parent = (0, None), children = [], threads = [], event_bus = EventBus_new, exit_code = 0, sig_queue = [],
     pending_sigset = Sigset_empty, dispositions = []\<rparr>"

lemma demo_lookup: "lookup_inode_at dir_inodes demo_flags (Inr 5) demo_caller 1000 path follow st = Inr (Inr 5)"
  by (simp add: lookup_inode_at_def demo_flags_def dir_inodes_def ram_inodes_def fs_res_def)

lemma demo_ops: "i_metadata dir_inodes i s = Inr \<lparr>md_size = 0, md_type = Dir\<rparr>" "\<not> of_create demo_flags 0"
  by (simp_all add: dir_inodes_def demo_flags_def)

theorem chdir_normal_witness:
  "\<exists>p'. sys_chdir dir_inodes demo_flags (Inr 5) ''../lib//./a'' demo_caller (demo_fsys False) = Inr (Inr (), p') \<and>
     segments (cwd p') = [''usr'', ''lib'', ''a''] \<and> normal (cwd p')"
proof -
  have n: "normal (cwd demo_caller)" by (simp add: normal_def demo_caller_def segments_def cwd_string_def)
  have l: "lookup_inode dir_inodes demo_flags (Inr 5) demo_caller path (demo_fsys False) = Inr (Inr 5)" for path
    using demo_lookup by (simp add: lookup_inode_def demo_flags_def)
  obtain p' where c: "sys_chdir dir_inodes demo_flags (Inr 5) ''../lib//./a'' demo_caller (demo_fsys False) = Inr (Inr (), p')"
    by (simp add: sys_chdir_def l demo_ops fs_res_def Let_def)
  have "segments (cwd demo_caller) = [''usr'', ''bin'']" "segments ''../lib//./a'' = [''..'', ''lib'', ''.'', ''a'']"
    by (simp_all add: demo_caller_def segments_def)
  then show ?thesis using chdir_normal[OF c n] c by simp
qed

theorem open_lowest_fd_witness:
  "\<exists>p' st'. sys_open_at dir_inodes demo_flags (Inr 5) 0 1000 ''/etc'' 0 0 demo_caller (demo_fsys False) = Inr (Inr 1, p', st') \<and>
     bt_get (files p') 2 = Some demo_handle"
proof -
  have fr: "first_free (files demo_caller) 0 = 1" by (simp add: demo_caller_def first_free.simps)
  obtain h st' where n: "FileHandle_new (5 :: nat) (options_from demo_flags 0) ''/etc'' (of_cloexec demo_flags 0) (demo_fsys False) = (h, st')"
    by fastforce
  obtain p' where o: "sys_open_at dir_inodes demo_flags (Inr 5) 0 1000 ''/etc'' 0 0 demo_caller (demo_fsys False) = Inr (Inr 1, p', st')"
    using demo_lookup[of "''/etc''"]
    by (simp add: sys_open_at_def demo_ops n add_file_def get_free_fd_def fr Let_def)
  have "bt_ok (files demo_caller)" by (simp add: demo_caller_def bt_ok_def)
  from open_lowest_fd[OF o this] o show ?thesis by (simp add: demo_caller_def)
qed

end
