(* ===== verification/Process_Abi.thy ===== *)
theory Process_Abi
  imports File_Syscalls
begin

text \<open>
  The initial stack of a program (\<^verbatim>\<open>src/kernel/src/process/abi.rs\<close>): the arguments, the environment and the
  auxiliary vector as \<open>ProcInitInfo::push_at\<close> lays them out, and that the start code of the program, reading
  upwards from the stack pointer, finds them.

  The kernel writes the stack with the address space of the program active. What a store of one byte does is
  the argument \<open>put\<close> of the operations: it may stop the kernel, as a store to a page that is not mapped does.
  The locale \<open>byte_store\<close> says what the layout relies on; it is interpreted for a plain memory and, given the
  laws of the MMU, for an address space whose pages have frames of their own.
\<close>

section \<open>The stack writer\<close>

type_synonym 'm put = "usize \<Rightarrow> u8 \<Rightarrow> 'm \<Rightarrow> 'm outcome"

record ProcInitInfo =
  args :: "string list"
  envs :: "string list"
  auxv :: "(u8, usize) btree"

abbreviation AT_PHDR :: u8 where "AT_PHDR \<equiv> 3"
abbreviation AT_PHENT :: u8 where "AT_PHENT \<equiv> 4"
abbreviation AT_PHNUM :: u8 where "AT_PHNUM \<equiv> 5"
abbreviation AT_PAGESZ :: u8 where "AT_PAGESZ \<equiv> 6"
abbreviation AT_BASE :: u8 where "AT_BASE \<equiv> 7"
abbreviation AT_ENTRY :: u8 where "AT_ENTRY \<equiv> 9"

fun copy_from_slice :: "'m put \<Rightarrow> usize \<Rightarrow> u8 list \<Rightarrow> 'm \<Rightarrow> 'm outcome" where
  "copy_from_slice put ptr [] m = Inr m"
| "copy_from_slice put ptr (b # bs) m = bindE (put ptr b m) (copy_from_slice put (ptr + 1) bs)"

text \<open>\<open>push_slice\<close> of elements of a type with the given size and alignment; \<open>enc\<close> gives the bytes of an
  element. The state is the stack pointer and the memory.\<close>

definition push_slice ::
  "'m put \<Rightarrow> usize \<Rightarrow> usize \<Rightarrow> ('a \<Rightarrow> u8 list) \<Rightarrow> 'a list \<Rightarrow> usize \<times> 'm \<Rightarrow> (usize \<times> 'm) outcome" where
  "push_slice put size_of align_of enc vs w =
     (let sp = fst w - of_nat (length vs) * size_of;
          sp = sp - sp mod align_of
      in bindE (copy_from_slice put sp (concat (map enc vs)) (snd w)) (\<lambda>m. Inr (sp, m)))"

text \<open>The bytes of a word, lowest first.\<close>

definition usize_bytes :: "usize \<Rightarrow> u8 list" where
  "usize_bytes v = map (\<lambda>i. ucast (drop_bit (8 * i) v)) [0 ..< 8]"

definition push_words :: "'m put \<Rightarrow> usize list \<Rightarrow> usize \<times> 'm \<Rightarrow> (usize \<times> 'm) outcome" where
  "push_words put = push_slice put 8 8 usize_bytes"

definition push_str :: "'m put \<Rightarrow> string \<Rightarrow> usize \<times> 'm \<Rightarrow> (usize \<times> 'm) outcome" where
  "push_str put s w =
     bindE (push_slice put 1 1 (\<lambda>b. [b]) [0] w) (push_slice put 1 1 (\<lambda>c. [of_char c]) s)"

fun push_strs :: "'m put \<Rightarrow> string list \<Rightarrow> usize \<times> 'm \<Rightarrow> (usize list \<times> usize \<times> 'm) outcome" where
  "push_strs put [] w = Inr ([], w)"
| "push_strs put (s # ss) w =
     bindE (push_str put s w) (\<lambda>w. bindE (push_strs put ss w) (\<lambda>(ps, w'). Inr (fst w # ps, w')))"

definition push_auxv :: "'m put \<Rightarrow> (u8, usize) btree \<Rightarrow> usize \<times> 'm \<Rightarrow> (usize \<times> 'm) outcome" where
  "push_auxv put es w = iterE (\<lambda>(t, v). push_words put [ucast t, v]) es w"

definition push_at :: "'m put \<Rightarrow> ProcInitInfo \<Rightarrow> usize \<Rightarrow> 'm \<Rightarrow> (usize \<times> 'm) outcome" where
  "push_at put i stack_top m =
     bindE (if args i = [] then Inl IndexOutOfRange else Inr (args i ! 0)) (\<lambda>name.
     bindE (push_str put name (stack_top, m)) (\<lambda>w.
     bindE (push_strs put (envs i) w) (\<lambda>(envp, w).
     bindE (push_strs put (args i) w) (\<lambda>(argv, w).
     bindE (push_words put [0, 0] w) (\<lambda>w.
     bindE (push_auxv put (auxv i) w) (\<lambda>w.
     bindE (push_words put [0] w) (\<lambda>w.
     bindE (push_words put envp w) (\<lambda>w.
     bindE (push_words put [0] w) (\<lambda>w.
     bindE (push_words put argv w) (\<lambda>w.
       push_words put [of_nat (length argv)] w))))))))))"

section \<open>What the start code reads\<close>

definition read_word :: "(usize \<Rightarrow> u8) \<Rightarrow> usize \<Rightarrow> usize" where
  "read_word mem a = foldr (\<lambda>b v. ucast b OR push_bit 8 v) (user_bytes mem a 8) 0"

partial_function (option) read_pointers :: "(usize \<Rightarrow> u8) \<Rightarrow> usize \<Rightarrow> (usize list \<times> usize) option" where
  "read_pointers mem a =
     (let p = read_word mem a
      in if p = 0 then Some ([], a + 8)
         else Option.bind (read_pointers mem (a + 8)) (\<lambda>r. Some (p # fst r, snd r)))"

partial_function (option) read_auxv :: "(usize \<Rightarrow> u8) \<Rightarrow> usize \<Rightarrow> (usize \<times> usize) list option" where
  "read_auxv mem a =
     (let t = read_word mem a
      in if t = 0 then Some []
         else Option.bind (read_auxv mem (a + 16)) (\<lambda>es. Some ((t, read_word mem (a + 8)) # es)))"

fun read_strings :: "(usize \<Rightarrow> u8) \<Rightarrow> usize list \<Rightarrow> string list option" where
  "read_strings mem [] = Some []"
| "read_strings mem (p # ps) =
     (case (from_cstr mem p, read_strings mem ps) of (Some s, Some ss) \<Rightarrow> Some (s # ss) | _ \<Rightarrow> None)"

text \<open>The number of arguments, the arguments, the environment and the auxiliary vector that a program finds
  at its initial stack pointer.\<close>

definition read_init :: "(usize \<Rightarrow> u8) \<Rightarrow> usize \<Rightarrow> (usize \<times> string list \<times> string list \<times> (usize \<times> usize) list) option" where
  "read_init mem sp =
     (case read_pointers mem (sp + 8) of
        None \<Rightarrow> None
      | Some (argv, a) \<Rightarrow>
          (case read_pointers mem a of
             None \<Rightarrow> None
           | Some (envp, a) \<Rightarrow>
               (case (read_strings mem argv, read_strings mem envp, read_auxv mem a) of
                  (Some ar, Some en, Some au) \<Rightarrow> Some (read_word mem sp, ar, en, au)
                | _ \<Rightarrow> None)))"

section \<open>Bytes in memory\<close>

definition holds :: "(usize \<Rightarrow> u8) \<Rightarrow> usize \<Rightarrow> u8 list \<Rightarrow> bool" where
  "holds mem a bs \<longleftrightarrow> (\<forall>i < length bs. mem (a + of_nat i) = bs ! i)"

lemma all_less_add: "(\<forall>i < a + b. P i) \<longleftrightarrow> (\<forall>i < a. P i) \<and> (\<forall>i < b. P (a + i))" for a b :: nat
proof (intro iffI allI impI)
  fix i assume *: "(\<forall>i < a. P i) \<and> (\<forall>i < b. P (a + i))" "i < a + b"
  show "P i"
  proof (cases "i < a")
    case False
    with * have "i - a < b" by simp
    with * have "P (a + (i - a))" by blast
    with False show ?thesis by simp
  qed (use * in blast)
qed simp

lemma holds_append:
  "holds mem a (bs @ cs) \<longleftrightarrow> holds mem a bs \<and> holds mem (a + of_nat (length bs)) cs"
  unfolding holds_def length_append all_less_add by (simp add: nth_append add.assoc)

lemma holds_Nil [simp]: "holds mem a []"
  by (simp add: holds_def)

lemma holds_cong:
  "holds mem a bs \<Longrightarrow> (\<And>i. i < length bs \<Longrightarrow> mem' (a + of_nat i) = mem (a + of_nat i)) \<Longrightarrow> holds mem' a bs"
  by (simp add: holds_def)

lemma holds_user_bytes: "holds mem a bs \<Longrightarrow> user_bytes mem a (length bs) = bs"
  by (rule nth_equalityI) (simp_all add: holds_def user_bytes_def)

lemma length_usize_bytes [simp]: "length (usize_bytes v) = 8"
  by (simp add: usize_bytes_def)

lemma bytes_decode:
  "foldr (\<lambda>b w. ucast (b :: u8) OR push_bit 8 w) (map (\<lambda>i. ucast (drop_bit (8 * i) (v :: usize))) [0 ..< n]) 0 = take_bit (8 * n) v"
proof (induction n arbitrary: v)
  case (Suc n)
  have "[0 ..< Suc n] = 0 # map Suc [0 ..< n]" by (simp add: map_Suc_upt upt_conv_Cons del: upt_Suc)
  then have "map (\<lambda>i. ucast (drop_bit (8 * i) v)) [0 ..< Suc n] =
      (ucast v :: u8) # map (\<lambda>i. ucast (drop_bit (8 * i) (drop_bit 8 v))) [0 ..< n]" by (simp only: list.map map_map o_def mult_Suc_right drop_bit_drop_bit mult_0_right drop_bit_0 id_apply add.commute)
  then have "foldr (\<lambda>b w. ucast (b :: u8) OR push_bit 8 w) (map (\<lambda>i. ucast (drop_bit (8 * i) v)) [0 ..< Suc n]) 0 =
      ucast (ucast v :: u8) OR push_bit 8 (take_bit (8 * n) (drop_bit 8 v))" by (simp only: foldr.simps o_apply Suc.IH)
  also have "\<dots> = take_bit (8 * Suc n) v"
  proof (rule bit_word_eqI)
    fix m assume "m < LENGTH(64)"
    then show "bit (ucast (ucast v :: u8) OR push_bit 8 (take_bit (8 * n) (drop_bit 8 v))) m = bit (take_bit (8 * Suc n) v) m"
      by (cases "m < 8") (auto simp: bit_simps)
  qed
  finally show ?case .
qed simp

lemma usize_bytes_decode: "foldr (\<lambda>b w. ucast b OR push_bit 8 w) (usize_bytes v) 0 = v"
  using bytes_decode[of v 8] by (simp add: usize_bytes_def take_bit_word_eq_self)

lemma read_word_holds: "holds mem a (usize_bytes v) \<Longrightarrow> read_word mem a = v"
  using holds_user_bytes[of mem a "usize_bytes v"] by (simp add: read_word_def usize_bytes_decode)

definition holds_words :: "(usize \<Rightarrow> u8) \<Rightarrow> usize \<Rightarrow> usize list \<Rightarrow> bool" where
  "holds_words mem a ws \<longleftrightarrow> holds mem a (concat (map usize_bytes ws))"

lemma length_words: "length (concat (map usize_bytes ws)) = 8 * length ws"
  by (induction ws) simp_all

lemma holds_words_Cons [simp]:
  "holds_words mem a (v # ws) \<longleftrightarrow> holds mem a (usize_bytes v) \<and> holds_words mem (a + 8) ws"
  by (simp add: holds_words_def holds_append)

lemma holds_words_append:
  "holds_words mem a (vs @ ws) \<longleftrightarrow> holds_words mem a vs \<and> holds_words mem (a + of_nat (8 * length vs)) ws"
  by (simp add: holds_words_def holds_append length_words)


section \<open>Pushing\<close>

text \<open>A step that pushed at most \<open>n\<close> bytes, and a stack with room for \<open>n\<close> more.\<close>

definition pushed ::
  "('m \<Rightarrow> usize \<Rightarrow> u8) \<Rightarrow> ('m \<Rightarrow> usize \<Rightarrow> bool) \<Rightarrow> nat \<Rightarrow> usize \<times> 'm \<Rightarrow> usize \<times> 'm \<Rightarrow> bool" where
  "pushed view writable n w w' \<longleftrightarrow>
     fst w' \<le> fst w \<and> unat (fst w) \<le> unat (fst w') + n \<and> writable (snd w') = writable (snd w) \<and>
     (\<forall>a. fst w \<le> a \<or> a < fst w' \<longrightarrow> view (snd w') a = view (snd w) a)"

definition room :: "('m \<Rightarrow> usize \<Rightarrow> bool) \<Rightarrow> nat \<Rightarrow> usize \<times> 'm \<Rightarrow> bool" where
  "room writable n w \<longleftrightarrow>
     n < unat (fst w) \<and> (\<forall>a. unat (fst w) - n \<le> unat a \<and> a < fst w \<longrightarrow> writable (snd w) a)"

lemma pushed_trans:
  assumes "pushed v wr m w w'" "pushed v wr n w' w''"
  shows "pushed v wr (m + n) w w''"
proof -
  have "v (snd w'') a = v (snd w) a" if "fst w \<le> a \<or> a < fst w''" for a
  proof -
    have "fst w' \<le> a \<or> a < fst w''" "fst w \<le> a \<or> a < fst w'"
      using that assms unfolding pushed_def by (meson order.trans order.strict_trans2)+
    then show ?thesis using assms unfolding pushed_def by metis
  qed
  then show ?thesis using assms unfolding pushed_def by auto
qed

lemma pushed_refl: "pushed v wr n w w"
  by (simp add: pushed_def)

lemma room_pushed:
  assumes "room wr (m + n) w" "pushed v wr m w w'"
  shows "room wr n w'"
proof -
  have le: "unat (fst w') \<le> unat (fst w)" "unat (fst w) \<le> unat (fst w') + m"
    using assms(2) by (simp_all add: pushed_def word_le_nat_alt)
  have "wr (snd w') a" if "unat (fst w') - n \<le> unat a" "a < fst w'" for a
  proof -
    have "unat (fst w) - (m + n) \<le> unat a" "a < fst w"
      using that le by (simp_all add: word_less_nat_alt)
    then show ?thesis using assms unfolding room_def pushed_def by metis
  qed
  moreover have "n < unat (fst w')" using assms(1) le by (simp add: room_def)
  ultimately show ?thesis by (simp add: room_def)
qed

lemma room_le: "room wr n w \<Longrightarrow> m \<le> n \<Longrightarrow> room wr m w"
  by (auto simp: room_def)

text \<open>What was pushed stays.\<close>

lemma holds_pushed:
  assumes "holds (v (snd w)) a bs" "pushed v wr n w w'" "fst w \<le> a" "unat a + length bs \<le> 2 ^ 64"
  shows "holds (v (snd w')) a bs"
  using assms(1)
proof (rule holds_cong)
  fix i assume i: "i < length bs"
  then have "unat (a + of_nat i) = unat a + i"
    using assms(4) by (subst unat_add_no_wrap) (simp_all add: unat_of_nat)
  then have "fst w \<le> a + of_nat i" using assms(3) by (simp add: word_le_nat_alt)
  then show "v (snd w') (a + of_nat i) = v (snd w) (a + of_nat i)" using assms(2) by (simp add: pushed_def)
qed

lemma slice_pointer:
  fixes sp al :: usize
  assumes "L \<le> unat sp"
  defines "s \<equiv> sp - of_nat L"
  shows "unat (s - s mod al) = unat sp - L - (unat sp - L) mod unat al"
proof -
  have "unat (of_nat L :: usize) = L" using assms(1) unat_lt_64[of sp] by (simp add: unat_of_nat)
  then have s: "unat s = unat sp - L" using assms(1) by (simp add: s_def unat_sub_no_wrap word_le_nat_alt)
  have "unat (s mod al) = unat s mod unat al" by (simp add: unat_mod_distrib)
  moreover have "s mod al \<le> s" by (simp add: word_le_nat_alt unat_mod_distrib)
  ultimately show ?thesis by (simp add: unat_sub_no_wrap s)
qed

lemma add_unat_eq:
  fixes a b :: usize
  assumes "unat a + k = unat b"
  shows "a + of_nat k = b"
proof -
  have "unat (of_nat k :: usize) = k" using assms unat_lt_64[of b] by (simp add: unat_of_nat)
  then have "unat (a + of_nat k) = unat b" using assms unat_lt_64[of b] by (subst unat_add_no_wrap) simp_all
  then show ?thesis by (simp add: word_unat_eq_iff)
qed

text \<open>The strings a list of pointers points to, above \<open>lo\<close> and below \<open>hi\<close>.\<close>

definition strings_at :: "(usize \<Rightarrow> u8) \<Rightarrow> usize \<Rightarrow> nat \<Rightarrow> usize list \<Rightarrow> string list \<Rightarrow> bool" where
  "strings_at mem lo hi = list_all2 (\<lambda>p s. lo \<le> p \<and> unat p + length s + 1 \<le> hi \<and> holds mem p (map of_char s @ [0]))"

lemma strings_at_pushed:
  assumes "strings_at (v (snd w)) (fst w) hi ps ss" "pushed v wr n w w'" "hi \<le> 2 ^ 64"
  shows "strings_at (v (snd w')) (fst w') hi ps ss"
  using assms(1) unfolding strings_at_def
proof (rule list.rel_mono_strong)
  fix p s assume p: "fst w \<le> p \<and> unat p + length s + 1 \<le> hi \<and> holds (v (snd w)) p (map of_char s @ [0])"
  then have "unat p + length (map of_char s @ [0 :: u8]) \<le> 2 ^ 64" using assms(3) by simp
  then have "holds (v (snd w')) p (map of_char s @ [0])" using holds_pushed[OF _ assms(2)] p by blast
  moreover have "fst w' \<le> p" using p assms(2) order.trans[of "fst w'" "fst w" p] by (simp add: pushed_def)
  ultimately show "fst w' \<le> p \<and> unat p + length s + 1 \<le> hi \<and> holds (v (snd w')) p (map of_char s @ [0])"
    using p by blast
qed

fun strings_size :: "string list \<Rightarrow> nat" where
  "strings_size [] = 0"
| "strings_size (s # ss) = length s + 1 + strings_size ss"

definition auxv_words :: "(u8, usize) btree \<Rightarrow> usize list" where
  "auxv_words es = concat (map (\<lambda>(t, v). [ucast t, v]) es)"

definition block_size :: "(u8, usize) btree \<Rightarrow> usize list \<Rightarrow> usize list \<Rightarrow> nat" where
  "block_size es envp argv = 8 * (2 + 2 * length es + 1 + length envp + 1 + length argv + 1)"

text \<open>The bytes the initial stack takes at most: the strings, the words and the alignment.\<close>

definition init_size :: "ProcInitInfo \<Rightarrow> nat" where
  "init_size i = length (args i ! 0) + 1 + strings_size (envs i) + strings_size (args i) + 7 +
     8 * (5 + 2 * length (auxv i) + length (envs i) + length (args i))"

text \<open>An aligned stack that holds some words, with room for more.\<close>

definition stacked ::
  "('m \<Rightarrow> usize \<Rightarrow> u8) \<Rightarrow> ('m \<Rightarrow> usize \<Rightarrow> bool) \<Rightarrow> nat \<Rightarrow> usize \<times> 'm \<Rightarrow> usize list \<Rightarrow> bool" where
  "stacked view writable n w ws \<longleftrightarrow>
     unat (fst w) mod 8 = 0 \<and> room writable n w \<and> holds_words (view (snd w)) (fst w) ws \<and>
     unat (fst w) + 8 * length ws \<le> 2 ^ 64"

lemma pushed_le: "pushed v wr m w w' \<Longrightarrow> m \<le> n \<Longrightarrow> pushed v wr n w w'"
  by (auto simp: pushed_def)

lemma dvd_minus_mod_16: "16 + n mod 8 \<le> n \<Longrightarrow> 8 dvd n - (16 + n mod 8)" for n :: nat
  by presburger

locale byte_store =
  fixes put :: "'m put" and view :: "'m \<Rightarrow> usize \<Rightarrow> u8" and writable :: "'m \<Rightarrow> usize \<Rightarrow> bool"
  assumes put_ok: "writable m a \<Longrightarrow>
    \<exists>m'. put a b m = Inr m' \<and> view m' = (view m)(a := b) \<and> writable m' = writable m"
begin

lemma copy_ok:
  "(\<And>i. i < length bs \<Longrightarrow> writable m (ptr + of_nat i)) \<Longrightarrow>
   \<exists>m'. copy_from_slice put ptr bs m = Inr m' \<and> view m' = copy_to_user ptr bs (view m) \<and> writable m' = writable m"
proof (induction bs arbitrary: ptr m)
  case (Cons b bs)
  from Cons.prems[of 0] have "writable m ptr" by simp
  from put_ok[OF this, of b] obtain m1 where m1: "put ptr b m = Inr m1" "view m1 = (view m)(ptr := b)" "writable m1 = writable m"
    by blast
  have "writable m1 (ptr + 1 + of_nat i)" if "i < length bs" for i
    using Cons.prems[of "Suc i"] that m1(3) by (simp add: ac_simps)
  from Cons.IH[OF this] obtain m' where "copy_from_slice put (ptr + 1) bs m1 = Inr m'"
    "view m' = copy_to_user (ptr + 1) bs (view m1)" "writable m' = writable m1" by blast
  with m1 show ?case by (intro exI[of _ m']) simp
qed simp

lemma push_slice_ok:
  assumes enc: "\<And>v. length (enc v) = k"
    and n: "n = length vs * k + (unat (fst w) - length vs * k) mod unat al" and room: "room writable n w"
  shows "\<exists>w'. push_slice put (of_nat k) al enc vs w = Inr w' \<and> pushed view writable n w w' \<and>
    holds (view (snd w')) (fst w') (concat (map enc vs)) \<and> unat (fst w') = unat (fst w) - n"
proof -
  define L where "L = length vs * k"
  define sp where "sp = fst w - of_nat L - (fst w - of_nat L) mod al"
  let ?bs = "concat (map enc vs)"
  have len: "length ?bs = L" unfolding L_def using enc by (induction vs) simp_all
  have lt: "n < unat (fst w)" "L \<le> n" using room n by (simp_all add: room_def L_def)
  have sp: "unat sp = unat (fst w) - n"
    unfolding sp_def using slice_pointer[of L "fst w" al] lt n by (simp add: L_def)
  have at: "unat (sp + of_nat i) = unat sp + i" if "i < L" for i
    using that lt sp unat_lt_64[of "fst w"] by (subst unat_add_no_wrap) (simp_all add: unat_of_nat)
  have "writable (snd w) (sp + of_nat i)" if "i < length ?bs" for i
  proof -
    have "unat (fst w) - n \<le> unat (sp + of_nat i)" "sp + of_nat i < fst w"
      using that len at[of i] sp lt by (simp_all add: word_less_nat_alt)
    then show ?thesis using room unfolding room_def by blast
  qed
  from copy_ok[OF this] obtain m' where m': "copy_from_slice put sp ?bs (snd w) = Inr m'"
    "view m' = copy_to_user sp ?bs (view (snd w))" "writable m' = writable (snd w)" by blast
  have "view m' a = view (snd w) a" if "fst w \<le> a \<or> a < sp" for a
    unfolding m'(2)
  proof (rule copy_to_user_frame)
    fix j assume "j < length ?bs"
    then show "sp + of_nat j \<noteq> a" using that at[of j] sp lt len by (auto simp: word_le_nat_alt word_less_nat_alt)
  qed
  then have "pushed view writable n w (sp, m')"
    using sp lt m'(3) by (simp add: pushed_def word_le_nat_alt)
  moreover have "holds (view m') sp ?bs"
    using copy_to_user_at[of ?bs] len lt unat_lt_64[of "fst w"] by (simp add: m'(2) holds_def)
  moreover have "push_slice put (of_nat k) al enc vs w = Inr (sp, m')"
    using m'(1) by (simp add: push_slice_def Let_def sp_def L_def)
  ultimately show ?thesis using sp by (intro exI[of _ "(sp, m')"]) simp
qed

lemma push_words_ok:
  assumes n: "n = 8 * length vs + unat (fst w) mod 8" and room: "room writable n w"
  shows "\<exists>w'. push_words put vs w = Inr w' \<and> pushed view writable n w w' \<and>
    holds_words (view (snd w')) (fst w') vs \<and> unat (fst w') = unat (fst w) - n"
proof -
  have lt: "8 * length vs \<le> unat (fst w)" using room n by (simp add: room_def)
  have "(unat (fst w) - length vs * 8) mod 8 = unat (fst w) mod 8"
    using mod_mult_self1[of "unat (fst w) - length vs * 8" "length vs" 8] lt by (simp add: mult.commute)
  then have "n = length vs * 8 + (unat (fst w) - length vs * 8) mod unat (8 :: usize)" using n by simp
  from push_slice_ok[of usize_bytes 8, OF _ this room] show ?thesis
    by (simp add: push_words_def holds_words_def)
qed

text \<open>On an aligned stack words are pushed below the words that are there.\<close>

lemma push_words_on:
  assumes "unat (fst w) mod 8 = 0" "room writable (8 * length vs) w" "holds_words (view (snd w)) (fst w) ws"
    and "unat (fst w) + 8 * length ws \<le> 2 ^ 64"
  shows "\<exists>w'. push_words put vs w = Inr w' \<and> pushed view writable (8 * length vs) w w' \<and>
    holds_words (view (snd w')) (fst w') (vs @ ws) \<and> unat (fst w') + 8 * length vs = unat (fst w)"
proof -
  have "8 * length vs = 8 * length vs + unat (fst w) mod 8" using assms(1) by simp
  from push_words_ok[OF this assms(2)] obtain w' where w': "push_words put vs w = Inr w'"
    "pushed view writable (8 * length vs) w w'" "holds_words (view (snd w')) (fst w') vs"
    "unat (fst w') = unat (fst w) - 8 * length vs" by blast
  have eq: "unat (fst w') + 8 * length vs = unat (fst w)" using w'(4) assms(2) by (simp add: room_def)
  have "holds_words (view (snd w')) (fst w) ws"
    using holds_pushed[OF assms(3)[unfolded holds_words_def] w'(2)] assms(4) by (simp add: holds_words_def length_words)
  moreover have "fst w' + of_nat (8 * length vs) = fst w"
    using eq by (rule add_unat_eq)
  ultimately have "holds_words (view (snd w')) (fst w') (vs @ ws)" using w'(3) by (simp only: holds_words_append simp_thms)
  with w' eq show ?thesis by blast
qed

lemma push_bytes_ok:
  assumes "room writable (length vs) w"
  shows "\<exists>w'. push_slice put 1 1 (\<lambda>v. [f v]) vs w = Inr w' \<and> pushed view writable (length vs) w w' \<and>
    holds (view (snd w')) (fst w') (map f vs) \<and> unat (fst w') = unat (fst w) - length vs"
proof -
  have "length vs = length vs * 1 + (unat (fst w) - length vs * 1) mod unat (1 :: usize)" by simp
  from push_slice_ok[of "\<lambda>v. [f v]" 1, OF _ this assms] show ?thesis by (simp add: concat_map_singleton)
qed

lemma push_str_ok:
  assumes "room writable (length s + 1) w"
  shows "\<exists>w'. push_str put s w = Inr w' \<and> pushed view writable (length s + 1) w w' \<and>
    unat (fst w') + length s + 1 = unat (fst w) \<and> holds (view (snd w')) (fst w') (map of_char s @ [0])"
proof -
  obtain w1 where w1: "push_slice put 1 1 (\<lambda>b. [b]) [0] w = Inr w1" "pushed view writable 1 w w1"
    "holds (view (snd w1)) (fst w1) [0]" "unat (fst w1) = unat (fst w) - 1"
    using push_bytes_ok[of "[0]" w "\<lambda>b. b"] room_le[OF assms, of 1] by auto
  have "room writable (length s) w1" using room_pushed[OF _ w1(2)] assms by (simp add: add.commute)
  then obtain w2 where w2: "push_slice put 1 1 (\<lambda>c. [of_char c]) s w1 = Inr w2" "pushed view writable (length s) w1 w2"
    "holds (view (snd w2)) (fst w2) (map of_char s)" "unat (fst w2) = unat (fst w1) - length s"
    using push_bytes_ok[of s w1 of_char] by auto
  have "length s < unat (fst w1)" using \<open>room writable (length s) w1\<close> by (simp add: room_def)
  with w2(4) have e: "unat (fst w2) + length s = unat (fst w1)" by simp
  have "unat (fst w1) + 1 \<le> 2 ^ 64" using unat_lt_64[of "fst w1"] by simp
  then have "holds (view (snd w2)) (fst w1) [0]" using holds_pushed[OF w1(3) w2(2)] by simp
  moreover have "fst w2 + of_nat (length s) = fst w1" using e by (rule add_unat_eq)
  ultimately have "holds (view (snd w2)) (fst w2) (map of_char s @ [0])" using w2(3) by (simp add: holds_append)
  moreover have "pushed view writable (length s + 1) w w2" using pushed_trans[OF w1(2) w2(2)] by (simp add: add.commute)
  moreover have "unat (fst w2) + length s + 1 = unat (fst w)" using e w1(4) assms by (simp add: room_def)
  ultimately show ?thesis using w1(1) w2(1) by (intro exI[of _ w2]) (simp add: push_str_def)
qed

lemma push_strs_ok:
  assumes "room writable (strings_size ss) w" "unat (fst w) \<le> hi"
  shows "\<exists>ps w'. push_strs put ss w = Inr (ps, w') \<and> pushed view writable (strings_size ss) w w' \<and>
    strings_at (view (snd w')) (fst w') hi ps ss"
  using assms
proof (induction ss arbitrary: w)
  case Nil
  then show ?case by (simp add: pushed_refl strings_at_def)
next
  case (Cons s ss)
  have "room writable (length s + 1) w" using room_le[OF Cons.prems(1)] by simp
  from push_str_ok[OF this] obtain w1 where w1: "push_str put s w = Inr w1" "pushed view writable (length s + 1) w w1"
    "unat (fst w1) + length s + 1 = unat (fst w)" "holds (view (snd w1)) (fst w1) (map of_char s @ [0])" by blast
  have "room writable (strings_size ss) w1" using room_pushed[OF _ w1(2)] Cons.prems(1) by simp
  moreover have "unat (fst w1) \<le> hi" using w1(3) Cons.prems(2) by simp
  ultimately obtain ps w' where w': "push_strs put ss w1 = Inr (ps, w')" "pushed view writable (strings_size ss) w1 w'"
    "strings_at (view (snd w')) (fst w') hi ps ss" using Cons.IH by blast
  have "unat (fst w1) + length (map of_char s @ [0 :: u8]) \<le> 2 ^ 64" using w1(3) unat_lt_64[of "fst w"] by simp
  then have "holds (view (snd w')) (fst w1) (map of_char s @ [0])" using holds_pushed[OF w1(4) w'(2)] by simp
  then have "strings_at (view (snd w')) (fst w') hi (fst w1 # ps) (s # ss)"
    using w'(2,3) w1(3) Cons.prems(2) by (simp add: strings_at_def pushed_def)
  moreover have "pushed view writable (strings_size (s # ss)) w w'" using pushed_trans[OF w1(2) w'(2)] by simp
  ultimately show ?case using w1(1) w'(1) by simp
qed

lemma push_words_stacked:
  assumes "stacked view writable (8 * length vs + n) w ws"
  shows "\<exists>w'. push_words put vs w = Inr w' \<and> pushed view writable (8 * length vs) w w' \<and>
    stacked view writable n w' (vs @ ws)"
proof -
  have inv: "unat (fst w) mod 8 = 0" "room writable (8 * length vs + n) w" "holds_words (view (snd w)) (fst w) ws"
    "unat (fst w) + 8 * length ws \<le> 2 ^ 64" using assms by (simp_all add: stacked_def)
  have "room writable (8 * length vs) w" using room_le[OF inv(2)] by simp
  from push_words_on[OF inv(1) this inv(3,4)] obtain w' where w': "push_words put vs w = Inr w'"
    "pushed view writable (8 * length vs) w w'" "holds_words (view (snd w')) (fst w') (vs @ ws)"
    "unat (fst w') + 8 * length vs = unat (fst w)" by blast
  moreover have "unat (fst w') mod 8 = 0" using w'(4) inv(1) mod_mult_self2[of "unat (fst w')" 8 "length vs"] by simp
  moreover have "room writable n w'" using room_pushed[OF inv(2) w'(2)] .
  ultimately show ?thesis using inv(4) by (simp add: stacked_def)
qed

lemma push_auxv_stacked:
  assumes "stacked view writable (16 * length es + n) w ws"
  shows "\<exists>w'. push_auxv put es w = Inr w' \<and> pushed view writable (16 * length es) w w' \<and>
    stacked view writable n w' (auxv_words (rev es) @ ws)"
  using assms
proof (induction es arbitrary: w ws)
  case Nil
  then show ?case by (simp add: push_auxv_def pushed_refl auxv_words_def)
next
  case (Cons e es)
  obtain t v where e: "e = (t, v)" by (cases e)
  have "stacked view writable (8 * length [ucast t, v] + (16 * length es + n)) w ws" using Cons.prems by (simp add: add.assoc)
  from push_words_stacked[OF this] obtain w1 where w1: "push_words put [ucast t, v] w = Inr w1"
    "pushed view writable 16 w w1" "stacked view writable (16 * length es + n) w1 (ucast t # v # ws)" by auto
  from Cons.IH[OF w1(3)] obtain w' where w': "push_auxv put es w1 = Inr w'" "pushed view writable (16 * length es) w1 w'"
    "stacked view writable n w' (auxv_words (rev es) @ ucast t # v # ws)" by blast
  have "pushed view writable (16 * length (e # es)) w w'" using pushed_trans[OF w1(2) w'(2)] by simp
  moreover have "push_auxv put (e # es) w = Inr w'" using w1(1) w'(1) by (simp add: push_auxv_def e)
  moreover have "auxv_words (rev (e # es)) @ ws = auxv_words (rev es) @ ucast t # v # ws" by (simp add: auxv_words_def e)
  ultimately show ?case using w'(3) by (intro exI[of _ w']) simp
qed

text \<open>The block of words that \<open>push_at\<close> pushes below the strings.\<close>

lemma push_block_ok:
  assumes "room writable (7 + block_size es envp argv) w"
  shows "\<exists>w'. bindE (push_words put [0, 0] w) (\<lambda>w. bindE (push_auxv put es w) (\<lambda>w.
      bindE (push_words put [0] w) (\<lambda>w. bindE (push_words put envp w) (\<lambda>w. bindE (push_words put [0] w) (\<lambda>w.
      bindE (push_words put argv w) (\<lambda>w. push_words put [of_nat (length argv)] w)))))) = Inr w' \<and>
    pushed view writable (7 + block_size es envp argv) w w' \<and>
    stacked view writable 0 w' (of_nat (length argv) # argv @ 0 # envp @ 0 # auxv_words (rev es) @ [0, 0])"
proof -
  define r where "r = unat (fst w) mod 8"
  have r: "r \<le> 7" "16 + r = 8 * length [0 :: usize, 0] + unat (fst w) mod 8" by (simp_all add: r_def)
  let ?n5 = "8 * length [of_nat (length argv) :: usize]" let ?n4 = "8 * length argv + ?n5"
  let ?n3 = "8 * length [0 :: usize] + ?n4" let ?n2 = "8 * length envp + ?n3" let ?n1 = "8 * length [0 :: usize] + ?n2"
  let ?n0 = "16 * length es + ?n1"
  have size: "block_size es envp argv = 16 + ?n0" by (simp add: block_size_def)
  have "room writable (16 + r) w" using room_le[OF assms] r(1) size by simp
  from push_words_ok[OF r(2) this] obtain w0 where w0: "push_words put [0, 0] w = Inr w0" "pushed view writable (16 + r) w w0"
    "holds_words (view (snd w0)) (fst w0) [0, 0]" "unat (fst w0) = unat (fst w) - (16 + r)" by blast
  have fits: "unat (fst w0) + 16 \<le> 2 ^ 64" using w0(4) \<open>room writable (16 + r) w\<close> unat_lt_64[of "fst w"] by (simp add: room_def)
  have "unat (fst w0) mod 8 = 0" using w0(4) \<open>room writable (16 + r) w\<close> by (simp add: r_def room_def mod_eq_0_iff_dvd dvd_minus_mod_16)
  moreover have "room writable ?n0 w0"
    using room_pushed[OF _ w0(2), of ?n0] room_le[OF assms, of "16 + r + ?n0"] r(1) size by simp
  ultimately have "stacked view writable ?n0 w0 [0, 0]" using w0(3) fits by (simp add: stacked_def)
  from push_auxv_stacked[OF this] obtain w1 where w1: "push_auxv put es w0 = Inr w1"
    "pushed view writable (16 * length es) w0 w1" "stacked view writable ?n1 w1 (auxv_words (rev es) @ [0, 0])" by blast
  from push_words_stacked[OF w1(3)] obtain w2 where w2: "push_words put [0] w1 = Inr w2"
    "pushed view writable 8 w1 w2" "stacked view writable ?n2 w2 ([0] @ auxv_words (rev es) @ [0, 0])" by auto
  from push_words_stacked[OF w2(3)] obtain w3 where w3: "push_words put envp w2 = Inr w3"
    "pushed view writable (8 * length envp) w2 w3" "stacked view writable ?n3 w3 (envp @ [0] @ auxv_words (rev es) @ [0, 0])" by blast
  from push_words_stacked[OF w3(3)] obtain w4 where w4: "push_words put [0] w3 = Inr w4"
    "pushed view writable 8 w3 w4" "stacked view writable ?n4 w4 ([0] @ envp @ [0] @ auxv_words (rev es) @ [0, 0])" by auto
  from push_words_stacked[OF w4(3)] obtain w5 where w5: "push_words put argv w4 = Inr w5"
    "pushed view writable (8 * length argv) w4 w5" "stacked view writable ?n5 w5 (argv @ [0] @ envp @ [0] @ auxv_words (rev es) @ [0, 0])" by blast
  then have "stacked view writable (?n5 + 0) w5 (argv @ [0] @ envp @ [0] @ auxv_words (rev es) @ [0, 0])" by simp
  from push_words_stacked[OF this] obtain w6 where w6: "push_words put [of_nat (length argv)] w5 = Inr w6"
    "pushed view writable 8 w5 w6" "stacked view writable 0 w6 (of_nat (length argv) # argv @ 0 # envp @ 0 # auxv_words (rev es) @ [0, 0])" by auto
  note p = pushed_trans[OF pushed_trans[OF pushed_trans[OF pushed_trans[OF pushed_trans[OF pushed_trans[OF w0(2) w1(2)] w2(2)] w3(2)] w4(2)] w5(2)] w6(2)]
  have "pushed view writable (7 + block_size es envp argv) w w6"
    by (rule pushed_le[OF p]) (use r(1) size in simp)
  with w0 w1 w2 w3 w4 w5 w6 show ?thesis by (intro exI[of _ w6]) simp
qed

lemma push_at_ok:
  assumes "args i \<noteq> []" "room writable (init_size i) (stack_top, m)"
  shows "\<exists>sp m' argv envp. push_at put i stack_top m = Inr (sp, m') \<and>
    pushed view writable (init_size i) (stack_top, m) (sp, m') \<and> unat sp mod 8 = 0 \<and> 0 < unat sp \<and>
    strings_at (view m') sp (unat stack_top) argv (args i) \<and> strings_at (view m') sp (unat stack_top) envp (envs i) \<and>
    holds_words (view m') sp (of_nat (length argv) # argv @ 0 # envp @ 0 # auxv_words (rev (auxv i)) @ [0, 0])"
proof -
  let ?w = "(stack_top, m)" let ?n = "args i ! 0" let ?hi = "unat stack_top"
  let ?block = "7 + 8 * (5 + 2 * length (auxv i) + length (envs i) + length (args i))"
  have size: "init_size i = length ?n + 1 + (strings_size (envs i) + (strings_size (args i) + ?block))"
    by (simp add: init_size_def)
  have "room writable (length ?n + 1) ?w" using room_le[OF assms(2)] size by simp
  from push_str_ok[OF this] obtain w0 where w0: "push_str put ?n ?w = Inr w0" "pushed view writable (length ?n + 1) ?w w0"
    by blast
  have r0: "room writable (strings_size (envs i) + (strings_size (args i) + ?block)) w0"
    using room_pushed[OF _ w0(2)] assms(2) size by metis
  have "room writable (strings_size (envs i)) w0" using room_le[OF r0] by simp
  moreover have "unat (fst w0) \<le> ?hi" using w0(2) by (simp add: pushed_def word_le_nat_alt)
  ultimately obtain envp w1 where w1: "push_strs put (envs i) w0 = Inr (envp, w1)"
    "pushed view writable (strings_size (envs i)) w0 w1" "strings_at (view (snd w1)) (fst w1) ?hi envp (envs i)" using push_strs_ok by blast
  have r1: "room writable (strings_size (args i) + ?block) w1" using room_pushed[OF r0 w1(2)] .
  have p1: "pushed view writable (length ?n + 1 + strings_size (envs i)) ?w w1" by (rule pushed_trans[OF w0(2) w1(2)])
  then have "unat (fst w1) \<le> ?hi" by (simp add: pushed_def word_le_nat_alt)
  moreover have "room writable (strings_size (args i)) w1" using room_le[OF r1] by simp
  ultimately obtain argv w2 where w2: "push_strs put (args i) w1 = Inr (argv, w2)"
    "pushed view writable (strings_size (args i)) w1 w2" "strings_at (view (snd w2)) (fst w2) ?hi argv (args i)" using push_strs_ok by blast
  have hi: "?hi \<le> 2 ^ 64" using unat_lt_64[of stack_top] by simp
  have len: "length envp = length (envs i)" "length argv = length (args i)"
    using w1(3) w2(3) by (auto simp: strings_at_def dest: list_all2_lengthD)
  have block: "7 + block_size (auxv i) envp argv = ?block" using len by (simp add: block_size_def)
  have "room writable ?block w2" using room_pushed[OF r1 w2(2)] .
  with push_block_ok[of "auxv i" envp argv w2] obtain w3 where w3:
    "bindE (push_words put [0, 0] w2) (\<lambda>w. bindE (push_auxv put (auxv i) w) (\<lambda>w.
      bindE (push_words put [0] w) (\<lambda>w. bindE (push_words put envp w) (\<lambda>w. bindE (push_words put [0] w) (\<lambda>w.
      bindE (push_words put argv w) (\<lambda>w. push_words put [of_nat (length argv)] w)))))) = Inr w3"
    "pushed view writable ?block w2 w3"
    "stacked view writable 0 w3 (of_nat (length argv) # argv @ 0 # envp @ 0 # auxv_words (rev (auxv i)) @ [0, 0])"
    unfolding block by blast
  have "strings_at (view (snd w3)) (fst w3) ?hi argv (args i)" by (rule strings_at_pushed[OF w2(3) w3(2) hi])
  moreover have "strings_at (view (snd w3)) (fst w3) ?hi envp (envs i)"
    by (rule strings_at_pushed[OF strings_at_pushed[OF w1(3) w2(2) hi] w3(2) hi])
  moreover have "pushed view writable (init_size i) ?w w3"
    using pushed_trans[OF pushed_trans[OF p1 w2(2)] w3(2)] size by (simp add: add.assoc)
  moreover have "push_at put i stack_top m = Inr w3"
    using assms(1) w0(1) w1(1) w2(1) w3(1) by (simp add: push_at_def)
  ultimately show ?thesis using w3(3)
    by (intro exI[of _ "fst w3"] exI[of _ "snd w3"] exI[of _ argv] exI[of _ envp]) (simp add: stacked_def room_def)
qed

end

section \<open>Reading the stack\<close>

lemma from_cstr_holds:
  assumes "holds mem p (map of_char s @ [0])" "CHR 0x00 \<notin> set s"
  shows "from_cstr mem p = Some s"
proof -
  have at: "mem (p + of_nat j) = of_char (s ! j)" if "j < length s" for j
    using assms(1) that by (simp add: holds_append) (simp add: holds_def)
  have "cstr_len mem p 0 = Some (length s)"
  proof (rule cstr_len_found)
    show "mem (p + of_nat j) \<noteq> 0" if "0 \<le> j" "j < length s" for j
      using at[OF that(2)] assms(2) nth_mem[OF that(2)] of_char_zero by metis
    show "mem (p + of_nat (length s)) = 0" using assms(1) by (simp add: holds_append) (simp add: holds_def)
  qed simp
  moreover have "map (\<lambda>b. char_of (unat b)) (user_bytes mem p (length s)) = s"
    by (rule nth_equalityI) (simp_all add: user_bytes_def at unat_of_char)
  ultimately show ?thesis by (simp add: from_cstr_def)
qed

lemma read_strings_at:
  assumes "strings_at mem lo hi ps ss" "\<forall>s \<in> set ss. CHR 0x00 \<notin> set s"
  shows "read_strings mem ps = Some ss"
  using assms unfolding strings_at_def
  by (induction rule: list_all2_induct) (auto simp: from_cstr_holds)

lemma strings_at_nonzero: "strings_at mem lo hi ps ss \<Longrightarrow> 0 < unat lo \<Longrightarrow> 0 \<notin> set ps"
  unfolding strings_at_def by (auto simp: in_set_conv_nth list_all2_conv_all_nth word_le_nat_alt)

lemma read_pointers_at:
  "holds_words mem a (ps @ 0 # ws) \<Longrightarrow> 0 \<notin> set ps \<Longrightarrow>
   \<exists>e. read_pointers mem a = Some (ps, e) \<and> holds_words mem e ws"
proof (induction ps arbitrary: a)
  case Nil
  then show ?case by (subst read_pointers.simps) (simp add: read_word_holds Let_def)
next
  case (Cons p ps)
  then obtain e where "read_pointers mem (a + 8) = Some (ps, e)" "holds_words mem e ws" by auto
  moreover from Cons.prems have "read_word mem a = p" "p \<noteq> 0" by (auto intro: read_word_holds)
  ultimately show ?case by (subst read_pointers.simps) (simp add: Let_def)
qed

lemma read_auxv_at:
  "holds_words mem a (auxv_words es @ [0, 0]) \<Longrightarrow> 0 \<notin> fst ` set es \<Longrightarrow>
   read_auxv mem a = Some (map (\<lambda>(t, v). (ucast t, v)) es)"
proof (induction es arbitrary: a)
  case Nil
  then show ?case by (subst read_auxv.simps) (simp add: auxv_words_def read_word_holds Let_def)
next
  case (Cons e es)
  obtain t v where e: "e = (t, v)" by (cases e)
  have w: "holds_words mem a (ucast t # v # auxv_words es @ [0, 0])" using Cons.prems(1) by (simp add: auxv_words_def e)
  then have "read_word mem a = ucast t" "read_word mem (a + 8) = v" by (auto intro: read_word_holds)
  moreover have "unat (ucast t :: usize) = unat t" using unsigned_less[of t, where ?'a = nat] by (simp add: unat_cast)
  then have "(ucast t :: usize) \<noteq> 0" using Cons.prems(2) e by (auto simp: unat_eq_zero)
  moreover have "holds_words mem (a + 16) (auxv_words es @ [0, 0])" using w by (simp add: add.assoc)
  then have "read_auxv mem (a + 16) = Some (map (\<lambda>(t, v). (ucast t, v)) es)" using Cons by (auto simp: e)
  ultimately show ?case by (subst read_auxv.simps) (simp add: Let_def e)
qed

section \<open>Stores to an address space\<close>

text \<open>A store of the kernel to user memory, with the page table of the address space active. A store to a
  page that is absent or read-only raises an exception, and the page fault handler for the kernel
  (\<^verbatim>\<open>memory/mod.rs\<close>) resolves none, so that the exception handler panics.\<close>

definition ms_put :: "('pt, 'b) mmu \<Rightarrow> ('pt, 'b) MemorySet put" where
  "ms_put M a b ms =
     (case pt_get_entry M a (table (space ms)) of
        Some e \<Rightarrow>
          if e_present M e \<and> \<not> e_read_only M e
          then Inr (ms\<lparr>space := (space ms)\<lparr>ram := (ram (space ms))(e_target M e + (a - page_down a) := b)\<rparr>\<rparr>)
          else Inl (Panicked ''EXCEPTION: Page Fault'')
      | None \<Rightarrow> Inl (Panicked ''EXCEPTION: Page Fault''))"

text \<open>The bytes of an address space, and the addresses that can be written without changing another: the
  page is present, writable, and no other page has its frame.\<close>

definition ms_view :: "('pt, 'b) mmu \<Rightarrow> ('pt \<Rightarrow> Page \<rightharpoonup> u64) \<Rightarrow> ('pt, 'b) MemorySet \<Rightarrow> usize \<Rightarrow> u8" where
  "ms_view M tbl ms a =
     (case tbl (table (space ms)) (of_addr a) of
        Some e \<Rightarrow> if e_present M e then ram (space ms) (e_target M e + (a - page_down a)) else 0
      | None \<Rightarrow> 0)"

definition ms_writable :: "('pt, 'b) mmu \<Rightarrow> ('pt \<Rightarrow> Page \<rightharpoonup> u64) \<Rightarrow> ('pt, 'b) MemorySet \<Rightarrow> usize \<Rightarrow> bool" where
  "ms_writable M tbl ms a \<longleftrightarrow>
     (\<exists>e. tbl (table (space ms)) (of_addr a) = Some e \<and> e_present M e \<and> \<not> e_read_only M e \<and>
        aligned (e_target M e) \<and>
        (\<forall>p e'. tbl (table (space ms)) p = Some e' \<and> e_present M e' \<and> p \<noteq> of_addr a \<longrightarrow>
           aligned (e_target M e') \<and> e_target M e' \<noteq> e_target M e))"

lemma page_offset: "unat (a - page_down a) = unat a mod 4096"
proof -
  have "page_down a \<le> a" by (simp add: word_le_nat_alt unat_page_down)
  then show ?thesis by (simp add: unat_sub_no_wrap unat_page_down minus_div_mult_eq_mod)
qed

lemma frame_offset:
  assumes "aligned t"
  shows "unat (t + (a - page_down a)) = unat t + unat a mod 4096"
proof (subst unat_add_no_wrap)
  have "unat t = unat t div 4096 * 4096" using assms by (simp add: aligned_def mult.commute dvd_eq_mod_eq_0)
  moreover have "unat t div 4096 < 2 ^ 52" using unat_lt_64[of t] by (simp add: less_mult_imp_div_less)
  ultimately show "unat t + unat (a - page_down a) < 2 ^ 64"
    using page_offset[of a] mod_less_divisor[of 4096 "unat a"] by simp
qed (simp add: page_offset)

lemma frame_inj:
  assumes "aligned t" "aligned t'" "t + (a - page_down a) = t' + (a' - page_down a')"
  shows "t = t' \<and> unat a mod 4096 = unat a' mod 4096"
proof -
  have eq: "unat t + unat a mod 4096 = unat t' + unat a' mod 4096"
    using arg_cong[OF assms(3), of unat] by (simp only: frame_offset[OF assms(1)] frame_offset[OF assms(2)])
  have "(unat t + unat a mod 4096) mod 4096 = unat a mod 4096" "(unat t' + unat a' mod 4096) mod 4096 = unat a' mod 4096"
    using assms(1,2) by (simp_all add: aligned_def mod_add_left_eq[of "unat t", symmetric] mod_add_left_eq[of "unat t'", symmetric])
  with eq show ?thesis by (simp add: word_unat_eq_iff)
qed

lemma same_page_inj: "of_addr a = of_addr a' \<Longrightarrow> unat a mod 4096 = unat a' mod 4096 \<Longrightarrow> a = a'"
proof -
  assume a: "of_addr a = of_addr a'" "unat a mod 4096 = unat a' mod 4096"
  have "unat a div 4096 = unat a' div 4096" using arg_cong[OF a(1), of "\<lambda>p. unat (number p)"] by (simp add: unat_of_addr)
  with a(2) show "a = a'" by (metis div_mult_mod_eq word_unat_eq_iff)
qed

context mmu_env
begin

lemma ms_put_ok:
  assumes "ms_writable M tbl ms a"
  shows "\<exists>ms'. ms_put M a b ms = Inr ms' \<and> ms_view M tbl ms' = (ms_view M tbl ms)(a := b) \<and>
    ms_writable M tbl ms' = ms_writable M tbl ms"
proof -
  let ?t = "tbl (table (space ms))"
  obtain e where e: "?t (of_addr a) = Some e" "e_present M e" "\<not> e_read_only M e" "aligned (e_target M e)"
    and other: "\<And>p e'. ?t p = Some e' \<Longrightarrow> e_present M e' \<Longrightarrow> p \<noteq> of_addr a \<Longrightarrow> aligned (e_target M e') \<and> e_target M e' \<noteq> e_target M e"
    using assms unfolding ms_writable_def by blast
  let ?ms = "ms\<lparr>space := (space ms)\<lparr>ram := (ram (space ms))(e_target M e + (a - page_down a) := b)\<rparr>\<rparr>"
  have "ms_put M a b ms = Inr ?ms" using e entry_of by (simp add: ms_put_def pt_get_entry_def)
  moreover have "ms_view M tbl ?ms x = ((ms_view M tbl ms)(a := b)) x" for x
  proof (cases "\<exists>e'. ?t (of_addr x) = Some e' \<and> e_present M e'")
    case True
    then obtain e' where e': "?t (of_addr x) = Some e'" "e_present M e'" by blast
    have "x = a" if "e_target M e' + (x - page_down x) = e_target M e + (a - page_down a)"
    proof (cases "of_addr x = of_addr a")
      case True
      with e e' have "e' = e" by simp
      with that frame_inj[OF e(4) e(4) that[unfolded \<open>e' = e\<close>]] True show ?thesis by (blast intro: same_page_inj)
    next
      case False
      with other[OF e'] frame_inj[OF _ e(4) that] show ?thesis by blast
    qed
    with e e' show ?thesis by (auto simp: ms_view_def)
  next
    case False
    with e have "x \<noteq> a" by auto
    with False show ?thesis by (auto simp: ms_view_def split: option.split)
  qed
  moreover have "ms_writable M tbl ?ms = ms_writable M tbl ms" by (simp add: ms_writable_def fun_eq_iff)
  ultimately show ?thesis by blast
qed

end

sublocale mmu_env \<subseteq> user_memory: byte_store "ms_put M" "ms_view M tbl" "ms_writable M tbl"
  by unfold_locales (rule ms_put_ok)

context mmu_env
begin

lemmas push_at_user_memory = user_memory.push_at_ok

end

text \<open>A plain memory, all of which can be written.\<close>

interpretation flat_memory: byte_store "\<lambda>a b mem. Inr (mem(a := b))" "\<lambda>mem. mem" "\<lambda>mem a. True"
  by unfold_locales simp

section \<open>The program finds its arguments\<close>

text \<open>The start code of a program finds what the program was started with. If the top of the stack lies in
  pages that are present, writable and not shared, and the strings contain no zero byte, then \<open>push_at\<close>
  succeeds; reading upwards from the stack pointer it returns one finds the number of arguments, the
  arguments, the environment and the auxiliary vector (in descending order of its keys). The stack pointer
  is a multiple of eight and no byte outside the pushed block has changed.\<close>
lemma init_stack_readable:
  assumes "mmu_laws M tbl" "args i \<noteq> []" "room (ms_writable M tbl) (init_size i) (stack_top, ms)"
    and "\<forall>s \<in> set (args i) \<union> set (envs i). CHR 0x00 \<notin> set s" "0 \<notin> fst ` set (auxv i)"
  shows "\<exists>sp ms'. push_at (ms_put M) i stack_top ms = Inr (sp, ms') \<and>
    read_init (ms_view M tbl ms') sp =
      Some (of_nat (length (args i)), args i, envs i, map (\<lambda>(t, v). (ucast t, v)) (rev (auxv i))) \<and>
    unat sp mod 8 = 0 \<and> sp \<le> stack_top \<and> unat stack_top \<le> unat sp + init_size i \<and>
    (\<forall>a. stack_top \<le> a \<or> a < sp \<longrightarrow> ms_view M tbl ms' a = ms_view M tbl ms a)"
proof -
  have env: "mmu_env M tbl" by unfold_locales (fact assms(1))
  obtain sp ms' argv envp where p: "push_at (ms_put M) i stack_top ms = Inr (sp, ms')"
    "pushed (ms_view M tbl) (ms_writable M tbl) (init_size i) (stack_top, ms) (sp, ms')" "unat sp mod 8 = 0" "0 < unat sp"
    and s: "strings_at (ms_view M tbl ms') sp (unat stack_top) argv (args i)"
      "strings_at (ms_view M tbl ms') sp (unat stack_top) envp (envs i)"
    and w: "holds_words (ms_view M tbl ms') sp
      (of_nat (length argv) # argv @ 0 # envp @ 0 # auxv_words (rev (auxv i)) @ [0, 0])"
    using mmu_env.push_at_user_memory[OF env assms(2,3)] by metis
  let ?v = "ms_view M tbl ms'"
  have n: "read_word ?v sp = of_nat (length argv)" using w by (simp add: read_word_holds)
  from w have "holds_words ?v (sp + 8) (argv @ 0 # envp @ 0 # auxv_words (rev (auxv i)) @ [0, 0])" by simp
  from read_pointers_at[OF this strings_at_nonzero[OF s(1) p(4)]] obtain a where
    a: "read_pointers ?v (sp + 8) = Some (argv, a)" "holds_words ?v a (envp @ 0 # auxv_words (rev (auxv i)) @ [0, 0])" by blast
  from read_pointers_at[OF a(2) strings_at_nonzero[OF s(2) p(4)]] obtain a' where
    a': "read_pointers ?v a = Some (envp, a')" "holds_words ?v a' (auxv_words (rev (auxv i)) @ [0, 0])" by blast
  have "read_auxv ?v a' = Some (map (\<lambda>(t, v). (ucast t, v)) (rev (auxv i)))"
    using read_auxv_at[OF a'(2)] assms(5) by simp
  moreover have "read_strings ?v argv = Some (args i)" "read_strings ?v envp = Some (envs i)"
    using read_strings_at[OF s(1)] read_strings_at[OF s(2)] assms(4) by simp_all
  moreover have "length argv = length (args i)" using s(1) by (auto simp: strings_at_def dest: list_all2_lengthD)
  ultimately have "read_init ?v sp =
      Some (of_nat (length (args i)), args i, envs i, map (\<lambda>(t, v). (ucast t, v)) (rev (auxv i)))"
    using n a(1) a'(1) by (simp add: read_init_def)
  with p show ?thesis by (auto simp: pushed_def)
qed


section \<open>What a push leaves alone\<close>

text \<open>Whatever a store of one byte keeps, pushing keeps.\<close>

locale keeps =
  fixes put :: "'m put" and Q :: "'m \<Rightarrow> 'x"
  assumes put_keeps: "put a b m = Inr m' \<Longrightarrow> Q m' = Q m"
begin

lemma copy_keeps: "copy_from_slice put ptr bs m = Inr m' \<Longrightarrow> Q m' = Q m"
  by (induction bs arbitrary: ptr m) (auto simp: bindE_eq_Inr dest: put_keeps)

lemma push_slice_keeps: "push_slice put sz al enc vs w = Inr w' \<Longrightarrow> Q (snd w') = Q (snd w)"
  by (auto simp: push_slice_def Let_def bindE_eq_Inr dest: copy_keeps)

lemma push_words_keeps: "push_words put vs w = Inr w' \<Longrightarrow> Q (snd w') = Q (snd w)"
  unfolding push_words_def by (rule push_slice_keeps)

lemma push_str_keeps: "push_str put s w = Inr w' \<Longrightarrow> Q (snd w') = Q (snd w)"
  by (auto simp: push_str_def bindE_eq_Inr dest!: push_slice_keeps)

lemma push_strs_keeps: "push_strs put ss w = Inr (ps, w') \<Longrightarrow> Q (snd w') = Q (snd w)"
proof (induction ss arbitrary: w ps)
  case (Cons s ss)
  then show ?case by (auto simp: bindE_eq_Inr dest: push_str_keeps)
qed simp

lemma push_auxv_keeps: "push_auxv put es w = Inr w' \<Longrightarrow> Q (snd w') = Q (snd w)"
  unfolding push_auxv_def
proof (induction es arbitrary: w)
  case (Cons e es)
  then show ?case by (cases e) (auto simp: bindE_eq_Inr dest: push_words_keeps)
qed simp

lemma push_at_keeps: "push_at put i stack_top m = Inr (sp, m') \<Longrightarrow> Q m' = Q m"
  unfolding push_at_def
  by (auto simp: bindE_eq_Inr dest!: push_words_keeps push_strs_keeps push_str_keeps push_auxv_keeps)

end

interpretation user_space: keeps "ms_put M" "\<lambda>ms. (areas ms, table (space ms), frames (space ms))"
  by unfold_locales (auto simp: ms_put_def split: option.splits if_splits)

end
