(* ===== verification/Elf_Load.thy ===== *)
theory Elf_Load
  imports Process_Abi
begin

text \<open>
  Loading a program (\<^verbatim>\<open>src/kernel/src/process/structs.rs\<close>, \<^verbatim>\<open>Thread::new_user_vm\<close> in
  \<^verbatim>\<open>src/kernel/src/process/thread.rs\<close>): the address space of a new process is made from the segments of an
  ELF file, those of its dynamic linker and a stack that holds its arguments.

  Parsing is done by the \<^verbatim>\<open>xmas_elf\<close> crate: \<open>elf_new\<close> stands for \<^verbatim>\<open>ElfFile::new\<close> and the record \<open>elf_file\<close> for
  what the kernel asks of a parsed file. The file behind a segment is read when a page is touched; its
  contents are those at the time of loading.
\<close>

section \<open>Parsed files\<close>

datatype ph_kind = PtLoad | PtInterp | PtPhdr | PtOther

record program_header =
  ph_type :: "string + ph_kind"
  virtual_addr :: u64
  mem_size :: u64
  ph_offset :: u64
  file_size :: u64
  is_write :: bool
  is_execute :: bool
  ph_data :: "string + u8 list option"

text \<open>\<open>ph_data\<close> is what \<^verbatim>\<open>get_data\<close> returns; \<open>Some\<close> for \<^verbatim>\<open>SegmentData::Undefined\<close>.\<close>

datatype elf_type = ElfExecutable | ElfSharedObject | ElfOtherType

record elf_file =
  e_type :: elf_type
  e_aarch64 :: bool
  entry_point :: u64
  ph_entry_size :: u16
  ph_count :: u16
  hdr_ph_offset :: u64
  program_iter :: "program_header list"

section \<open>The segments of a file\<close>

definition to_attr :: "program_header \<Rightarrow> MemoryAttr" where
  "to_attr ph =
     (let flags = attr_user MemoryAttr_default;
          flags = (if is_execute ph then attr_execute flags else flags)
      in if \<not> is_write ph then attr_readonly flags else flags)"

text \<open>\<open>INodeForMap\<close>\<close>

definition inode_for_map :: "('i, 's) inode_ops \<Rightarrow> 'i \<Rightarrow> 's \<Rightarrow> usize \<Rightarrow> nat \<Rightarrow> u8 list outcome" where
  "inode_for_map I i s off len =
     (case fst (i_read_at I i off len s) of Inr bs \<Rightarrow> Inr bs | Inl e \<Rightarrow> Inl (Panicked ''called unwrap on an Err value''))"

text \<open>One round of the loop of \<open>make_memory_set\<close>, on the end of the farthest segment so far and the address
  space.\<close>

definition seg_end :: "program_header \<Rightarrow> usize" where
  "seg_end ph = virtual_addr ph + mem_size ph"

definition load_segment ::
  "('pt, 'b) mmu \<Rightarrow> (usize \<Rightarrow> nat \<Rightarrow> u8 list outcome) \<Rightarrow> program_header \<Rightarrow> usize \<times> ('pt, 'b) MemorySet \<Rightarrow>
   (usize \<times> ('pt, 'b) MemorySet) outcome" where
  "load_segment M file ph fm =
     (if ph_type ph \<noteq> Inr PtLoad then Inr fm
      else bindE (ms_push M (virtual_addr ph) (seg_end ph) (to_attr ph)
             (FileMap file (virtual_addr ph) (ph_offset ph) (ph_offset ph + file_size ph)) ''elf'' (snd fm))
             (\<lambda>ms. Inr (if seg_end ph > fst fm then seg_end ph else fst fm, ms)))"

definition make_memory_set ::
  "('pt, 'b) mmu \<Rightarrow> (usize \<Rightarrow> nat \<Rightarrow> u8 list outcome) \<Rightarrow> elf_file \<Rightarrow> ('pt, 'b) MemorySet \<Rightarrow>
   (usize \<times> ('pt, 'b) MemorySet) outcome" where
  "make_memory_set M file elf ms =
     bindE (iterE (load_segment M file) (program_iter elf) (0, ms)) (\<lambda>(farthest, ms).
       Inr (start_address (of_addr (farthest + PAGE_SIZE)), ms))"

definition append_as_interpreter ::
  "('pt, 'b) mmu \<Rightarrow> (usize \<Rightarrow> nat \<Rightarrow> u8 list outcome) \<Rightarrow> elf_file \<Rightarrow> usize \<Rightarrow> ('pt, 'b) MemorySet \<Rightarrow>
   ('pt, 'b) MemorySet outcome" where
  "append_as_interpreter M file elf bias ms =
     iterE (\<lambda>ph ms.
         if ph_type ph \<noteq> Inr PtLoad then Inr ms
         else ms_push M (virtual_addr ph + bias) (virtual_addr ph + mem_size ph + bias) (to_attr ph)
                (FileMap file (virtual_addr ph + bias) (ph_offset ph) (ph_offset ph + file_size ph)) ''elf-interp'' ms)
       (program_iter elf) ms"

text \<open>\<^verbatim>\<open>str::from_utf8\<close>: the well-formed sequences of one to four bytes.\<close>

definition cont :: "u8 \<Rightarrow> bool" where
  "cont b \<longleftrightarrow> 0x80 \<le> b \<and> b \<le> 0xBF"

fun utf8 :: "u8 list \<Rightarrow> bool" where
  "utf8 [] = True"
| "utf8 (b # bs) =
     (if b \<le> 0x7F then utf8 bs
      else if 0xC2 \<le> b \<and> b \<le> 0xDF then (case bs of c # cs \<Rightarrow> cont c \<and> utf8 cs | _ \<Rightarrow> False)
      else if 0xE0 \<le> b \<and> b \<le> 0xEF then
        (case bs of c # d # cs \<Rightarrow> cont c \<and> cont d \<and> (b = 0xE0 \<longrightarrow> 0xA0 \<le> c) \<and> (b = 0xED \<longrightarrow> c \<le> 0x9F) \<and> utf8 cs
         | _ \<Rightarrow> False)
      else if 0xF0 \<le> b \<and> b \<le> 0xF4 then
        (case bs of c # d # e # cs \<Rightarrow>
            cont c \<and> cont d \<and> cont e \<and> (b = 0xF0 \<longrightarrow> 0x90 \<le> c) \<and> (b = 0xF4 \<longrightarrow> c \<le> 0x8F) \<and> utf8 cs
         | _ \<Rightarrow> False)
      else False)"

definition from_utf8 :: "u8 list \<Rightarrow> string option" where
  "from_utf8 bs = (if utf8 bs then Some (map (\<lambda>b. char_of (unat b)) bs) else None)"

definition get_interpreter :: "elf_file \<Rightarrow> (string + string) outcome" where
  "get_interpreter elf =
     (case find (\<lambda>ph. ph_type ph = Inr PtInterp) (program_iter elf) of
        None \<Rightarrow> Inr (Inl ''no interp header'')
      | Some header \<Rightarrow>
          (case ph_data header of
             Inl e \<Rightarrow> Inr (Inl e)
           | Inr None \<Rightarrow> Inl Unreachable
           | Inr (Some data) \<Rightarrow>
               (case from_utf8 (rev (dropWhile (\<lambda>b. b = 0) (rev data))) of
                  Some path \<Rightarrow> Inr (Inr path)
                | None \<Rightarrow> Inr (Inl ''failed to convert to utf8''))))"

definition get_phdr_vaddr :: "elf_file \<Rightarrow> u64 option" where
  "get_phdr_vaddr elf =
     (case find (\<lambda>ph. ph_type ph = Inr PtPhdr) (program_iter elf) of
        Some phdr \<Rightarrow> Some (virtual_addr phdr)
      | None \<Rightarrow>
          (case find (\<lambda>ph. ph_type ph = Inr PtLoad \<and> ph_offset ph = 0) (program_iter elf) of
             Some elf_addr \<Rightarrow> Some (virtual_addr elf_addr + hdr_ph_offset elf)
           | None \<Rightarrow> None))"

section \<open>A new user address space\<close>

definition USER_STACK_SIZE :: usize where "USER_STACK_SIZE = 1 * 1024 * 1024"
definition USER_STACK_OFFSET :: usize where "USER_STACK_OFFSET = 0x0000800000000000 - USER_STACK_SIZE"

text \<open>The first \<open>0x3c0\<close> bytes of a file; what is not read stays zero.\<close>

definition read_header :: "('i, 's) inode_ops \<Rightarrow> 'i \<Rightarrow> 's \<Rightarrow> (string + u8 list) \<times> 's" where
  "read_header I i s =
     (case i_read_at I i 0 0x3c0 s of
        (Inl e, s) \<Rightarrow> (Inl ''failed to read from INode'', s)
      | (Inr bs, s) \<Rightarrow> (Inr (take 0x3c0 (bs @ replicate 0x3c0 0)), s))"

definition initial_auxv :: "elf_file \<Rightarrow> (u8, usize) btree" where
  "initial_auxv elf =
     (let m = (case get_phdr_vaddr elf of Some v \<Rightarrow> bt_insert AT_PHDR v [] | None \<Rightarrow> []);
          m = bt_insert AT_PHENT (ucast (ph_entry_size elf)) m;
          m = bt_insert AT_PHNUM (ucast (ph_count elf)) m
      in bt_insert AT_PAGESZ PAGE_SIZE m)"

text \<open>The user stack: all but its top four pages are filled on demand; \<open>push_at\<close> writes the initial
  information with the address space active (\<^verbatim>\<open>vm.with\<close>).\<close>

definition user_stack ::
  "('pt, 'b) mmu \<Rightarrow> ProcInitInfo \<Rightarrow> ('pt, 'b) MemorySet \<Rightarrow> (usize \<times> ('pt, 'b) MemorySet) outcome" where
  "user_stack M info ms =
     (let ustack_buttom = USER_STACK_OFFSET;
          ustack_top = USER_STACK_OFFSET + USER_STACK_SIZE;
          attr = attr_execute (attr_user MemoryAttr_default)
      in bindE (ms_push M ustack_buttom (ustack_top - PAGE_SIZE * 4) attr Delay ''user_stack_delay'' ms) (\<lambda>ms.
         bindE (ms_push M (ustack_top - PAGE_SIZE * 4) ustack_top attr ByFrame ''user_stack'' ms) (\<lambda>ms.
           push_at (ms_put M) info ustack_top ms)))"

text \<open>\<open>new_user_vm\<close>: the entry point and the stack pointer, or an error; the address space and the file
  system after the call.\<close>

definition new_user_vm ::
  "('pt, 'b) mmu \<Rightarrow> ('i, 's) inode_ops \<Rightarrow> 'i outcome \<Rightarrow> (u8 list \<Rightarrow> string + elf_file) \<Rightarrow> 'i \<Rightarrow> string list \<Rightarrow>
   string list \<Rightarrow> ('pt, 'b) MemorySet \<Rightarrow> 's \<Rightarrow> ((string + usize \<times> usize) \<times> ('pt, 'b) MemorySet \<times> 's) outcome" where
  "new_user_vm M I root elf_new inode ar en ms s =
     (let (data, s) = read_header I inode s
      in case bindE data elf_new of
           Inl err \<Rightarrow> Inr (Inl err, ms, s)
         | Inr elf \<Rightarrow>
             if e_type elf \<noteq> ElfExecutable \<and> e_type elf \<noteq> ElfSharedObject
             then Inr (Inl ''ELF is not executable or shared object'', ms, s)
             else if \<not> e_aarch64 elf then Inr (Inl ''invalid ELF arch'', ms, s)
             else
               bindE (ms_clear M ms) (\<lambda>ms.
               bindE (make_memory_set M (inode_for_map I inode s) elf ms) (\<lambda>(bias, ms).
               bindE (get_interpreter elf) (\<lambda>interp.
                 case interp of
                   Inl _ \<Rightarrow>
                     bindE (user_stack M \<lparr>args = ar, envs = en, auxv = initial_auxv elf\<rparr> ms) (\<lambda>(ustack_top, ms).
                       Inr (Inr (entry_point elf, ustack_top), ms, s))
                 | Inr loader_path \<Rightarrow>
                     bindE root (\<lambda>rt.
                       case i_lookup_follow I rt loader_path FOLLOW_MAX_DEPTH s of
                         Inl _ \<Rightarrow> Inr (Inl ''interpreter not found'', ms, s)
                       | Inr interp_inode \<Rightarrow>
                           let (data, s) = read_header I interp_inode s
                           in case bindE data elf_new of
                                Inl err \<Rightarrow> Inr (Inl err, ms, s)
                              | Inr elf_interp \<Rightarrow>
                                  bindE (append_as_interpreter M (inode_for_map I interp_inode s) elf_interp bias ms) (\<lambda>ms.
                                  let auxv = bt_insert AT_BASE bias (bt_insert AT_ENTRY (entry_point elf) (initial_auxv elf))
                                  in bindE (user_stack M \<lparr>args = ar, envs = en, auxv = auxv\<rparr> ms) (\<lambda>(ustack_top, ms).
                                       Inr (Inr (entry_point elf_interp + bias, ustack_top), ms, s))))))))"

text \<open>\<^verbatim>\<open>Thread::new_user\<close>: the address space of the program in a new page table, then the process and its
  thread around it.\<close>

definition new_user_elf ::
  "('pt, 'b) mmu \<Rightarrow> ('i, 's) inode_ops \<Rightarrow> 'i outcome \<Rightarrow> (u8 list \<Rightarrow> string + elf_file) \<Rightarrow> context_ops \<Rightarrow> 'i \<Rightarrow> 'pt \<Rightarrow>
   'i \<Rightarrow> string \<Rightarrow> string list \<Rightarrow> string list \<Rightarrow> ('pt, 'b, 'i, 'w, 's) kernel \<Rightarrow>
   (Thread \<times> ('pt, 'b, 'i, 'w, 's) kernel) outcome" where
  "new_user_elf M I root elf_new C tty new_table inode path ar en k =
     bindE (new_user_vm M I root elf_new inode ar en
              (MemorySet_new \<lparr>table = new_table, frames = mem_frames k, ram = mem_ram k\<rparr>) (fs (fsys k)))
       (\<lambda>(r, ms, s).
         case r of
           Inl err \<Rightarrow> Inl (Panicked ''called unwrap on an Err value'')
         | Inr (entry_addr, ustack_top) \<Rightarrow>
             Inr (new_user C tty (areas ms) (table (space ms)) entry_addr ustack_top path
                    (k\<lparr>mem_frames := frames (space ms), mem_ram := ram (space ms), fsys := (fsys k)\<lparr>fs := s\<rparr>\<rparr>)))"

section \<open>Pages without a frame\<close>

text \<open>An address space none of whose pages is present, as one made of areas that are filled on demand.\<close>

definition absent :: "('pt, 'b) mmu \<Rightarrow> ('pt \<Rightarrow> Page \<rightharpoonup> u64) \<Rightarrow> ('pt, 'b) MemorySet \<Rightarrow> bool" where
  "absent M tbl ms \<longleftrightarrow> (\<forall>p e. tbl (table (space ms)) p = Some e \<longrightarrow> \<not> e_present M e)"

fun on_demand :: "MemoryHandler \<Rightarrow> bool" where
  "on_demand Delay = True"
| "on_demand (FileMap f m a b) = True"
| "on_demand h = False"

context mmu_env
begin

lemma on_demand_handler:
  assumes "on_demand h"
  shows "page_handler tbl (handler_map M h) (handler_unmap M h) (\<lambda>e. \<not> e_present M e)"
proof
  fix vm :: "('pt, 'b) vm" and a attr assume un: "tbl (table vm) (of_addr a) = None"
  obtain vm' e where "vm_map M a 0 (\<lambda>e. attr_apply M attr (e_set_present M False e)) vm = Inr vm'"
    "tbl (table vm') = (tbl (table vm))(of_addr a \<mapsto> attr_apply M attr (e_set_present M False e))" "ram vm' = ram vm"
    using vm_map_ok[OF un] by metis
  moreover have "\<not> e_present M (attr_apply M attr (e_set_present M False e))"
    by (simp add: attr_apply_flags(5)[OF flags] present_set)
  ultimately show "\<exists>vm' e. handler_map M h a attr vm = Inr vm' \<and> tbl (table vm') = (tbl (table vm))(of_addr a \<mapsto> e) \<and>
      \<not> e_present M e \<and> ram vm' = ram vm"
    using assms by (cases h) auto
next
  fix vm :: "('pt, 'b) vm" and a e assume "tbl (table vm) (of_addr a) = Some e"
  then show "\<exists>vm'. handler_unmap M h a vm = Inr vm' \<and> tbl (table vm') = (tbl (table vm))(of_addr a := None) \<and> ram vm' = ram vm"
    using assms handler_unmap_ok[of vm a e h] by (cases h) auto
qed

lemma area_pages_list:
  assumes "area_ok a"
  shows "set (page_list (range_of (start_addr a) (end_addr a))) = area_pages a"
    "distinct (page_list (range_of (start_addr a) (end_addr a)))" "p \<in> area_pages a \<Longrightarrow> of_addr (start_address p) = p"
  using page_list_between[of "start_addr a" "end_addr a"] assms by (simp_all add: area_ok_def area_pages_def)

lemma on_demand_absent:
  assumes "on_demand (area_handler a)" "area_ok a" "\<forall>p \<in> area_pages a. tbl (table (space ms)) p = None"
    and "area_map M a (space ms) = Inr (space ms')" "absent M tbl ms"
  shows "absent M tbl ms'"
proof -
  note pages = area_pages_list[OF assms(2)]
  have "\<And>p. p \<in> set (page_list (range_of (start_addr a) (end_addr a))) \<Longrightarrow>
      of_addr (start_address p) = p \<and> tbl (table (space ms)) p = None" using pages assms(3) by simp
  from page_handler.map_pages[OF on_demand_handler[OF assms(1)] pages(2) this, of "area_attr a"]
  have "\<forall>p. p \<notin> area_pages a \<longrightarrow> tbl (table (space ms')) p = tbl (table (space ms)) p"
    "\<forall>p \<in> area_pages a. \<exists>e. tbl (table (space ms')) p = Some e \<and> \<not> e_present M e"
    using assms(4) by (auto simp: area_map_def pages(1))
  then show ?thesis using assms(5) unfolding absent_def by (metis option.inject)
qed

end

section \<open>Segments\<close>

definition loads :: "elf_file \<Rightarrow> program_header list" where
  "loads elf = filter (\<lambda>ph. ph_type ph = Inr PtLoad) (program_iter elf)"

definition seg_contains :: "program_header \<Rightarrow> usize \<Rightarrow> bool" where
  "seg_contains ph x \<longleftrightarrow> virtual_addr ph < seg_end ph \<and> page_down (virtual_addr ph) \<le> x \<and> x < page_up (seg_end ph)"

text \<open>Segments that lie below the stack and do not share a page.\<close>

definition segments_ok :: "program_header list \<Rightarrow> bool" where
  "segments_ok phs \<longleftrightarrow>
     (\<forall>ph \<in> set phs. seg_end ph \<le> USER_STACK_OFFSET) \<and>
     sorted_wrt (\<lambda>p q. \<forall>x. \<not> (seg_contains p x \<and> seg_contains q x)) phs"

definition seg_at ::
  "(usize \<Rightarrow> nat \<Rightarrow> u8 list outcome) \<Rightarrow> program_header list \<Rightarrow> usize \<Rightarrow> (MemoryAttr \<times> MemoryHandler \<times> string) option" where
  "seg_at file phs x =
     map_option (\<lambda>ph. (\<lparr>user = True, readonly = \<not> is_write ph, execute = is_execute ph, mmio = 0\<rparr>, FileMap file (virtual_addr ph) (ph_offset ph) (ph_offset ph + file_size ph), ''elf''))
       (find (\<lambda>ph. seg_contains ph x) phs)"

lemma to_attr_exact: "to_attr ph = \<lparr>user = True, readonly = \<not> is_write ph, execute = is_execute ph, mmio = 0\<rparr>"
  by (simp add: to_attr_def Let_def MemoryAttr_default_def attr_user_def attr_execute_def attr_readonly_def)

lemma seg_at_simps [simp]:
  "seg_at file [] x = None"
  "seg_at file (ph # phs) x =
     (if seg_contains ph x
      then Some (to_attr ph, FileMap file (virtual_addr ph) (ph_offset ph) (ph_offset ph + file_size ph), ''elf'')
      else seg_at file phs x)"
  by (simp_all add: seg_at_def to_attr_exact)

lemma stack_offset: "USER_STACK_OFFSET = 0x7FFFFFF00000"
  by (simp add: USER_STACK_OFFSET_def USER_STACK_SIZE_def)

lemma seg_below_stack:
  assumes "seg_end ph \<le> USER_STACK_OFFSET" "seg_contains ph x"
  shows "x < USER_STACK_OFFSET"
proof -
  have "unat (seg_end ph) \<le> 0x7FFFFFF00000" using assms(1) by (simp add: word_le_nat_alt stack_offset)
  then have "(unat (seg_end ph) + 4095) div 4096 \<le> (0x7FFFFFF00000 + 4095) div 4096" "unat (seg_end ph) + 4095 < 2 ^ 64"
    by (auto intro!: div_le_mono)
  then have "unat (page_up (seg_end ph)) \<le> 0x7FFFFFF00000" by (simp add: unat_page_up)
  then show ?thesis using assms(2) by (simp add: seg_contains_def word_less_nat_alt stack_offset)
qed

context mmu_env
begin

lemma load_segment_ok:
  assumes "ph_type ph = Inr PtLoad" "seg_end ph \<le> USER_STACK_OFFSET" "ms_ok M tbl ms" "absent M tbl ms"
    and "\<forall>x. seg_contains ph x \<longrightarrow> area_at (areas ms) x = None"
  shows "\<exists>f ms'. load_segment M file ph (far, ms) = Inr (f, ms') \<and> ms_ok M tbl ms' \<and> absent M tbl ms' \<and>
    (\<forall>x. area_at (areas ms') x = (case seg_at file [ph] x of Some d \<Rightarrow> Some d | None \<Rightarrow> area_at (areas ms) x))"
proof (cases "virtual_addr ph < seg_end ph")
  case False
  then have "ms_push M (virtual_addr ph) (seg_end ph) at h n ms = Inr ms" for at h n by (simp add: ms_push_def not_less)
  with False assms show ?thesis by (simp add: load_segment_def seg_at_def seg_contains_def)
next
  case True
  let ?h = "FileMap file (virtual_addr ph) (ph_offset ph) (ph_offset ph + file_size ph)"
  let ?a = "\<lparr>start_addr = page_down (virtual_addr ph), end_addr = page_up (seg_end ph), area_attr = to_attr ph,
    area_handler = ?h, area_name = ''elf''\<rparr>"
  have u: "unat (seg_end ph) + 4095 < 2 ^ 64" using assms(2) by (simp add: word_le_nat_alt stack_offset)
  have f: "\<forall>x. page_down (virtual_addr ph) \<le> x \<and> x < page_up (seg_end ph) \<longrightarrow> area_at (areas ms) x = None"
    using assms(5) True by (simp add: seg_contains_def)
  from ms_push_free[OF assms(3) True u f, of "to_attr ph" ?h "''elf''"] obtain ms' where
    ms': "ms_push M (virtual_addr ph) (seg_end ph) (to_attr ph) ?h ''elf'' ms = Inr ms'" "ms_ok M tbl ms'"
    "\<forall>x. area_at (areas ms') x = (if page_down (virtual_addr ph) \<le> x \<and> x < page_up (seg_end ph)
       then Some (to_attr ph, ?h, ''elf'') else area_at (areas ms) x)"
    "area_ok ?a" "\<forall>p \<in> area_pages ?a. tbl (table (space ms)) p = None" "area_map M ?a (space ms) = Inr (space ms')" by blast
  have "absent M tbl ms'" by (rule on_demand_absent[OF _ ms'(4,5,6) assms(4)]) simp
  then show ?thesis using ms'(1-3) assms(1) True by (auto simp: load_segment_def seg_at_def seg_contains_def to_attr_exact)
qed

lemma load_segments_ok:
  assumes "segments_ok (filter (\<lambda>ph. ph_type ph = Inr PtLoad) phs)" "ms_ok M tbl ms" "absent M tbl ms"
    and "\<forall>ph \<in> set phs. ph_type ph = Inr PtLoad \<longrightarrow> (\<forall>x. seg_contains ph x \<longrightarrow> area_at (areas ms) x = None)"
  shows "\<exists>f ms'. iterE (load_segment M file) phs (far, ms) = Inr (f, ms') \<and> ms_ok M tbl ms' \<and> absent M tbl ms' \<and>
    (\<forall>x. area_at (areas ms') x =
       (case seg_at file (filter (\<lambda>ph. ph_type ph = Inr PtLoad) phs) x of Some d \<Rightarrow> Some d | None \<Rightarrow> area_at (areas ms) x))"
  using assms
proof (induction phs arbitrary: far ms)
  case Nil
  then show ?case by (simp add: seg_at_def)
next
  case (Cons ph phs)
  let ?l = "filter (\<lambda>ph. ph_type ph = Inr PtLoad)"
  show ?case
  proof (cases "ph_type ph = Inr PtLoad")
    case False
    then have "load_segment M file ph (far, ms) = Inr (far, ms)" by (simp add: load_segment_def)
    with False Cons.IH[of ms far] Cons.prems show ?thesis by auto
  next
    case True
    have seg: "seg_end ph \<le> USER_STACK_OFFSET" "segments_ok (?l phs)"
      and dis: "\<And>q x. q \<in> set (?l phs) \<Longrightarrow> seg_contains ph x \<Longrightarrow> \<not> seg_contains q x"
      using Cons.prems(1) True by (auto simp: segments_ok_def)
    have "\<forall>x. seg_contains ph x \<longrightarrow> area_at (areas ms) x = None" using Cons.prems(4) True by simp
    from load_segment_ok[OF True seg(1) Cons.prems(2,3) this] obtain f ms1 where
      ms1: "load_segment M file ph (far, ms) = Inr (f, ms1)" "ms_ok M tbl ms1" "absent M tbl ms1"
      "\<forall>x. area_at (areas ms1) x = (case seg_at file [ph] x of Some d \<Rightarrow> Some d | None \<Rightarrow> area_at (areas ms) x)" by blast
    have "\<forall>q \<in> set phs. ph_type q = Inr PtLoad \<longrightarrow> (\<forall>x. seg_contains q x \<longrightarrow> area_at (areas ms1) x = None)"
      using ms1(4) dis Cons.prems(4) by (auto simp: seg_at_def)
    from Cons.IH[OF seg(2) ms1(2,3) this, of f] obtain f' ms' where
      ms': "iterE (load_segment M file) phs (f, ms1) = Inr (f', ms')" "ms_ok M tbl ms'" "absent M tbl ms'"
      "\<forall>x. area_at (areas ms') x = (case seg_at file (?l phs) x of Some d \<Rightarrow> Some d | None \<Rightarrow> area_at (areas ms1) x)" by blast
    have "area_at (areas ms') x = (case seg_at file (?l (ph # phs)) x of Some d \<Rightarrow> Some d | None \<Rightarrow> area_at (areas ms) x)" for x
    proof (cases "seg_contains ph x")
      case True
      then have "seg_at file (?l phs) x = None" using dis by (auto simp: seg_at_def find_None_iff)
      with True ms'(4) ms1(4) show ?thesis using \<open>ph_type ph = Inr PtLoad\<close> by simp
    next
      case False
      then have "area_at (areas ms1) x = area_at (areas ms) x" using ms1(4)[rule_format, of x] by simp
      with False ms'(4)[rule_format, of x] show ?thesis using \<open>ph_type ph = Inr PtLoad\<close> by (simp split: option.splits)
    qed
    with ms1(1) ms' show ?thesis by auto
  qed
qed

end

section \<open>The frames of the stack\<close>

text \<open>The next \<open>n\<close> frames the allocator hands out; four in a row are distinct.\<close>

primrec next_frames :: "('pt, 'b) mmu \<Rightarrow> nat \<Rightarrow> 'b \<Rightarrow> usize option list" where
  "next_frames M 0 fa = []"
| "next_frames M (Suc n) fa = fst (buddy_alloc M 1 fa) # next_frames M n (snd (buddy_alloc M 1 fa))"

definition alloc_distinct :: "('pt, 'b) mmu \<Rightarrow> bool" where
  "alloc_distinct M \<longleftrightarrow> (\<forall>fa. distinct (next_frames M 4 fa))"

lemma next_frames_length [simp]: "length (next_frames M n fa) = n"
  by (induction n arbitrary: fa) simp_all

text \<open>A page with frame \<open>i\<close> of the allocator.\<close>

definition framed :: "('pt, 'b) mmu \<Rightarrow> MemoryAttr \<Rightarrow> usize option \<Rightarrow> u64 option \<Rightarrow> bool" where
  "framed M attr f e \<longleftrightarrow>
     (\<exists>i v. f = Some i \<and> unat i < 2 ^ 35 \<and> e = Some v \<and> e_present M v \<and> e_read_only M v = readonly attr \<and>
        e_target M v = i * PAGE_SIZE + MEMORY_OFFSET)"

context mmu_env
begin

lemma byframe_map_framed:
  assumes "tbl (table vm) (of_addr a) = None"
  shows "\<exists>vm' e. handler_map M ByFrame a attr vm = Inr vm' \<and> tbl (table vm') = (tbl (table vm))(of_addr a \<mapsto> e) \<and>
    framed M attr (fst (buddy_alloc M 1 (frames vm))) (Some e) \<and> frames vm' = snd (buddy_alloc M 1 (frames vm)) \<and> ram vm' = ram vm"
proof -
  obtain i fa where i: "buddy_alloc M 1 (frames vm) = (Some i, fa)" "unat i < 2 ^ 35"
    using laws unfolding mmu_laws_def frames_available_def by (metis prod.collapse)
  let ?f = "i * PAGE_SIZE + MEMORY_OFFSET"
  have "alloc_page M ''failed to allocate frame'' vm = Inr (?f, vm\<lparr>frames := fa\<rparr>)"
    using i by (simp add: alloc_page_def frame_alloc_def)
  moreover note f = page_frame_range[OF i(2)]
  obtain vm' e where "vm_map M a ?f (attr_apply M attr) (vm\<lparr>frames := fa\<rparr>) = Inr vm'"
    "tbl (table vm') = (tbl (table vm))(of_addr a \<mapsto> attr_apply M attr e)" "e_present M e" "pte_addr M e = ?f"
    "ram vm' = ram vm" "frames vm' = fa"
    using vm_map_ok[of "vm\<lparr>frames := fa\<rparr>" a ?f "attr_apply M attr"] assms f by auto
  ultimately show ?thesis
    using i by (intro exI[of _ vm'] exI[of _ "attr_apply M attr e"])
      (simp add: framed_def attr_apply_flags[OF flags] e_target_def)
qed

lemma byframe_pages:
  assumes "distinct ps" "\<And>p. p \<in> set ps \<Longrightarrow> of_addr (start_address p) = p \<and> tbl (table vm) p = None"
    and "iterE (\<lambda>p. handler_map M ByFrame (start_address p) attr) ps vm = Inr vm'"
  shows "(\<forall>p. p \<notin> set ps \<longrightarrow> tbl (table vm') p = tbl (table vm) p) \<and>
    list_all2 (\<lambda>p f. framed M attr f (tbl (table vm') p)) ps (next_frames M (length ps) (frames vm))"
  using assms
proof (induction ps arbitrary: vm)
  case (Cons p ps)
  then have p: "of_addr (start_address p) = p" "tbl (table vm) p = None" "p \<notin> set ps" by auto
  obtain vm1 e where vm1: "handler_map M ByFrame (start_address p) attr vm = Inr vm1" "tbl (table vm1) = (tbl (table vm))(p \<mapsto> e)"
    "framed M attr (fst (buddy_alloc M 1 (frames vm))) (Some e)" "frames vm1 = snd (buddy_alloc M 1 (frames vm))"
    using byframe_map_framed[of vm "start_address p" attr] p by auto
  have q: "\<And>q. q \<in> set ps \<Longrightarrow> of_addr (start_address q) = q \<and> tbl (table vm1) q = None" using Cons.prems(2) p(3) vm1(2) by auto
  have it: "iterE (\<lambda>p. handler_map M ByFrame (start_address p) attr) ps vm1 = Inr vm'"
    using Cons.prems(3) unfolding iterE.simps vm1(1) bindE_simps .
  have "distinct ps" using Cons.prems(1) by simp
  from Cons.IH[OF this q it] have IH: "\<forall>q. q \<notin> set ps \<longrightarrow> tbl (table vm') q = tbl (table vm1) q"
    "list_all2 (\<lambda>p f. framed M attr f (tbl (table vm') p)) ps (next_frames M (length ps) (frames vm1))" by blast+
  then have "tbl (table vm') p = Some e" using p(3) vm1(2) by simp
  with IH vm1 show ?case by auto
qed simp

end

lemma framed_writable:
  assumes "list_all2 (\<lambda>p f. framed M attr f (tbl (table (space ms)) p)) ps frs" "distinct frs" "\<not> readonly attr"
    and "\<forall>p e. p \<notin> set ps \<and> tbl (table (space ms)) p = Some e \<longrightarrow> \<not> e_present M e" "of_addr a \<in> set ps"
  shows "ms_writable M tbl ms a"
proof -
  let ?t = "tbl (table (space ms))"
  have al: "aligned (i * PAGE_SIZE + MEMORY_OFFSET)" if "unat i < 2 ^ 35" for i
    using page_frame_range(1)[OF that] aligned_page_down by (metis start_address_of_addr)
  obtain j where j: "j < length ps" "ps ! j = of_addr a" using assms(5) by (auto simp: in_set_conv_nth)
  have len: "length frs = length ps" using assms(1) by (auto dest: list_all2_lengthD)
  have fr: "framed M attr (frs ! k) (?t (ps ! k))" if "k < length ps" for k
    using assms(1) that by (simp add: list_all2_conv_all_nth)
  obtain i e where e: "frs ! j = Some i" "unat i < 2 ^ 35" "?t (of_addr a) = Some e" "e_present M e" "\<not> e_read_only M e"
    "e_target M e = i * PAGE_SIZE + MEMORY_OFFSET" using fr[OF j(1)] j(2) assms(3) by (auto simp: framed_def)
  have "aligned (e_target M e') \<and> e_target M e' \<noteq> e_target M e" if p: "?t p = Some e'" "e_present M e'" "p \<noteq> of_addr a" for p e'
  proof -
    have "p \<in> set ps" using assms(4) p(1,2) by blast
    then obtain k where k: "k < length ps" "ps ! k = p" by (auto simp: in_set_conv_nth)
    obtain i' where i': "frs ! k = Some i'" "unat i' < 2 ^ 35" "e_target M e' = i' * PAGE_SIZE + MEMORY_OFFSET"
      using fr[OF k(1)] k(2) p(1) by (auto simp: framed_def)
    have "k \<noteq> j" using k(2) j(2) p(3) by auto
    then have "i' \<noteq> i" using assms(2) k(1) j(1) len i'(1) e(1) by (metis nth_eq_iff_index_eq option.inject)
    then have "unat (e_target M e') \<noteq> unat (e_target M e)"
      unfolding i'(3) e(6) page_frame_range(2)[OF i'(2)] page_frame_range(2)[OF e(2)] by (simp add: word_unat_eq_iff)
    then show ?thesis using al[OF i'(2)] i'(3) by auto
  qed
  with e al[OF e(2)] show ?thesis unfolding ms_writable_def by metis
qed

section \<open>The stack of a new program\<close>

definition stack_top :: usize where "stack_top = USER_STACK_OFFSET + USER_STACK_SIZE"
definition stack_attr :: MemoryAttr where "stack_attr = attr_execute (attr_user MemoryAttr_default)"

lemma stack_bounds: "stack_top = 0x800000000000" "stack_top - PAGE_SIZE * 4 = 0x7FFFFFFFC000"
  by (simp_all add: stack_top_def stack_offset USER_STACK_SIZE_def PAGE_SIZE_def)

lemma stack_aligned: "aligned USER_STACK_OFFSET" "aligned 0x7FFFFFFFC000" "aligned stack_top"
  by (simp_all add: aligned_def stack_offset stack_bounds)

lemma top_page:
  assumes "0x7FFFFFFFC000 \<le> unat a" "unat a < 0x800000000000"
  shows "of_addr a \<in> pages_between 0x7FFFFFFFC000 stack_top"
proof -
  have "0x7FFFFFFFC000 div 4096 \<le> unat a div 4096" "unat a div 4096 \<le> (0x800000000000 - 1) div 4096"
    using assms by (intro div_le_mono; simp)+
  then show ?thesis by (simp add: pages_between_def unat_of_addr stack_bounds)
qed

lemma top_pages_count: "length (page_list (range_of 0x7FFFFFFFC000 stack_top)) = 4"
  by (simp add: page_list_range_of stack_bounds)

context mmu_env
begin

lemma stack_area_push:
  fixes h name
  assumes "ms_ok M tbl ms" "s < e" "aligned s" "aligned e" "unat e \<le> 0x800000000000"
    and "\<forall>x. s \<le> x \<and> x < e \<longrightarrow> area_at (areas ms) x = None"
  defines "a \<equiv> \<lparr>start_addr = s, end_addr = e, area_attr = stack_attr, area_handler = h, area_name = name\<rparr>"
  shows "\<exists>ms'. ms_push M s e stack_attr h name ms = Inr ms' \<and> ms_ok M tbl ms' \<and>
    (\<forall>x. area_at (areas ms') x = (if s \<le> x \<and> x < e then Some (stack_attr, h, name) else area_at (areas ms) x)) \<and>
    area_ok a \<and> (\<forall>p \<in> area_pages a. tbl (table (space ms)) p = None) \<and> area_map M a (space ms) = Inr (space ms')"
proof -
  have "unat e + 4095 < 2 ^ 64" using assms(5) by simp
  moreover have r: "page_down s = s" "page_up e = e" using aligned_page_down_id[OF assms(3)] page_up_aligned[OF assms(4)] by simp_all
  ultimately show ?thesis using ms_push_free[OF assms(1,2), of stack_attr h name] assms(6) unfolding a_def r by blast
qed

lemma user_stack_ready:
  assumes "alloc_distinct M" "ms_ok M tbl ms" "absent M tbl ms" "init_size info \<le> 0x4000"
    and "\<forall>x. USER_STACK_OFFSET \<le> x \<longrightarrow> area_at (areas ms) x = None"
  shows "\<exists>ms'. user_stack M info ms = push_at (ms_put M) info stack_top ms' \<and> ms_ok M tbl ms' \<and>
    room (ms_writable M tbl) (init_size info) (stack_top, ms') \<and>
    (\<forall>x. area_at (areas ms') x =
       (if 0x7FFFFFFFC000 \<le> x \<and> x < stack_top then Some (stack_attr, ByFrame, ''user_stack'')
        else if USER_STACK_OFFSET \<le> x \<and> x < 0x7FFFFFFFC000 then Some (stack_attr, Delay, ''user_stack_delay'')
        else area_at (areas ms) x))"
proof -
  let ?m = "0x7FFFFFFFC000 :: usize"
  let ?a = "\<lparr>start_addr = USER_STACK_OFFSET, end_addr = ?m, area_attr = stack_attr, area_handler = Delay, area_name = ''user_stack_delay''\<rparr>"
  let ?b = "\<lparr>start_addr = ?m, end_addr = stack_top, area_attr = stack_attr, area_handler = ByFrame, area_name = ''user_stack''\<rparr>"
  have lt: "USER_STACK_OFFSET < ?m" "?m < stack_top" by (simp_all add: stack_offset stack_bounds)
  obtain ms1 where ms1: "ms_push M USER_STACK_OFFSET ?m stack_attr Delay ''user_stack_delay'' ms = Inr ms1" "ms_ok M tbl ms1"
    "\<forall>x. area_at (areas ms1) x = (if USER_STACK_OFFSET \<le> x \<and> x < ?m then Some (stack_attr, Delay, ''user_stack_delay'') else area_at (areas ms) x)"
    "area_ok ?a" "\<forall>p \<in> area_pages ?a. tbl (table (space ms)) p = None" "area_map M ?a (space ms) = Inr (space ms1)"
    using stack_area_push[OF assms(2) lt(1) stack_aligned(1,2), of Delay "''user_stack_delay''"] assms(5) by auto
  have ab1: "absent M tbl ms1" by (rule on_demand_absent[OF _ ms1(4,5,6) assms(3)]) simp
  have "\<forall>x. ?m \<le> x \<and> x < stack_top \<longrightarrow> area_at (areas ms1) x = None"
    using ms1(3) assms(5) lt(1) by auto
  then obtain ms2 where ms2: "ms_push M ?m stack_top stack_attr ByFrame ''user_stack'' ms1 = Inr ms2" "ms_ok M tbl ms2"
    "\<forall>x. area_at (areas ms2) x = (if ?m \<le> x \<and> x < stack_top then Some (stack_attr, ByFrame, ''user_stack'') else area_at (areas ms1) x)"
    "area_ok ?b" "\<forall>p \<in> area_pages ?b. tbl (table (space ms1)) p = None" "area_map M ?b (space ms1) = Inr (space ms2)"
    using stack_area_push[OF ms1(2) lt(2) stack_aligned(2,3), of ByFrame "''user_stack''"] by (auto simp: stack_bounds)
  let ?ps = "page_list (range_of ?m stack_top)"
  have ps: "set ?ps = pages_between ?m stack_top" "distinct ?ps" "\<And>p. p \<in> set ?ps \<Longrightarrow> of_addr (start_address p) = p \<and> tbl (table (space ms1)) p = None"
    using area_pages_list[OF ms2(4)] ms2(5) by (simp_all add: area_pages_def)
  from byframe_pages[OF ps(2,3)] ms2(6) have fr: "\<forall>p. p \<notin> set ?ps \<longrightarrow> tbl (table (space ms2)) p = tbl (table (space ms1)) p"
    "list_all2 (\<lambda>p f. framed M stack_attr f (tbl (table (space ms2)) p)) ?ps (next_frames M 4 (frames (space ms1)))"
    by (simp_all add: area_map_def top_pages_count)
  have "ms_writable M tbl ms2 a" if "?m \<le> a" "a < stack_top" for a
  proof (rule framed_writable[where tbl = tbl and ms = ms2, OF fr(2)])
    show "distinct (next_frames M 4 (frames (space ms1)))" using assms(1) by (simp add: alloc_distinct_def)
    show "\<not> readonly stack_attr" by (simp add: stack_attr_def attr_execute_def attr_user_def MemoryAttr_default_def)
    show "\<forall>p e. p \<notin> set ?ps \<and> tbl (table (space ms2)) p = Some e \<longrightarrow> \<not> e_present M e"
      using fr(1) ab1 unfolding absent_def by metis
    show "of_addr a \<in> set ?ps" using that top_page[of a] ps(1) by (simp add: word_le_nat_alt word_less_nat_alt stack_bounds)
  qed
  then have "room (ms_writable M tbl) (init_size info) (stack_top, ms2)"
    using assms(4) by (auto simp: room_def stack_bounds word_le_nat_alt)
  moreover have "user_stack M info ms = push_at (ms_put M) info stack_top ms2"
    unfolding user_stack_def Let_def stack_top_def[symmetric] stack_attr_def[symmetric] stack_bounds(2)
    using ms1(1) ms2(1) by simp
  ultimately show ?thesis using ms2(2,3) ms1(3) by auto
qed

end

section \<open>A program ready to run\<close>

lemma initial_auxv_keys: "0 \<notin> fst ` set (initial_auxv elf)"
  by (auto simp: initial_auxv_def Let_def bt_insert_keys
      split: option.splits)

text \<open>C2: A static program is made ready to run. If its load segments lie below the stack and share no page, and
  its arguments and environment fit in the top four pages of the stack, then \<open>new_user_vm\<close> succeeds and
  returns the entry point of the file. The address space then consists of exactly the segments, each backed by its
  part of the file with the permissions of its header, and the user stack; whatever was mapped before is gone. At the
  stack pointer the program finds its arguments, its environment and its auxiliary vector.\<close>
theorem new_user_vm_ready:
  assumes "mmu_laws M tbl" "alloc_distinct M" "ms_ok M tbl ms" "read_header I inode s = (Inr data, s')" "elf_new data = Inr elf"
    and "e_type elf = ElfExecutable \<or> e_type elf = ElfSharedObject" "e_aarch64 elf" "get_interpreter elf = Inr (Inl err)"
    and "segments_ok (loads elf)" "ar \<noteq> []" "\<forall>w \<in> set ar \<union> set en. CHR 0x00 \<notin> set w"
    and "init_size \<lparr>args = ar, envs = en, auxv = initial_auxv elf\<rparr> \<le> 0x4000"
  shows "\<exists>sp ms'. new_user_vm M I root elf_new inode ar en ms s = Inr (Inr (entry_point elf, sp), ms', s') \<and>
    ms_ok M tbl ms' \<and>
    (\<forall>x. area_at (areas ms') x =
       (if 0x7FFFFFFFC000 \<le> x \<and> x < stack_top then Some (stack_attr, ByFrame, ''user_stack'')
        else if USER_STACK_OFFSET \<le> x \<and> x < 0x7FFFFFFFC000 then Some (stack_attr, Delay, ''user_stack_delay'')
        else seg_at (inode_for_map I inode s') (loads elf) x)) \<and>
    read_init (ms_view M tbl ms') sp =
      Some (of_nat (length ar), ar, en, map (\<lambda>(t, v). (ucast t, v)) (rev (initial_auxv elf)))"
proof -
  have env: "mmu_env M tbl" by unfold_locales (fact assms(1))
  let ?f = "inode_for_map I inode s'" let ?i = "\<lparr>args = ar, envs = en, auxv = initial_auxv elf\<rparr>"
  obtain ms0 where ms0: "ms_clear M ms = Inr ms0" "areas ms0 = []" "tbl (table (space ms0)) = Map.empty"
    using mmu_env.clear_areas[OF env, of "areas ms" "space ms"] assms(3) by (auto simp: ms_ok_def ms_clear_def)
  have ok0: "ms_ok M tbl ms0" "absent M tbl ms0" using ms0(2,3) by (simp_all add: ms_ok_def areas_ok_def backed_def absent_def)
  have "\<forall>ph \<in> set (program_iter elf). ph_type ph = Inr PtLoad \<longrightarrow> (\<forall>x. seg_contains ph x \<longrightarrow> area_at (areas ms0) x = None)"
    using ms0(2) by simp
  from mmu_env.load_segments_ok[OF env assms(9)[unfolded loads_def] ok0 this, folded loads_def] obtain far ms1 where
    ms1: "iterE (load_segment M ?f) (program_iter elf) (0, ms0) = Inr (far, ms1)" "ms_ok M tbl ms1" "absent M tbl ms1"
    "\<forall>x. area_at (areas ms1) x = (case seg_at ?f (loads elf) x of Some d \<Rightarrow> Some d | None \<Rightarrow> area_at (areas ms0) x)" by blast
  have at1: "area_at (areas ms1) x = seg_at ?f (loads elf) x" for x
    using ms1(4)[rule_format, of x] ms0(2) by (simp split: option.splits)
  have "\<forall>x. USER_STACK_OFFSET \<le> x \<longrightarrow> area_at (areas ms1) x = None"
    unfolding at1 seg_at_def using seg_below_stack assms(9) by (fastforce simp: segments_ok_def find_None_iff)
  from mmu_env.user_stack_ready[OF env assms(2) ms1(2,3) assms(12) this] obtain ms2 where
    ms2: "user_stack M ?i ms1 = push_at (ms_put M) ?i stack_top ms2" "ms_ok M tbl ms2"
    "room (ms_writable M tbl) (init_size ?i) (stack_top, ms2)"
    "\<forall>x. area_at (areas ms2) x =
       (if 0x7FFFFFFFC000 \<le> x \<and> x < stack_top then Some (stack_attr, ByFrame, ''user_stack'')
        else if USER_STACK_OFFSET \<le> x \<and> x < 0x7FFFFFFFC000 then Some (stack_attr, Delay, ''user_stack_delay'')
        else area_at (areas ms1) x)" by blast
  obtain sp ms3 where ms3: "push_at (ms_put M) ?i stack_top ms2 = Inr (sp, ms3)"
    "read_init (ms_view M tbl ms3) sp = Some (of_nat (length ar), ar, en, map (\<lambda>(t, v). (ucast t, v)) (rev (initial_auxv elf)))"
    using init_stack_readable[OF assms(1) _ ms2(3)] assms(10,11) initial_auxv_keys by auto
  have keep: "areas ms3 = areas ms2" "table (space ms3) = table (space ms2)"
    using user_space.push_at_keeps[OF ms3(1)] by simp_all
  have "new_user_vm M I root elf_new inode ar en ms s = Inr (Inr (entry_point elf, sp), ms3, s')"
    unfolding new_user_vm_def make_memory_set_def using assms(4-8) ms0(1) ms1(1) ms2(1) ms3(1) by auto
  then show ?thesis using ms2(2,4) ms3(2) at1 by (simp add: ms_ok_def keep)
qed


lemma map_mmu_next_frame: "unat ((fa + of_nat k) AND 0xFFFFFFFF :: usize) = (unat fa + k) mod 4294967296"
proof -
  have "(fa + of_nat k) AND 0xFFFFFFFF = take_bit 32 (fa + of_nat k)" by (simp add: take_bit_eq_mask mask_eq_exp_minus_1)
  then have "unat ((fa + of_nat k) AND 0xFFFFFFFF) = take_bit 32 (unat (fa + of_nat k))" by (simp only: unsigned_take_bit_eq)
  also have "\<dots> = unat (fa + of_nat k) mod 4294967296" by (simp add: take_bit_eq_mod)
  also have "\<dots> = (unat fa + k) mod 18446744073709551616 mod 4294967296"
    by (simp add: unat_word_ariths unat_of_nat mod_add_right_eq)
  also have "\<dots> = (unat fa + k) mod 4294967296" by (rule mod_mod_cancel) simp
  finally show ?thesis .
qed

lemma map_mmu_alloc_distinct: "alloc_distinct map_mmu"
proof -
  have "(fa + of_nat j) AND 0xFFFFFFFF \<noteq> (fa + of_nat k) AND 0xFFFFFFFF" if "j < k" "k < 4" for fa :: usize and j k
  proof
    assume "(fa + of_nat j) AND 0xFFFFFFFF = (fa + of_nat k) AND 0xFFFFFFFF"
    from this[symmetric] have "(unat fa + k) mod 4294967296 = (unat fa + j) mod 4294967296" by (simp only: map_mmu_next_frame[symmetric])
    then have "4294967296 dvd (unat fa + k) - (unat fa + j)" using that by (subst mod_eq_dvd_iff_nat[symmetric]) simp_all
    with that show False by (auto dest: dvd_imp_le)
  qed
  from this[of 0 1] this[of 0 2] this[of 0 3] this[of 1 2] this[of 1 3] this[of 2 3]
  show ?thesis by (simp add: alloc_distinct_def numeral_eq_Suc add.assoc)
qed

definition demo_elf :: elf_file where
  "demo_elf = \<lparr>e_type = ElfExecutable, e_aarch64 = True, entry_point = 0x400078, ph_entry_size = 56, ph_count = 1,
     hdr_ph_offset = 64, program_iter = [\<lparr>ph_type = Inr PtLoad, virtual_addr = 0x400000, mem_size = 0x1234, ph_offset = 0,
       file_size = 0x1000, is_write = False, is_execute = True, ph_data = Inr None\<rparr>]\<rparr>"

theorem new_user_vm_ready_witness:
  "\<exists>sp ms'. new_user_vm map_mmu ram_inodes (Inl Todo) (\<lambda>data. Inr demo_elf) 4 [''init''] [''A=b'']
       (MemorySet_new \<lparr>table = Map.empty, frames = 7, ram = (\<lambda>_. 0)\<rparr>) (\<lambda>_. [0x7f]) = Inr (Inr (0x400078, sp), ms', \<lambda>_. [0x7f]) \<and>
     area_at (areas ms') 0x401fff =
       Some (\<lparr>user = True, readonly = True, execute = True, mmio = 0\<rparr>, FileMap (inode_for_map ram_inodes 4 (\<lambda>_. [0x7f])) 0x400000 0 0x1000, ''elf'') \<and>
     area_at (areas ms') 0x402000 = None \<and>
     read_init (ms_view map_mmu (\<lambda>pt. pt) ms') sp =
       Some (1, [''init''], [''A=b''], [(6, 4096), (5, 1), (4, 56), (3, 0x400040)])"
proof -
  let ?ms = "MemorySet_new \<lparr>table = Map.empty, frames = 7, ram = (\<lambda>_. 0)\<rparr> :: ((Page \<rightharpoonup> u64), usize) MemorySet"
  have l: "loads demo_elf = program_iter demo_elf" by (simp add: loads_def demo_elf_def)
  have aux: "initial_auxv demo_elf = [(3, 0x400040), (4, 56), (5, 1), (6, 4096)]"
    by (simp add: initial_auxv_def get_phdr_vaddr_def demo_elf_def PAGE_SIZE_def Let_def)
  have ok: "ms_ok map_mmu (\<lambda>pt. pt) ?ms" by (simp add: ms_ok_def MemorySet_new_def areas_ok_def backed_def)
  have rh: "read_header ram_inodes 4 (\<lambda>_. [0x7f]) = (Inr (take 0x3c0 ([0x7f] @ replicate 0x3c0 0)), \<lambda>_. [0x7f])"
    by (simp add: read_header_def ram_inodes_def)
  have seg: "segments_ok (loads demo_elf)"
    unfolding l by (simp add: segments_ok_def demo_elf_def seg_end_def stack_offset)
  have sz: "init_size \<lparr>args = [''init''], envs = [''A=b''], auxv = initial_auxv demo_elf\<rparr> \<le> 0x4000"
    by (simp add: init_size_def aux)
  have int: "get_interpreter demo_elf = Inr (Inl ''no interp header'')" by (simp add: get_interpreter_def demo_elf_def)
  have ty: "e_type demo_elf = ElfExecutable \<or> e_type demo_elf = ElfSharedObject" "e_aarch64 demo_elf" by (simp_all add: demo_elf_def)
  have nul: "[''init''] \<noteq> []" "\<forall>w \<in> set [''init''] \<union> set [''A=b'']. CHR 0x00 \<notin> set w" by simp_all
  obtain sp ms' where r:
    "new_user_vm map_mmu ram_inodes (Inl Todo) (\<lambda>data. Inr demo_elf) 4 [''init''] [''A=b''] ?ms (\<lambda>_. [0x7f]) =
       Inr (Inr (entry_point demo_elf, sp), ms', \<lambda>_. [0x7f])"
    "\<forall>x. area_at (areas ms') x =
       (if 0x7FFFFFFFC000 \<le> x \<and> x < stack_top then Some (stack_attr, ByFrame, ''user_stack'')
        else if USER_STACK_OFFSET \<le> x \<and> x < 0x7FFFFFFFC000 then Some (stack_attr, Delay, ''user_stack_delay'')
        else seg_at (inode_for_map ram_inodes 4 (\<lambda>_. [0x7f])) (loads demo_elf) x)"
    "read_init (ms_view map_mmu (\<lambda>pt. pt) ms') sp = Some (of_nat (length [''init'']), [''init''], [''A=b''],
       map (\<lambda>(t, v). (ucast t, v)) (rev (initial_auxv demo_elf)))"
    using new_user_vm_ready[where elf_new = "\<lambda>data. Inr demo_elf",
        OF map_mmu_laws map_mmu_alloc_distinct ok rh refl ty int seg nul sz] by metis
  have "page_down 0x400000 = 0x400000" "page_up 0x401234 = 0x402000" by (simp_all add: page_down_def page_up_def PAGE_SIZE_def)
  then have "area_at (areas ms') 0x401fff =
       Some (\<lparr>user = True, readonly = True, execute = True, mmio = 0\<rparr>, FileMap (inode_for_map ram_inodes 4 (\<lambda>_. [0x7f])) 0x400000 0 0x1000, ''elf'')"
    "area_at (areas ms') 0x402000 = None"
    unfolding r(2)[rule_format] l by (simp_all add: demo_elf_def seg_contains_def seg_end_def stack_offset to_attr_exact)
  moreover have "entry_point demo_elf = 0x400078" by (simp add: demo_elf_def)
  ultimately show ?thesis using r(1,3) aux by auto
qed

end
