(* ===== verification/Device_Registers.thy ===== *)
theory Device_Registers
  imports Ordered_Map
begin

text \<open>
  Device registers, as the drivers under \<^verbatim>\<open>src/kernel/src/drivers\<close> use them.

  A device has a state and, for each of its registers, a read and a write; a read may change the state (a
  received character leaves the queue, time passes). Registers are the constructors of a datatype of each
  driver, so a driver is written over the names of \<^verbatim>\<open>register_structs!\<close>; where that macro places them is
  the subject of \<open>layout_ok\<close>. The encoding of fields belongs to the \<^verbatim>\<open>tock_registers\<close> crate: it is the
  record \<open>reg_ops\<close>, with the documented meaning in \<open>reg_laws\<close>.
\<close>

section \<open>Access\<close>

record ('r, 'h) mmio =
  reg_get :: "'r \<Rightarrow> 'h \<Rightarrow> u32 \<times> 'h"
  reg_set :: "'r \<Rightarrow> u32 \<Rightarrow> 'h \<Rightarrow> 'h"

section \<open>Fields\<close>

text \<open>A field is its offset and its number of bits. \<open>field_val\<close> is \<^verbatim>\<open>Field::val\<close> (and the named values of a
  field), \<open>field_SET\<close> and \<open>field_CLEAR\<close> the constants \<^verbatim>\<open>SET\<close> and \<^verbatim>\<open>CLEAR\<close>, \<open>field_add\<close> is \<^verbatim>\<open>+\<close> on field values,
  \<open>field_read\<close> is \<^verbatim>\<open>read\<close>, \<open>matches_all\<close> and \<open>matches_any\<close> are those methods on values that are \<^verbatim>\<open>SET\<close>.\<close>

type_synonym field = "nat \<times> nat"

record reg_ops =
  field_val :: "field \<Rightarrow> u32 \<Rightarrow> u32"
  field_SET :: "field \<Rightarrow> u32"
  field_CLEAR :: "field \<Rightarrow> u32"
  field_add :: "u32 \<Rightarrow> u32 \<Rightarrow> u32"
  field_read :: "field \<Rightarrow> u32 \<Rightarrow> u32"
  matches_all :: "field \<Rightarrow> u32 \<Rightarrow> bool"
  matches_any :: "field list \<Rightarrow> u32 \<Rightarrow> bool"

definition field_get :: "field \<Rightarrow> u32 \<Rightarrow> u32" where
  "field_get f v = drop_bit (fst f) v AND mask (snd f)"

definition std_regs :: reg_ops where
  "std_regs =
     \<lparr>field_val = (\<lambda>f v. push_bit (fst f) (v AND mask (snd f))),
      field_SET = (\<lambda>f. push_bit (fst f) (mask (snd f))),
      field_CLEAR = (\<lambda>f. 0),
      field_add = (\<lambda>v w. v OR w),
      field_read = field_get,
      matches_all = (\<lambda>f v. field_get f v = mask (snd f)),
      matches_any = (\<lambda>fs v. list_ex (\<lambda>f. field_get f v \<noteq> 0) fs)\<rparr>"

definition reg_laws :: "reg_ops \<Rightarrow> bool" where
  "reg_laws R \<longleftrightarrow>
     (\<forall>f v. field_val R f v = push_bit (fst f) (v AND mask (snd f))) \<and>
     (\<forall>f. field_SET R f = push_bit (fst f) (mask (snd f))) \<and>
     (\<forall>f. field_CLEAR R f = 0) \<and>
     (\<forall>v w. field_add R v w = v OR w) \<and>
     (\<forall>f v. field_read R f v = field_get f v) \<and>
     (\<forall>f v. matches_all R f v \<longleftrightarrow> field_get f v = mask (snd f)) \<and>
     (\<forall>fs v. matches_any R fs v \<longleftrightarrow> list_ex (\<lambda>f. field_get f v \<noteq> 0) fs)"

lemma std_regs_laws: "reg_laws std_regs"
  by (simp add: reg_laws_def std_regs_def)

lemma reg_lawsD:
  assumes "reg_laws R"
  shows "field_val R f v = push_bit (fst f) (v AND mask (snd f))"
    and "field_SET R f = push_bit (fst f) (mask (snd f))"
    and "field_CLEAR R f = 0"
    and "field_add R v w = v OR w"
    and "field_read R f v = field_get f v"
    and "matches_all R f v \<longleftrightarrow> field_get f v = mask (snd f)"
    and "matches_any R fs v \<longleftrightarrow> list_ex (\<lambda>f. field_get f v \<noteq> 0) fs"
  using assms unfolding reg_laws_def by blast+

text \<open>A one-bit field is a bit.\<close>

lemma field_get_bit [simp]: "field_get (n, Suc 0) v = of_bool (bit v n)"
  by (rule bit_eqI) (auto simp: field_get_def bit_simps)

section \<open>Layout of a register block\<close>

text \<open>\<^verbatim>\<open>register_structs!\<close> turns a list of entries into a struct with C layout: registers take their size, a
  reserved entry the distance to the offset of its successor. The documentation asks for entries in
  ascending order without undeclared gaps, closed by \<^verbatim>\<open>@END\<close>. \<open>layout_ok\<close> is that requirement; \<open>placed\<close> is the
  offset the struct gives to each register.\<close>

datatype 'r block_entry = Reg nat 'r nat | Reserved nat | END nat

fun entry_offset :: "'r block_entry \<Rightarrow> nat" where
  "entry_offset (Reg a _ _) = a"
| "entry_offset (Reserved a) = a"
| "entry_offset (END a) = a"

fun layout_ok :: "nat \<Rightarrow> 'r block_entry list \<Rightarrow> bool" where
  "layout_ok p [END a] = (a = p)"
| "layout_ok p (Reg a _ n # es) = (a = p \<and> layout_ok (p + n) es)"
| "layout_ok p (Reserved a # e # es) = (a = p \<and> a \<le> entry_offset e \<and> layout_ok (entry_offset e) (e # es))"
| "layout_ok p _ = False"

fun placed :: "nat \<Rightarrow> 'r block_entry list \<Rightarrow> ('r \<times> nat) list" where
  "placed p (Reg a r n # es) = (r, p) # placed (p + n) es"
| "placed p (Reserved a # e # es) = placed (p + (entry_offset e - a)) (e # es)"
| "placed p _ = []"

fun declared :: "'r block_entry list \<Rightarrow> ('r \<times> nat) list" where
  "declared [] = []"
| "declared (Reg a r n # es) = (r, a) # declared es"
| "declared (e # es) = declared es"

text \<open>In a block that meets the requirement every register is where its declaration says.\<close>

lemma placed_declared: "layout_ok p es \<Longrightarrow> placed p es = declared es"
  by (induction p es rule: layout_ok.induct) auto

end
