(* ===== verification/Serial_Uart.thy ===== *)
theory Serial_Uart
  imports Device_Registers
begin

text \<open>
  The serial port driver, \<^verbatim>\<open>src/kernel/src/drivers/serial/pl011_uart.rs\<close>.

  The driver busy-waits on the flag register, so its operations are partial functions whose value \<open>None\<close>
  is a loop that never ends; the lemmas show that they return. What the device does is \<open>uart_laws\<close>: a queue of
  received characters that only grows from the line, a transmitter that takes a character when it has room
  and whose queue drains while the driver polls.
\<close>

section \<open>The registers of the PL011\<close>

datatype UartRegister = DR | FR | IBRD | FBRD | LCR_H | CR | IFLS | IMSC | RIS | MIS | ICR

definition RegisterBlock :: "UartRegister block_entry list" where
  "RegisterBlock =
     [Reg 0x00 DR 4, Reserved 0x04, Reg 0x18 FR 4, Reserved 0x1c, Reg 0x24 IBRD 4, Reg 0x28 FBRD 4, Reg 0x2c LCR_H 4,
      Reg 0x30 CR 4, Reg 0x34 IFLS 4, Reg 0x38 IMSC 4, Reg 0x3C RIS 4, Reg 0x40 MIS 4, Reg 0x44 ICR 4, END 0x48]"

definition FR_TXFF :: field where "FR_TXFF = (5, 1)"
definition FR_RXFE :: field where "FR_RXFE = (4, 1)"
definition FR_BUSY :: field where "FR_BUSY = (3, 1)"
definition IBRD_BAUD_DIVINT :: field where "IBRD_BAUD_DIVINT = (0, 16)"
definition FBRD_BAUD_DIVFRAC :: field where "FBRD_BAUD_DIVFRAC = (0, 6)"
definition LCR_H_WLEN :: field where "LCR_H_WLEN = (5, 2)"
abbreviation WLEN_EightBit :: u32 where "WLEN_EightBit \<equiv> 3"
definition LCR_H_FEN :: field where "LCR_H_FEN = (4, 1)"
abbreviation FEN_FifosEnabled :: u32 where "FEN_FifosEnabled \<equiv> 1"
definition CR_RXE :: field where "CR_RXE = (9, 1)"
definition CR_TXE :: field where "CR_TXE = (8, 1)"
definition CR_UARTEN :: field where "CR_UARTEN = (0, 1)"
abbreviation CR_Enabled :: u32 where "CR_Enabled \<equiv> 1"
definition IFLS_RXIFLSEL :: field where "IFLS_RXIFLSEL = (3, 5)"
abbreviation RXIFLSEL_OneEigth :: u32 where "RXIFLSEL_OneEigth \<equiv> 0"
definition IMSC_RTIM :: field where "IMSC_RTIM = (6, 1)"
definition IMSC_RXIM :: field where "IMSC_RXIM = (4, 1)"
abbreviation IMSC_Enabled :: u32 where "IMSC_Enabled \<equiv> 1"
definition MIS_RTMIS :: field where "MIS_RTMIS = (6, 1)"
definition MIS_RXMIS :: field where "MIS_RXMIS = (4, 1)"
definition ICR_ALL :: field where "ICR_ALL = (0, 11)"

lemmas uart_fields =
  FR_TXFF_def FR_RXFE_def FR_BUSY_def IBRD_BAUD_DIVINT_def FBRD_BAUD_DIVFRAC_def LCR_H_WLEN_def
  LCR_H_FEN_def CR_RXE_def CR_TXE_def CR_UARTEN_def IFLS_RXIFLSEL_def
  IMSC_RTIM_def IMSC_RXIM_def MIS_RTMIS_def MIS_RXMIS_def ICR_ALL_def

section \<open>The driver\<close>

datatype BlockingMode = Blocking | NonBlocking

record 'h Pl011UartInner =
  registers :: 'h
  chars_written :: usize
  chars_read :: usize

definition uart_new :: "'h \<Rightarrow> 'h Pl011UartInner" where
  "uart_new h = \<lparr>registers = h, chars_written = 0, chars_read = 0\<rparr>"

text \<open>Reading and writing one register of the device.\<close>

definition get_reg :: "(UartRegister, 'h) mmio \<Rightarrow> UartRegister \<Rightarrow> 'h Pl011UartInner \<Rightarrow> u32 \<times> 'h Pl011UartInner" where
  "get_reg D r u = (let (v, h) = reg_get D r (registers u) in (v, u\<lparr>registers := h\<rparr>))"

definition set_reg :: "(UartRegister, 'h) mmio \<Rightarrow> UartRegister \<Rightarrow> u32 \<Rightarrow> 'h Pl011UartInner \<Rightarrow> 'h Pl011UartInner" where
  "set_reg D r v u = u\<lparr>registers := reg_set D r v (registers u)\<rparr>"

text \<open>\<^verbatim>\<open>while self.registers.FR.matches_all(flag) { cpu::nop(); }\<close>\<close>

partial_function (option) spin_while ::
  "(UartRegister, 'h) mmio \<Rightarrow> reg_ops \<Rightarrow> field \<Rightarrow> 'h Pl011UartInner \<Rightarrow> 'h Pl011UartInner option" where
  "spin_while D R flag u =
     (let (v, u) = get_reg D FR u in if matches_all R flag v then spin_while D R flag u else Some u)"

definition uart_flush :: "(UartRegister, 'h) mmio \<Rightarrow> reg_ops \<Rightarrow> 'h Pl011UartInner \<Rightarrow> 'h Pl011UartInner option" where
  "uart_flush D R u = spin_while D R FR_BUSY u"

definition uart_init :: "(UartRegister, 'h) mmio \<Rightarrow> reg_ops \<Rightarrow> 'h Pl011UartInner \<Rightarrow> 'h Pl011UartInner option" where
  "uart_init D R u =
     map_option
       (set_reg D CR (field_add R (field_add R (field_val R CR_UARTEN CR_Enabled) (field_val R CR_TXE CR_Enabled))
                        (field_val R CR_RXE CR_Enabled)) \<circ>
        set_reg D IMSC (field_add R (field_val R IMSC_RXIM IMSC_Enabled) (field_val R IMSC_RTIM IMSC_Enabled)) \<circ>
        set_reg D IFLS (field_val R IFLS_RXIFLSEL RXIFLSEL_OneEigth) \<circ>
        set_reg D LCR_H (field_add R (field_val R LCR_H_WLEN WLEN_EightBit) (field_val R LCR_H_FEN FEN_FifosEnabled)) \<circ>
        set_reg D FBRD (field_val R FBRD_BAUD_DIVFRAC 16) \<circ>
        set_reg D IBRD (field_val R IBRD_BAUD_DIVINT 3) \<circ>
        set_reg D ICR (field_CLEAR R ICR_ALL) \<circ>
        set_reg D CR 0)
       (uart_flush D R u)"

text \<open>A \<^verbatim>\<open>char\<close> is its code point.\<close>

definition write_char :: "(UartRegister, 'h) mmio \<Rightarrow> reg_ops \<Rightarrow> u32 \<Rightarrow> 'h Pl011UartInner \<Rightarrow> 'h Pl011UartInner option" where
  "write_char D R c u =
     map_option (\<lambda>u. set_reg D DR c u\<lparr>chars_written := chars_written u + 1\<rparr>) (spin_while D R FR_TXFF u)"

fun write_str :: "(UartRegister, 'h) mmio \<Rightarrow> reg_ops \<Rightarrow> u32 list \<Rightarrow> 'h Pl011UartInner \<Rightarrow> 'h Pl011UartInner option" where
  "write_str D R [] u = Some u"
| "write_str D R (c # cs) u = Option.bind (write_char D R c u) (write_str D R cs)"

definition read_one :: "(UartRegister, 'h) mmio \<Rightarrow> 'h Pl011UartInner \<Rightarrow> u32 option \<times> 'h Pl011UartInner" where
  "read_one D u =
     (let (v, u) = get_reg D DR u; ret = ucast (ucast v :: u8); ret = (if ret = 13 then 10 else ret)
      in (Some ret, u\<lparr>chars_read := chars_read u + 1\<rparr>))"

definition read_char_converting ::
  "(UartRegister, 'h) mmio \<Rightarrow> reg_ops \<Rightarrow> BlockingMode \<Rightarrow> 'h Pl011UartInner \<Rightarrow> (u32 option \<times> 'h Pl011UartInner) option" where
  "read_char_converting D R blocking_mode u =
     (let (v, u) = get_reg D FR u
      in if matches_all R FR_RXFE v
         then if blocking_mode = NonBlocking then Some (None, u)
              else map_option (read_one D) (spin_while D R FR_RXFE u)
         else Some (read_one D u))"

text \<open>\<^verbatim>\<open>while let Some(c) = inner.read_char_converting(BlockingMode::NonBlocking) { inner.write_char(c) }\<close>\<close>

partial_function (option) echo ::
  "(UartRegister, 'h) mmio \<Rightarrow> reg_ops \<Rightarrow> 'h Pl011UartInner \<Rightarrow> 'h Pl011UartInner option" where
  "echo D R u =
     Option.bind (read_char_converting D R NonBlocking u) (\<lambda>r.
       case fst r of
         None \<Rightarrow> Some (snd r)
       | Some c \<Rightarrow> Option.bind (write_char D R c (snd r)) (echo D R))"

definition get_status :: "(UartRegister, 'h) mmio \<Rightarrow> 'h Pl011UartInner \<Rightarrow> u32 \<times> 'h Pl011UartInner" where
  "get_status D u = get_reg D MIS u"

definition uart_handle_interrupt ::
  "(UartRegister, 'h) mmio \<Rightarrow> reg_ops \<Rightarrow> 'h Pl011UartInner \<Rightarrow> 'h Pl011UartInner option" where
  "uart_handle_interrupt D R u =
     (let (pending, u) = get_reg D MIS u;
          u = set_reg D ICR (field_CLEAR R ICR_ALL) u
      in if matches_any R [MIS_RXMIS, MIS_RTMIS] pending then echo D R u else Some u)"

definition uart_read_char ::
  "(UartRegister, 'h) mmio \<Rightarrow> reg_ops \<Rightarrow> 'h Pl011UartInner \<Rightarrow> (u32 outcome \<times> 'h Pl011UartInner) option" where
  "uart_read_char D R u = map_option (\<lambda>(c, u). (unwrap c, u)) (read_char_converting D R Blocking u)"

partial_function (option) clear_rx ::
  "(UartRegister, 'h) mmio \<Rightarrow> reg_ops \<Rightarrow> 'h Pl011UartInner \<Rightarrow> 'h Pl011UartInner option" where
  "clear_rx D R u =
     Option.bind (read_char_converting D R NonBlocking u) (\<lambda>r.
       if fst r \<noteq> None then clear_rx D R (snd r) else Some (snd r))"

section \<open>What the device promises\<close>

text \<open>\<open>rx\<close>: the characters in the receive queue; \<open>line\<close>: the characters that will still enter it; \<open>tx\<close>: the characters
  handed to the transmitter; \<open>room\<close>: the transmit queue has a free slot; \<open>wait\<close>: how long polling may go on
  while something is outstanding; \<open>on\<close>: the port is enabled.\<close>

record 'h uart_view =
  rx :: "'h \<Rightarrow> u8 list"
  line :: "'h \<Rightarrow> u8 list"
  tx :: "'h \<Rightarrow> u8 list"
  room :: "'h \<Rightarrow> bool"
  wait :: "'h \<Rightarrow> nat"
  on :: "'h \<Rightarrow> bool"

definition same_traffic :: "'h uart_view \<Rightarrow> 'h \<Rightarrow> 'h \<Rightarrow> bool" where
  "same_traffic V h h' \<longleftrightarrow> on V h' \<and> rx V h' @ line V h' = rx V h @ line V h \<and> tx V h' = tx V h"

definition flag_law :: "'h uart_view \<Rightarrow> 'h \<Rightarrow> u32 \<times> 'h \<Rightarrow> bool" where
  "flag_law V h = (\<lambda>(v, h'). same_traffic V h h' \<and>
     (bit v 4 \<longleftrightarrow> rx V h' = []) \<and> (bit v 5 \<or> room V h') \<and>
     (bit v 5 \<or> bit v 3 \<or> (bit v 4 \<and> line V h' \<noteq> []) \<longrightarrow> wait V h' < wait V h))"

definition uart_laws :: "(UartRegister, 'h) mmio \<Rightarrow> 'h uart_view \<Rightarrow> bool" where
  "uart_laws D V \<longleftrightarrow> (\<forall>h. on V h \<longrightarrow>
     flag_law V h (reg_get D FR h) \<and>
     (\<forall>b bs. rx V h = b # bs \<longrightarrow> (let (v, h') = reg_get D DR h in
        ucast v = b \<and> on V h' \<and> rx V h' @ line V h' = bs @ line V h \<and> tx V h' = tx V h)) \<and>
     (\<forall>v. room V h \<longrightarrow> (let h' = reg_set D DR v h in
        on V h' \<and> rx V h' @ line V h' = rx V h @ line V h \<and> tx V h' = tx V h @ [ucast v])) \<and>
     same_traffic V h (snd (reg_get D MIS h)) \<and>
     (\<forall>v. same_traffic V h (reg_set D ICR v h)))"

lemma same_traffic_trans: "same_traffic V h h' \<Longrightarrow> same_traffic V h' h'' \<Longrightarrow> same_traffic V h h''"
  by (simp add: same_traffic_def)

lemma uart_lawsD:
  assumes "uart_laws D V" "on V h"
  shows "flag_law V h (reg_get D FR h)"
    and "rx V h = b # bs \<Longrightarrow> reg_get D DR h = (v, h') \<Longrightarrow>
      ucast v = b \<and> on V h' \<and> rx V h' @ line V h' = bs @ line V h \<and> tx V h' = tx V h"
    and "room V h \<Longrightarrow> on V (reg_set D DR w h) \<and>
      rx V (reg_set D DR w h) @ line V (reg_set D DR w h) = rx V h @ line V h \<and> tx V (reg_set D DR w h) = tx V h @ [ucast w]"
    and "same_traffic V h (snd (reg_get D MIS h))"
    and "same_traffic V h (reg_set D ICR w h)"
  using assms unfolding uart_laws_def Let_def by (blast | force)+

lemma uart_matches:
  assumes "reg_laws R"
  shows "matches_all R FR_TXFF v \<longleftrightarrow> bit v 5" "matches_all R FR_RXFE v \<longleftrightarrow> bit v 4" "matches_all R FR_BUSY v \<longleftrightarrow> bit v 3"
  by (simp_all add: reg_lawsD[OF assms] uart_fields)

lemma uart_flag:
  assumes "uart_laws D V" "on V (registers u)"
  obtains v h where "get_reg D FR u = (v, u\<lparr>registers := h\<rparr>)" "flag_law V (registers u) (v, h)"
proof -
  obtain v h where "reg_get D FR (registers u) = (v, h)" by fastforce
  then show ?thesis using that uart_lawsD(1)[OF assms] by (simp add: get_reg_def)
qed

text \<open>Polling ends, for the transmitter always and for the receiver when a character will come, and the device has
  exchanged nothing with the driver meanwhile.\<close>

definition awaited :: "'h uart_view \<Rightarrow> field \<Rightarrow> 'h \<Rightarrow> bool" where
  "awaited V f h \<longleftrightarrow> f = FR_TXFF \<or> f = FR_BUSY \<or> f = FR_RXFE \<and> rx V h @ line V h \<noteq> []"

lemma spin_while_ends:
  assumes "uart_laws D V" "reg_laws R" "on V (registers u)" "awaited V f (registers u)"
  shows "\<exists>h. spin_while D R f u = Some (u\<lparr>registers := h\<rparr>) \<and> same_traffic V (registers u) h \<and>
    (f = FR_TXFF \<longrightarrow> room V h) \<and> (f = FR_RXFE \<longrightarrow> rx V h \<noteq> [])"
  using assms(3,4)
proof (induction "wait V (registers u)" arbitrary: u rule: less_induct)
  case less
  obtain v h where g: "get_reg D FR u = (v, u\<lparr>registers := h\<rparr>)" and F: "flag_law V (registers u) (v, h)"
    using uart_flag[OF assms(1) less.prems(1)] .
  have traffic: "same_traffic V (registers u) h" "on V (registers (u\<lparr>registers := h\<rparr>))"
    using F by (auto simp: flag_law_def same_traffic_def)
  then have aw: "awaited V f (registers (u\<lparr>registers := h\<rparr>))"
    using less.prems(2) by (simp add: awaited_def same_traffic_def)
  show ?case
  proof (cases "matches_all R f v")
    case True
    then have "wait V (registers (u\<lparr>registers := h\<rparr>)) < wait V (registers u)"
      using F aw by (auto simp: flag_law_def awaited_def uart_matches[OF assms(2)])
    from less.hyps[OF this traffic(2) aw] obtain h' where
      h: "spin_while D R f (u\<lparr>registers := h\<rparr>) = Some (u\<lparr>registers := h'\<rparr>)" "same_traffic V h h'"
        "f = FR_TXFF \<longrightarrow> room V h'" "f = FR_RXFE \<longrightarrow> rx V h' \<noteq> []"
      by auto
    have "spin_while D R f u = Some (u\<lparr>registers := h'\<rparr>)"
      using g True h(1) by (subst spin_while.simps) simp
    then show ?thesis using h same_traffic_trans[OF traffic(1)] by blast
  next
    case False
    then have "spin_while D R f u = Some (u\<lparr>registers := h\<rparr>)"
      using g by (subst spin_while.simps) simp
    moreover have "(f = FR_TXFF \<longrightarrow> room V h) \<and> (f = FR_RXFE \<longrightarrow> rx V h \<noteq> [])"
      using False F by (auto simp: flag_law_def uart_matches[OF assms(2)])
    ultimately show ?thesis using traffic by blast
  qed
qed

lemma write_char_ends:
  assumes "uart_laws D V" "reg_laws R" "on V (registers u)"
  shows "\<exists>h. write_char D R c u = Some (u\<lparr>registers := h, chars_written := chars_written u + 1\<rparr>) \<and>
    on V h \<and> rx V h @ line V h = rx V (registers u) @ line V (registers u) \<and> tx V h = tx V (registers u) @ [ucast c]"
proof -
  obtain h where h: "spin_while D R FR_TXFF u = Some (u\<lparr>registers := h\<rparr>)" "same_traffic V (registers u) h" "room V h"
    using spin_while_ends[OF assms, of FR_TXFF] by (auto simp: awaited_def)
  then have "write_char D R c u = Some (u\<lparr>registers := reg_set D DR c h, chars_written := chars_written u + 1\<rparr>)"
    by (simp add: write_char_def set_reg_def)
  moreover have "on V h" using h by (simp add: same_traffic_def)
  ultimately show ?thesis using uart_lawsD(3)[OF assms(1) _ h(3), of c] h(2) by (auto simp: same_traffic_def)
qed

lemma write_str_sends:
  assumes "uart_laws D V" "reg_laws R" "on V (registers u)"
  shows "\<exists>u'. write_str D R cs u = Some u' \<and> on V (registers u') \<and>
    rx V (registers u') @ line V (registers u') = rx V (registers u) @ line V (registers u) \<and>
    tx V (registers u') = tx V (registers u) @ map ucast cs \<and> chars_written u' = chars_written u + of_nat (length cs)"
  using assms(3)
proof (induction cs arbitrary: u)
  case (Cons c cs)
  obtain h where h: "write_char D R c u = Some (u\<lparr>registers := h, chars_written := chars_written u + 1\<rparr>)" "on V h"
    "rx V h @ line V h = rx V (registers u) @ line V (registers u)" "tx V h = tx V (registers u) @ [ucast c]"
    using write_char_ends[OF assms(1,2) Cons.prems] by blast
  then show ?case using Cons.IH[of "u\<lparr>registers := h, chars_written := chars_written u + 1\<rparr>"] by auto
qed simp

definition received :: "u8 \<Rightarrow> u8" where
  "received b = (if b = 13 then 10 else b)"

lemma char_byte [simp]: "ucast (ucast (b :: u8) :: u32) = b"
  by (rule bit_eqI) (auto simp: bit_simps)

lemma char_byte_eq: "(ucast (b :: u8) :: u32) = 13 \<longleftrightarrow> b = 13"
proof
  assume eq: "(ucast b :: u32) = 13"
  show "b = 13" by (subst char_byte[symmetric], subst eq) simp
qed simp

lemma read_one_takes:
  assumes "uart_laws D V" "on V (registers u)" "rx V (registers u) = b # bs"
  shows "\<exists>h. read_one D u = (Some (ucast (received b)), u\<lparr>registers := h, chars_read := chars_read u + 1\<rparr>) \<and>
    on V h \<and> rx V h @ line V h = bs @ line V (registers u) \<and> tx V h = tx V (registers u)"
proof -
  obtain v h where g: "reg_get D DR (registers u) = (v, h)" by fastforce
  note L = uart_lawsD(2)[OF assms g]
  have "read_one D u = (Some (ucast (received b)), u\<lparr>registers := h, chars_read := chars_read u + 1\<rparr>)"
    using g L by (auto simp: read_one_def get_reg_def received_def char_byte_eq)
  then show ?thesis using L by blast
qed

text \<open>A read that does not wait returns nothing exactly when the queue is empty.\<close>

lemma read_char_takes:
  assumes "uart_laws D V" "reg_laws R" "on V (registers u)"
  shows "(\<exists>h. read_char_converting D R NonBlocking u = Some (None, u\<lparr>registers := h\<rparr>) \<and> same_traffic V (registers u) h \<and> rx V h = []) \<or>
    (\<exists>h b. read_char_converting D R NonBlocking u =
        Some (Some (ucast (received b)), u\<lparr>registers := h, chars_read := chars_read u + 1\<rparr>) \<and>
      on V h \<and> b # rx V h @ line V h = rx V (registers u) @ line V (registers u) \<and> tx V h = tx V (registers u))"
proof -
  obtain v h where g: "get_reg D FR u = (v, u\<lparr>registers := h\<rparr>)" and F: "flag_law V (registers u) (v, h)"
    using uart_flag[OF assms(1,3)] .
  have t: "same_traffic V (registers u) h" using F by (simp add: flag_law_def)
  show ?thesis
  proof (cases "rx V h")
    case Nil
    then have "bit v 4" using F by (simp add: flag_law_def)
    then show ?thesis using g t Nil by (auto simp: read_char_converting_def uart_matches[OF assms(2)])
  next
    case (Cons b bs)
    then have "\<not> bit v 4" "on V h" using F by (auto simp: flag_law_def same_traffic_def)
    moreover from read_one_takes[OF assms(1), of "u\<lparr>registers := h\<rparr>" b bs] this(2) Cons obtain h' where
      "read_one D (u\<lparr>registers := h\<rparr>) = (Some (ucast (received b)), u\<lparr>registers := h', chars_read := chars_read u + 1\<rparr>)"
      "on V h'" "rx V h' @ line V h' = bs @ line V h" "tx V h' = tx V h" by auto
    ultimately show ?thesis using g t Cons
      by (intro disjI2 exI[of _ h'] exI[of _ b]) (simp add: read_char_converting_def uart_matches[OF assms(2)] same_traffic_def)
  qed
qed

text \<open>The blocking read returns the next character as soon as there is one.\<close>

lemma read_char_returns:
  assumes "uart_laws D V" "reg_laws R" "on V (registers u)" "rx V (registers u) @ line V (registers u) = b # bs"
  shows "\<exists>u'. uart_read_char D R u = Some (Inr (ucast (received b)), u') \<and>
    rx V (registers u') @ line V (registers u') = bs \<and> chars_read u' = chars_read u + 1"
proof -
  obtain v h where g: "get_reg D FR u = (v, u\<lparr>registers := h\<rparr>)" and F: "flag_law V (registers u) (v, h)"
    using uart_flag[OF assms(1,3)] .
  have t: "same_traffic V (registers u) h" "on V h" using F by (auto simp: flag_law_def same_traffic_def)
  obtain h' where h': "(if bit v 4 then spin_while D R FR_RXFE (u\<lparr>registers := h\<rparr>) else Some (u\<lparr>registers := h\<rparr>)) = Some (u\<lparr>registers := h'\<rparr>)"
    "same_traffic V h h'" "rx V h' \<noteq> []"
  proof (cases "bit v 4")
    case True
    have "awaited V FR_RXFE h" using t(1) assms(4) by (simp add: awaited_def same_traffic_def)
    then show thesis using that True t(2) spin_while_ends[OF assms(1,2), of "u\<lparr>registers := h\<rparr>" FR_RXFE] by auto
  next
    case False
    then show thesis using that[of h] F t by (auto simp: flag_law_def same_traffic_def)
  qed
  have tr: "rx V h' @ line V h' = b # bs" "on V h'" using h' t assms(4) by (auto simp: same_traffic_def)
  then obtain cs where cs: "rx V h' = b # cs" "cs @ line V h' = bs" using h'(3) by (cases "rx V h'") auto
  obtain h'' where "read_one D (u\<lparr>registers := h'\<rparr>) = (Some (ucast (received b)), u\<lparr>registers := h'', chars_read := chars_read u + 1\<rparr>)"
    "rx V h'' @ line V h'' = bs"
    using read_one_takes[OF assms(1), of "u\<lparr>registers := h'\<rparr>" b cs] tr cs by auto
  then show ?thesis using g h'(1)
    by (auto simp: uart_read_char_def read_char_converting_def uart_matches[OF assms(2)] split: if_splits)
qed

lemma echo_ends:
  assumes "uart_laws D V" "reg_laws R" "on V (registers u)"
  shows "\<exists>h taken. echo D R u = Some (u\<lparr>registers := h, chars_written := chars_written u + of_nat (length taken),
      chars_read := chars_read u + of_nat (length taken)\<rparr>) \<and>
    rx V h = [] \<and> taken @ line V h = rx V (registers u) @ line V (registers u) \<and>
    tx V h = tx V (registers u) @ map received taken"
  using assms(3)
proof (induction "length (rx V (registers u) @ line V (registers u))" arbitrary: u rule: less_induct)
  case less
  from read_char_takes[OF assms(1,2) less.prems] show ?case
  proof (elim disjE exE conjE)
    fix h assume "read_char_converting D R NonBlocking u = Some (None, u\<lparr>registers := h\<rparr>)" "same_traffic V (registers u) h" "rx V h = []"
    then show ?thesis
      by (intro exI[of _ h] exI[of _ "[]"]) (subst echo.simps, auto simp: same_traffic_def)
  next
    fix h b
    assume r: "read_char_converting D R NonBlocking u =
        Some (Some (ucast (received b)), u\<lparr>registers := h, chars_read := chars_read u + 1\<rparr>)" "on V h"
      "b # rx V h @ line V h = rx V (registers u) @ line V (registers u)" "tx V h = tx V (registers u)"
    define u1 where "u1 = u\<lparr>registers := h, chars_read := chars_read u + 1\<rparr>"
    have "on V (registers u1)" using r(2) by (simp add: u1_def)
    from write_char_ends[OF assms(1,2) this, of "ucast (received b)"] obtain h' where
      w: "write_char D R (ucast (received b)) u1 = Some (u1\<lparr>registers := h', chars_written := chars_written u1 + 1\<rparr>)" "on V h'"
      "rx V h' @ line V h' = rx V h @ line V h" "tx V h' = tx V (registers u) @ [received b]"
      using r(4) by (fastforce simp: u1_def)
    define u2 where "u2 = u1\<lparr>registers := h', chars_written := chars_written u1 + 1\<rparr>"
    have "length (rx V (registers u2) @ line V (registers u2)) < length (rx V (registers u) @ line V (registers u))"
      unfolding r(3)[symmetric] by (simp add: u2_def w(3))
    from less.hyps[OF this] w(2) obtain h'' taken where
      e: "echo D R u2 = Some (u2\<lparr>registers := h'', chars_written := chars_written u2 + of_nat (length taken),
          chars_read := chars_read u2 + of_nat (length taken)\<rparr>)" "rx V h'' = []"
        "taken @ line V h'' = rx V h' @ line V h'" "tx V h'' = tx V h' @ map received taken"
      by (auto simp: u2_def)
    have "echo D R u = echo D R u2"
      using r(1) w(1) by (subst echo.simps) (simp add: u1_def[symmetric] u2_def[symmetric])
    then show ?thesis using e r(3) w(3,4)
      by (intro exI[of _ h''] exI[of _ "b # taken"]) (simp add: u2_def u1_def add.assoc)
  qed
qed

text \<open>Clearing the queue ends with an empty queue and sends nothing.\<close>

lemma clear_rx_ends:
  assumes "uart_laws D V" "reg_laws R" "on V (registers u)"
  shows "\<exists>u' taken. clear_rx D R u = Some u' \<and> rx V (registers u') = [] \<and>
    taken @ line V (registers u') = rx V (registers u) @ line V (registers u) \<and> tx V (registers u') = tx V (registers u) \<and>
    chars_read u' = chars_read u + of_nat (length taken)"
  using assms(3)
proof (induction "length (rx V (registers u) @ line V (registers u))" arbitrary: u rule: less_induct)
  case less
  from read_char_takes[OF assms(1,2) less.prems] show ?case
  proof (elim disjE exE conjE)
    fix h assume "read_char_converting D R NonBlocking u = Some (None, u\<lparr>registers := h\<rparr>)" "same_traffic V (registers u) h" "rx V h = []"
    then show ?thesis
      by (intro exI[of _ "u\<lparr>registers := h\<rparr>"] exI[of _ "[]"]) (subst clear_rx.simps, auto simp: same_traffic_def)
  next
    fix h b
    assume r: "read_char_converting D R NonBlocking u =
        Some (Some (ucast (received b)), u\<lparr>registers := h, chars_read := chars_read u + 1\<rparr>)" "on V h"
      "b # rx V h @ line V h = rx V (registers u) @ line V (registers u)" "tx V h = tx V (registers u)"
    define u1 where "u1 = u\<lparr>registers := h, chars_read := chars_read u + 1\<rparr>"
    have "length (rx V (registers u1) @ line V (registers u1)) < length (rx V (registers u) @ line V (registers u))"
      unfolding r(3)[symmetric] by (simp add: u1_def)
    from less.hyps[OF this] r(2) obtain u' taken where
      e: "clear_rx D R u1 = Some u'" "rx V (registers u') = []" "taken @ line V (registers u') = rx V h @ line V h"
        "tx V (registers u') = tx V h" "chars_read u' = chars_read u + 1 + of_nat (length taken)"
      by (auto simp: u1_def)
    have "clear_rx D R u = clear_rx D R u1"
      using r(1) by (subst clear_rx.simps) (simp add: u1_def[symmetric])
    then show ?thesis using e r(3,4) by (intro exI[of _ u'] exI[of _ "b # taken"]) simp
  qed
qed

text \<open>C22: the interrupt handler of the serial port always returns. On a receive interrupt it takes every character
  that has arrived, also those that arrive while it runs, leaves the queue empty, and sends each of them back
  once and in order, a carriage return as a newline; the statistics count them. On any other interrupt it
  exchanges no character.\<close>
theorem uart_echoes:
  assumes "uart_laws D V" "reg_laws R" "on V (registers u)"
  defines "pending \<equiv> fst (reg_get D MIS (registers u))"
  shows "\<exists>u' taken. uart_handle_interrupt D R u = Some u' \<and>
    taken @ rx V (registers u') @ line V (registers u') = rx V (registers u) @ line V (registers u) \<and>
    tx V (registers u') = tx V (registers u) @ map received taken \<and>
    chars_read u' = chars_read u + of_nat (length taken) \<and> chars_written u' = chars_written u + of_nat (length taken) \<and>
    (if bit pending 4 \<or> bit pending 6 then rx V (registers u') = [] else taken = [])"
proof -
  define h where "h = reg_set D ICR (field_CLEAR R ICR_ALL) (snd (reg_get D MIS (registers u)))"
  have t: "same_traffic V (registers u) h" and "on V h"
    using uart_lawsD(4,5)[OF assms(1)] assms(3) unfolding h_def same_traffic_def by metis+
  have e: "uart_handle_interrupt D R u =
      (if bit pending 4 \<or> bit pending 6 then echo D R (u\<lparr>registers := h\<rparr>) else Some (u\<lparr>registers := h\<rparr>))"
    by (simp add: uart_handle_interrupt_def get_reg_def set_reg_def split_def Let_def pending_def h_def reg_lawsD[OF assms(2)] uart_fields)
  show ?thesis
  proof (cases "bit pending 4 \<or> bit pending 6")
    case True
    then show ?thesis using echo_ends[OF assms(1,2), of "u\<lparr>registers := h\<rparr>"] \<open>on V h\<close> t e
      by (fastforce simp: same_traffic_def)
  next
    case False
    then show ?thesis using e t by (intro exI[of _ "u\<lparr>registers := h\<rparr>"] exI[of _ "[]"]) (auto simp: same_traffic_def)
  qed
qed

text \<open>A device with a transmitter that is full for three polls after each character.\<close>

definition demo_uart :: "(UartRegister, u8 list \<times> u8 list \<times> nat) mmio" where
  "demo_uart = \<lparr>
     reg_get = (\<lambda>r (i, out, n). case r of
        FR \<Rightarrow> ((if i = [] then 16 else 0) OR (if n = 0 then 0 else 40), (i, out, n - 1))
      | DR \<Rightarrow> (if i = [] then 0 else ucast (hd i), (tl i, out, n))
      | _ \<Rightarrow> (if i = [] then 0 else 16, (i, out, n))),
     reg_set = (\<lambda>r v (i, out, n). case r of DR \<Rightarrow> (i, out @ [ucast v], 3) | _ \<Rightarrow> (i, out, n))\<rparr>"

definition demo_view :: "(u8 list \<times> u8 list \<times> nat) uart_view" where
  "demo_view = \<lparr>rx = fst, line = (\<lambda>_. []), tx = fst \<circ> snd, room = (\<lambda>_. True), wait = snd \<circ> snd, on = (\<lambda>_. True)\<rparr>"

lemma demo_uart_laws: "uart_laws demo_uart demo_view"
proof -
  have b: "bit (40 :: u32) 5" "bit (40 :: u32) 3" "\<not> bit (40 :: u32) 4" "\<not> bit (16 :: u32) 5" "\<not> bit (16 :: u32) 3" "bit (16 :: u32) 4"
    "\<not> bit (56 :: u32) 6" "bit (56 :: u32) 4" "bit (56 :: u32) 3" by simp_all
  show ?thesis
    unfolding uart_laws_def flag_law_def same_traffic_def
    by (auto simp: demo_uart_def demo_view_def split_def b)
qed

theorem uart_echoes_witness:
  "\<exists>u'. uart_handle_interrupt demo_uart std_regs (uart_new ([104, 105, 13], [], 2)) = Some u' \<and>
     rx demo_view (registers u') = [] \<and> tx demo_view (registers u') = [104, 105, 10] \<and>
     chars_read u' = 3 \<and> chars_written u' = 3"
  using uart_echoes[OF demo_uart_laws std_regs_laws, of "uart_new ([104, 105, 13], [], 2)"]
  by (auto simp: demo_view_def demo_uart_def uart_new_def received_def)

end
