(* ===== verification/Irq_Controller.thy ===== *)
theory Irq_Controller
  imports Device_Registers
begin

text \<open>
  The interrupt controller, \<^verbatim>\<open>src/kernel/src/drivers/irq/gicv2\<close>: the distributor (\<^verbatim>\<open>gicd.rs\<close>), the CPU interface
  (\<^verbatim>\<open>gicc.rs\<close>) and the table of drivers registered for each interrupt (\<^verbatim>\<open>mod.rs\<close>).

  One device state holds the registers of both parts. A driver is a value of a type \<open>'d\<close> with its
  \<^verbatim>\<open>handle_interrupt\<close> as a parameter: the controller only knows it through \<^verbatim>\<open>dyn Driver\<close>.
\<close>

section \<open>Registers\<close>

datatype SharedRegister =
    GICD_CTLR | TYPER | ISENABLER nat | ICENABLER nat | ISPENDR nat | IPRIORITYR nat | ITARGETSR nat

datatype BankedRegister = Banked_ISENABLER | Banked_ITARGETSR nat

datatype GiccRegister = GICC_CTLR | PMR | IAR | EOIR

datatype GicRegister = Shared SharedRegister | Banked BankedRegister | Cpu GiccRegister

text \<open>In the blocks an array stands under its first register, with the size of the whole array.\<close>

definition SharedRegisterBlock :: "SharedRegister block_entry list" where
  "SharedRegisterBlock =
     [Reg 0x000 GICD_CTLR 4, Reg 0x004 TYPER 4, Reserved 0x008, Reg 0x104 (ISENABLER 0) (4 * 31), Reg 0x180 (ICENABLER 0) (4 * 32),
      Reserved 0x108, Reg 0x200 (ISPENDR 0) (4 * 32), Reg 0x400 (IPRIORITYR 0) (4 * 255), Reg 0x820 (ITARGETSR 0) (4 * 248),
      END 0x824]"

definition BankedRegisterBlock :: "BankedRegister block_entry list" where
  "BankedRegisterBlock =
     [Reserved 0x000, Reg 0x100 Banked_ISENABLER 4, Reserved 0x104, Reg 0x800 (Banked_ITARGETSR 0) (4 * 8), END 0x804]"

definition GiccRegisterBlock :: "GiccRegister block_entry list" where
  "GiccRegisterBlock = [Reg 0x000 GICC_CTLR 4, Reg 0x004 PMR 4, Reserved 0x008, Reg 0x00C IAR 4, Reg 0x010 EOIR 4, END 0x014]"

definition GICD_CTLR_Enable :: field where "GICD_CTLR_Enable = (0, 1)"
definition TYPER_ITLinesNumber :: field where "TYPER_ITLinesNumber = (0, 5)"
definition ITARGETSR_Offset3 :: field where "ITARGETSR_Offset3 = (24, 8)"
definition ITARGETSR_Offset2 :: field where "ITARGETSR_Offset2 = (16, 8)"
definition ITARGETSR_Offset1 :: field where "ITARGETSR_Offset1 = (8, 8)"
definition ITARGETSR_Offset0 :: field where "ITARGETSR_Offset0 = (0, 8)"
definition GICC_CTLR_Enable :: field where "GICC_CTLR_Enable = (0, 1)"
definition PMR_Priority :: field where "PMR_Priority = (0, 8)"
definition IAR_InterruptID :: field where "IAR_InterruptID = (0, 10)"
definition EOIR_EOIINTID :: field where "EOIR_EOIINTID = (0, 10)"

lemmas gic_fields =
  GICD_CTLR_Enable_def TYPER_ITLinesNumber_def ITARGETSR_Offset3_def ITARGETSR_Offset2_def ITARGETSR_Offset1_def
  ITARGETSR_Offset0_def GICC_CTLR_Enable_def PMR_Priority_def IAR_InterruptID_def EOIR_EOIINTID_def

section \<open>The distributor\<close>

definition num_irqs :: "(GicRegister, 'h) mmio \<Rightarrow> reg_ops \<Rightarrow> 'h \<Rightarrow> usize \<times> 'h" where
  "num_irqs D R h =
     (let (v, h) = reg_get D (Shared TYPER) h in ((ucast (field_read R TYPER_ITLinesNumber v) + 1) * 32, h))"

text \<open>The slice of the target registers is the list of their indices.\<close>

definition implemented_itargets_slice :: "(GicRegister, 'h) mmio \<Rightarrow> reg_ops \<Rightarrow> 'h \<Rightarrow> (nat list \<times> 'h) outcome" where
  "implemented_itargets_slice D R h =
     (let (n, h) = num_irqs D R h
      in if n \<ge> 36
         then let (n, h) = num_irqs D R h; spi_itargetsr_max_index = drop_bit 2 (n - 32) - 1
              in if unat spi_itargetsr_max_index \<le> 248 then Inr ([0..<unat spi_itargetsr_max_index], h) else Inl IndexOutOfRange
         else Inl (AssertFailed ''self.num_irqs() >= 36''))"

definition local_gic_target_mask :: "(GicRegister, 'h) mmio \<Rightarrow> reg_ops \<Rightarrow> 'h \<Rightarrow> u32 \<times> 'h" where
  "local_gic_target_mask D R h =
     (let (v, h) = reg_get D (Banked (Banked_ITARGETSR 0)) h in (field_read R ITARGETSR_Offset0 v, h))"

definition target_all :: "reg_ops \<Rightarrow> u32 \<Rightarrow> u32" where
  "target_all R m =
     field_add R (field_add R (field_add R (field_val R ITARGETSR_Offset3 m) (field_val R ITARGETSR_Offset2 m))
       (field_val R ITARGETSR_Offset1 m)) (field_val R ITARGETSR_Offset0 m)"

definition route_all :: "(GicRegister, 'h) mmio \<Rightarrow> reg_ops \<Rightarrow> u32 \<Rightarrow> nat list \<Rightarrow> 'h \<Rightarrow> 'h" where
  "route_all D R m is = fold (\<lambda>i. reg_set D (Shared (ITARGETSR i)) (target_all R m)) is"

definition disable_all :: "(GicRegister, 'h) mmio \<Rightarrow> nat list \<Rightarrow> 'h \<Rightarrow> 'h" where
  "disable_all D is = fold (\<lambda>i. reg_set D (Shared (ICENABLER i)) (NOT 0)) is"

definition boot_core_init :: "(GicRegister, 'h) mmio \<Rightarrow> reg_ops \<Rightarrow> 'h \<Rightarrow> 'h outcome" where
  "boot_core_init D R h =
     (let (m, h) = local_gic_target_mask D R h in
      bindE (implemented_itargets_slice D R h) (\<lambda>(is, h).
      let h = route_all D R m is h;
          (n, h) = num_irqs D R h; top = unat (n div 32)
      in if 1 \<le> top \<and> top \<le> 32
         then let h = disable_all D [1..<top] h
              in Inr (reg_set D (Shared GICD_CTLR) (field_SET R GICD_CTLR_Enable) h)
         else Inl IndexOutOfRange))"

definition gicd_enable :: "(GicRegister, 'h) mmio \<Rightarrow> usize \<Rightarrow> 'h \<Rightarrow> 'h outcome" where
  "gicd_enable D irq_num h =
     (let enable_reg_index = drop_bit 5 irq_num; enable_bit = push_bit (unat (irq_num mod 32)) 1
      in if irq_num \<le> 31
         then let (v, h) = reg_get D (Banked Banked_ISENABLER) h in Inr (reg_set D (Banked Banked_ISENABLER) (v OR enable_bit) h)
         else let enable_reg_index_shared = unat (enable_reg_index - 1)
              in if enable_reg_index_shared < 31
                 then let (v, h) = reg_get D (Shared (ISENABLER enable_reg_index_shared)) h
                      in Inr (reg_set D (Shared (ISENABLER enable_reg_index_shared)) (v OR enable_bit) h)
                 else Inl IndexOutOfRange)"

section \<open>The CPU interface\<close>

definition priority_accept_all :: "(GicRegister, 'h) mmio \<Rightarrow> reg_ops \<Rightarrow> 'h \<Rightarrow> 'h" where
  "priority_accept_all D R h = reg_set D (Cpu PMR) (field_val R PMR_Priority 255) h"

definition gicc_enable :: "(GicRegister, 'h) mmio \<Rightarrow> reg_ops \<Rightarrow> 'h \<Rightarrow> 'h" where
  "gicc_enable D R h = reg_set D (Cpu GICC_CTLR) (field_SET R GICC_CTLR_Enable) h"

definition pending_irq_number :: "(GicRegister, 'h) mmio \<Rightarrow> reg_ops \<Rightarrow> 'h \<Rightarrow> usize \<times> 'h" where
  "pending_irq_number D R h = (let (v, h) = reg_get D (Cpu IAR) h in (ucast (field_read R IAR_InterruptID v), h))"

definition mark_completed :: "(GicRegister, 'h) mmio \<Rightarrow> reg_ops \<Rightarrow> u32 \<Rightarrow> 'h \<Rightarrow> 'h" where
  "mark_completed D R irq_num h = reg_set D (Cpu EOIR) (field_val R EOIR_EOIINTID irq_num) h"

section \<open>The controller\<close>

record ('h, 'd) GicV2 =
  gic_regs :: 'h
  irq_map :: "(usize, 'd list) btree"

definition gic_new :: "'h \<Rightarrow> ('h, 'd) GicV2" where
  "gic_new h = \<lparr>gic_regs = h, irq_map = []\<rparr>"

definition BOOT_CORE_ID :: nat where "BOOT_CORE_ID = 0"

definition gic_init :: "(GicRegister, 'h) mmio \<Rightarrow> reg_ops \<Rightarrow> nat \<Rightarrow> ('h, 'd) GicV2 \<Rightarrow> ('h, 'd) GicV2 outcome" where
  "gic_init D R cpu g =
     bindE (if cpu = BOOT_CORE_ID then boot_core_init D R (gic_regs g) else Inr (gic_regs g)) (\<lambda>h.
     Inr (g\<lparr>gic_regs := gicc_enable D R (priority_accept_all D R h)\<rparr>))"

definition register_and_enable_local_irq ::
  "(GicRegister, 'h) mmio \<Rightarrow> usize \<Rightarrow> 'd \<Rightarrow> ('h, 'd) GicV2 \<Rightarrow> ('h, 'd) GicV2 outcome" where
  "register_and_enable_local_irq D irq_num driver g =
     (let ds = (case bt_get (irq_map g) irq_num of None \<Rightarrow> [] | Some ds \<Rightarrow> ds);
          g = g\<lparr>irq_map := bt_insert irq_num (ds @ [driver]) (irq_map g)\<rparr>
      in bindE (gicd_enable D irq_num (gic_regs g)) (\<lambda>h. Inr (g\<lparr>gic_regs := h\<rparr>)))"

text \<open>A handler may also spin forever (\<open>None\<close>).\<close>

fun run_drivers :: "('d \<Rightarrow> 's \<Rightarrow> 's outcome option) \<Rightarrow> 'd list \<Rightarrow> 's \<Rightarrow> 's outcome option" where
  "run_drivers handle_interrupt [] s = Some (Inr s)"
| "run_drivers handle_interrupt (d # ds) s =
     (case handle_interrupt d s of
        None \<Rightarrow> None
      | Some (Inl p) \<Rightarrow> Some (Inl p)
      | Some (Inr s') \<Rightarrow> run_drivers handle_interrupt ds s')"

definition handle_pending_irqs ::
  "(GicRegister, 'h) mmio \<Rightarrow> reg_ops \<Rightarrow> ('d \<Rightarrow> 's \<Rightarrow> 's outcome option) \<Rightarrow> ('h, 'd) GicV2 \<Rightarrow> 's \<Rightarrow>
   (('h, 'd) GicV2 \<times> 's) outcome option" where
  "handle_pending_irqs D R handle_interrupt g s =
     (let (irq_number, h) = pending_irq_number D R (gic_regs g); g = g\<lparr>gic_regs := h\<rparr>
      in if irq_number = 1023 then Some (Inr (g, s))
         else case bt_get (irq_map g) irq_number of
                None \<Rightarrow> Some (Inl (Panicked ''No handler registered for IRQ''))
              | Some drivers \<Rightarrow>
                  map_option (\<lambda>r. bindE r (\<lambda>s.
                    Inr (g\<lparr>gic_regs := mark_completed D R (ucast irq_number) (gic_regs g)\<rparr>, s)))
                  (run_drivers handle_interrupt drivers s))"

section \<open>What the device promises\<close>

text \<open>The interrupts that are implemented, the number of groups of 32 beyond the first, the target mask of the
  core that runs; and of a state the enabled interrupts, the targets of each, and those acknowledged
  but not completed.\<close>

record 'h gic_view =
  implemented :: "nat set"
  groups :: nat
  core_mask :: u8
  enabled :: "'h \<Rightarrow> nat set"
  target :: "'h \<Rightarrow> nat \<Rightarrow> u8"
  active :: "'h \<Rightarrow> nat set"

definition gic_same :: "'h gic_view \<Rightarrow> 'h \<Rightarrow> 'h \<Rightarrow> bool" where
  "gic_same V h h' \<longleftrightarrow> enabled V h' = enabled V h \<and> target V h' = target V h \<and> active V h' = active V h"

text \<open>The interrupts whose bit is set in a register for those from \<open>b\<close> on.\<close>

definition irqs_of :: "nat \<Rightarrow> u32 \<Rightarrow> nat set" where
  "irqs_of b v = {b + k | k. k < 32 \<and> bit v k}"

definition enable_law :: "(GicRegister, 'h) mmio \<Rightarrow> 'h gic_view \<Rightarrow> GicRegister \<Rightarrow> nat \<Rightarrow> 'h \<Rightarrow> bool" where
  "enable_law D V r b h \<longleftrightarrow>
     (let (v, h') = reg_get D r h in gic_same V h h' \<and> irqs_of b v = enabled V h \<inter> {b..<b + 32}) \<and>
     (\<forall>v. let h' = reg_set D r v h in
        enabled V h' = enabled V h \<union> irqs_of b v \<inter> implemented V \<and> target V h' = target V h \<and> active V h' = active V h)"

definition gicd_law :: "(GicRegister, 'h) mmio \<Rightarrow> 'h gic_view \<Rightarrow> 'h \<Rightarrow> bool" where
  "gicd_law D V h \<longleftrightarrow>
     (let (v, h') = reg_get D (Shared TYPER) h in gic_same V h h' \<and> field_get (0, 5) v = of_nat (groups V)) \<and>
     (let (v, h') = reg_get D (Banked (Banked_ITARGETSR 0)) h in gic_same V h h' \<and> field_get (0, 8) v = ucast (core_mask V)) \<and>
     enable_law D V (Banked Banked_ISENABLER) 0 h \<and>
     (\<forall>i < 31. enable_law D V (Shared (ISENABLER i)) (32 * (i + 1)) h) \<and>
     (\<forall>i < 32. \<forall>v. let h' = reg_set D (Shared (ICENABLER i)) v h in
        enabled V h' = enabled V h - irqs_of (32 * i) v \<and> target V h' = target V h \<and> active V h' = active V h) \<and>
     (\<forall>i < 248. \<forall>v. let h' = reg_set D (Shared (ITARGETSR i)) v h in
        enabled V h' = enabled V h \<and> active V h' = active V h \<and>
        (\<forall>n \<in> implemented V. target V h' n = (if n div 4 = 8 + i then ucast (drop_bit (8 * (n mod 4)) v) else target V h n))) \<and>
     (\<forall>v. gic_same V h (reg_set D (Shared GICD_CTLR) v h)) \<and> enabled V h \<subseteq> implemented V"

definition gicd_laws :: "(GicRegister, 'h) mmio \<Rightarrow> 'h gic_view \<Rightarrow> bool" where
  "gicd_laws D V \<longleftrightarrow> groups V < 32 \<and> implemented V \<subseteq> {..<32 * (groups V + 1)} \<and> (\<forall>h. gicd_law D V h)"

definition gicc_laws :: "(GicRegister, 'h) mmio \<Rightarrow> 'h gic_view \<Rightarrow> bool" where
  "gicc_laws D V \<longleftrightarrow> (\<forall>h.
     (let (v, h') = reg_get D (Cpu IAR) h; n = unat (field_get (0, 10) v) in
        enabled V h' = enabled V h \<and> target V h' = target V h \<and>
        active V h' = (if n = 1023 then active V h else insert n (active V h))) \<and>
     (\<forall>v. let h' = reg_set D (Cpu EOIR) v h in
        enabled V h' = enabled V h \<and> target V h' = target V h \<and> active V h' = active V h - {unat (field_get (0, 10) v)}) \<and>
     (\<forall>v. gic_same V h (reg_set D (Cpu PMR) v h)) \<and>
     (\<forall>v. gic_same V h (reg_set D (Cpu GICC_CTLR) v h)))"

lemma irqs_of_or: "irqs_of b (v OR w) = irqs_of b v \<union> irqs_of b w"
  by (auto simp: irqs_of_def bit_simps)

lemma irqs_of_single: "k < 32 \<Longrightarrow> irqs_of b (2 ^ k) = {b + k}"
  by (auto simp: irqs_of_def bit_simps)

lemma irqs_of_all: "irqs_of b (- 1) = {b..<b + 32}"
  by (auto simp: irqs_of_def bit_simps) (metis le_add_diff_inverse less_diff_conv2 add.commute)

lemma enable_law_sets:
  assumes "enable_law D V r b h" "reg_get D r h = (v, h1)" "enable_law D V r b h1" "k < 32"
  defines "h' \<equiv> reg_set D r (v OR push_bit k 1) h1"
  shows "enabled V h' = enabled V h \<union> {b + k} \<inter> implemented V"
    "target V h' = target V h" "active V h' = active V h"
  using assms by (auto simp: enable_law_def gic_same_def irqs_of_or irqs_of_single Let_def)

lemma gicd_lawsD:
  assumes "gicd_laws D V"
  shows "groups V < 32" and "implemented V \<subseteq> {..<32 * (groups V + 1)}"
    and "reg_get D (Shared TYPER) h = (v, h') \<Longrightarrow> gic_same V h h' \<and> field_get (0, 5) v = of_nat (groups V)"
    and "reg_get D (Banked (Banked_ITARGETSR 0)) h = (v, h') \<Longrightarrow> gic_same V h h' \<and> field_get (0, 8) v = ucast (core_mask V)"
    and "enable_law D V (Banked Banked_ISENABLER) 0 h"
    and "i < 31 \<Longrightarrow> enable_law D V (Shared (ISENABLER i)) (32 * (i + 1)) h"
    and "i < 32 \<Longrightarrow> enabled V (reg_set D (Shared (ICENABLER i)) v h) = enabled V h - irqs_of (32 * i) v \<and>
      target V (reg_set D (Shared (ICENABLER i)) v h) = target V h \<and> active V (reg_set D (Shared (ICENABLER i)) v h) = active V h"
    and "i < 248 \<Longrightarrow> enabled V (reg_set D (Shared (ITARGETSR i)) v h) = enabled V h \<and>
      active V (reg_set D (Shared (ITARGETSR i)) v h) = active V h"
    and "i < 248 \<Longrightarrow> n \<in> implemented V \<Longrightarrow> target V (reg_set D (Shared (ITARGETSR i)) v h) n =
      (if n div 4 = 8 + i then ucast (drop_bit (8 * (n mod 4)) v) else target V h n)"
    and "gic_same V h (reg_set D (Shared GICD_CTLR) v h)"
    and "enabled V h \<subseteq> implemented V"
  using assms assms[unfolded gicd_laws_def, THEN conjunct2, THEN conjunct2, THEN spec, of h, unfolded gicd_law_def Let_def]
  by (simp_all add: gicd_laws_def)

lemma gicd_enable_exact:
  assumes "gicd_laws D V"
  shows "irq_num < 1024 \<Longrightarrow> \<exists>h'. gicd_enable D irq_num h = Inr h' \<and>
      enabled V h' = enabled V h \<union> {unat irq_num} \<inter> implemented V \<and> target V h' = target V h \<and> active V h' = active V h"
    and "irq_num \<ge> 1024 \<Longrightarrow> gicd_enable D irq_num h = Inl IndexOutOfRange"
proof -
  define k where "k = unat (irq_num mod 32)"
  have k: "k = unat irq_num mod 32" "k < 32" by (simp_all add: k_def unat_mod)
  have lo: "irq_num \<le> 31 \<longleftrightarrow> unat irq_num < 32" by (simp add: word_le_nat_alt less_Suc_eq_le[symmetric])
  have d: "unat (drop_bit 5 irq_num) = unat irq_num div 32" by (simp add: drop_bit_eq_div unat_div)
  have idx: "unat (drop_bit 5 irq_num - 1) = unat irq_num div 32 - 1" if "\<not> irq_num \<le> 31"
  proof -
    have "1 \<le> unat irq_num div 32" using that lo by simp
    then have "1 \<le> drop_bit 5 irq_num" by (simp only: word_le_nat_alt d unat_1)
    then show ?thesis by (simp only: unat_sub d unat_1)
  qed
  show "irq_num < 1024 \<Longrightarrow> \<exists>h'. gicd_enable D irq_num h = Inr h' \<and>
      enabled V h' = enabled V h \<union> {unat irq_num} \<inter> implemented V \<and> target V h' = target V h \<and> active V h' = active V h"
  proof (cases "irq_num \<le> 31")
    case True
    obtain v h1 where g: "reg_get D (Banked Banked_ISENABLER) h = (v, h1)" by fastforce
    have "0 + k = unat irq_num" using True lo k by simp
    then show ?thesis using True g enable_law_sets[OF gicd_lawsD(5)[OF assms] g gicd_lawsD(5)[OF assms] k(2)]
      by (simp add: gicd_enable_def k_def)
  next
    case False
    assume lt: "irq_num < 1024"
    define i where "i = unat irq_num div 32 - 1"
    have i: "i < 31" "32 * (i + 1) + k = unat irq_num"
      using lt False lo k by (auto simp: i_def word_less_nat_alt)
    obtain v h1 where g: "reg_get D (Shared (ISENABLER i)) h = (v, h1)" by fastforce
    then show ?thesis using i False enable_law_sets[OF gicd_lawsD(6)[OF assms i(1)] g gicd_lawsD(6)[OF assms i(1)] k(2)]
      by (simp add: gicd_enable_def k_def[symmetric] idx[OF False, folded i_def] Let_def)
  qed
  show "gicd_enable D irq_num h = Inl IndexOutOfRange" if big: "irq_num \<ge> 1024"
  proof -
    have "1024 \<le> unat irq_num" using big by (simp add: word_le_nat_alt)
    then have "\<not> irq_num \<le> 31" "\<not> unat irq_num div 32 - 1 < 31" by (simp_all add: lo)
    then have "\<not> irq_num \<le> 31" "\<not> unat (drop_bit 5 irq_num - 1) < 31" using idx by metis+
    then show ?thesis by (simp only: gicd_enable_def Let_def if_False)
  qed
qed

section \<open>Start of the distributor\<close>

lemma num_irqs_eq:
  assumes "gicd_laws D V" "reg_laws R"
  obtains h' where "num_irqs D R h = (of_nat (32 * (groups V + 1)), h')" "gic_same V h h'"
proof -
  obtain v h' where g: "reg_get D (Shared TYPER) h = (v, h')" by fastforce
  note L = gicd_lawsD(3)[OF assms(1) g]
  have "ucast (of_nat (groups V) :: u32) = (of_nat (groups V) :: usize)"
    using gicd_lawsD(1)[OF assms(1)] by (intro word_unat_eq_iff[THEN iffD2]) (simp add: unat_of_nat unsigned_ucast_eq take_bit_nat_eq_self)
  then have "num_irqs D R h = (of_nat (32 * (groups V + 1)), h')"
    using g L by (simp add: num_irqs_def reg_lawsD[OF assms(2)] gic_fields algebra_simps)
  then show ?thesis using that L by blast
qed

lemma target_all_byte:
  assumes "reg_laws R" "j < 4"
  shows "ucast (drop_bit (8 * j) (target_all R (ucast m))) = (m :: u8)"
proof -
  have "j = 0 \<or> j = 1 \<or> j = 2 \<or> j = 3" using assms(2) by auto
  then show ?thesis
    by (elim disjE; intro bit_eqI) (auto simp: target_all_def reg_lawsD[OF assms(1)] gic_fields bit_simps)
qed

lemma route_fold:
  assumes "gicd_laws D V" "reg_laws R" "m \<le> 248"
  shows "enabled V (route_all D R (ucast (core_mask V)) [0..<m] h) = enabled V h"
    "active V (route_all D R (ucast (core_mask V)) [0..<m] h) = active V h"
    "n \<in> implemented V \<Longrightarrow> target V (route_all D R (ucast (core_mask V)) [0..<m] h) n = (if 8 \<le> n div 4 \<and> n div 4 < 8 + m then core_mask V else target V h n)"
  using assms(3) unfolding route_all_def
proof (induction m)
  case (Suc m)
  {
    case 1 then show ?case using Suc gicd_lawsD(8)[OF assms(1), of m] by simp
  next
    case 2 then show ?case using Suc gicd_lawsD(8)[OF assms(1), of m] by simp
  next
    case 3
    then show ?case using Suc(3) gicd_lawsD(9)[OF assms(1), of m] target_all_byte[OF assms(2), of "n mod 4" "core_mask V"]
      by (auto simp: less_Suc_eq)
  }
qed auto

lemma disable_fold:
  assumes "gicd_laws D V" "m \<le> 32"
  shows "enabled V (disable_all D [1..<m] h) = enabled V h - {32..<32 * m}"
    "active V (disable_all D [1..<m] h) = active V h" "target V (disable_all D [1..<m] h) = target V h"
  using assms(2) unfolding disable_all_def
proof (induction m)
  case (Suc m)
  {
    case 1 then show ?case using Suc(1) gicd_lawsD(7)[OF assms(1), of m] by (cases "m = 0") (auto simp: irqs_of_all)
  next
    case 2 then show ?case using Suc(2) gicd_lawsD(7)[OF assms(1), of m] by (cases "m = 0") simp_all
  next
    case 3 then show ?case using Suc(3) gicd_lawsD(7)[OF assms(1), of m] by (cases "m = 0") simp_all
  }
qed simp_all

lemma unat_irqs: "k < 32 \<Longrightarrow> unat (of_nat (32 * (k + 1)) :: usize) = 32 * (k + 1)"
  by (simp only: unat_of_nat) simp

lemma itargets_slice_eq:
  assumes "gicd_laws D V" "reg_laws R"
  shows "groups V = 0 \<Longrightarrow> implemented_itargets_slice D R h = Inl (AssertFailed ''self.num_irqs() >= 36'')"
    and "0 < groups V \<Longrightarrow> \<exists>h'. implemented_itargets_slice D R h = Inr ([0..<8 * groups V - 1], h') \<and> gic_same V h h'"
proof -
  obtain h1 where n1: "num_irqs D R h = (of_nat (32 * (groups V + 1)), h1)" "gic_same V h h1" using num_irqs_eq[OF assms] .
  obtain h2 where n2: "num_irqs D R h1 = (of_nat (32 * (groups V + 1)), h2)" "gic_same V h1 h2" using num_irqs_eq[OF assms] .
  have lt: "groups V < 32" using gicd_lawsD(1)[OF assms(1)] .
  have ge: "(36 :: usize) \<le> of_nat (32 * (groups V + 1)) \<longleftrightarrow> 0 < groups V"
    unfolding word_le_nat_alt unat_irqs[OF lt] by auto
  then show "groups V = 0 \<Longrightarrow> implemented_itargets_slice D R h = Inl (AssertFailed ''self.num_irqs() >= 36'')"
    using n1(1) by (simp add: implemented_itargets_slice_def)
  have max: "unat (drop_bit 2 (of_nat (32 * (groups V + 1)) - 32 :: usize) - 1) = 8 * groups V - 1" if "0 < groups V"
  proof -
    have "unat (of_nat (32 * groups V) :: usize) = 32 * groups V" "unat (of_nat (8 * groups V) :: usize) = 8 * groups V"
      using lt by (simp_all only: unat_of_nat) simp_all
    moreover have "of_nat (32 * (groups V + 1)) - 32 = (of_nat (32 * groups V) :: usize)" by simp
    ultimately have "drop_bit 2 (of_nat (32 * (groups V + 1)) - 32 :: usize) = of_nat (8 * groups V)"
      by (simp only: word_unat_eq_iff drop_bit_eq_div unat_div) simp
    moreover have "(of_nat (8 * groups V) - 1 :: usize) = of_nat (8 * groups V - 1)" using that by simp
    ultimately show ?thesis using lt by (simp only: unat_of_nat) simp
  qed
  show "\<exists>h'. implemented_itargets_slice D R h = Inr ([0..<8 * groups V - 1], h') \<and> gic_same V h h'" if "0 < groups V"
  proof -
    have "gic_same V h h2" using n1(2) n2(2) by (simp add: gic_same_def)
    moreover have "implemented_itargets_slice D R h = Inr ([0..<8 * groups V - 1], h2)"
      unfolding implemented_itargets_slice_def n1 prod.case Let_def n2 max[OF that] using ge that lt by simp
    ultimately show ?thesis by blast
  qed
qed

lemma boot_core_effect:
  assumes "gicd_laws D V" "reg_laws R"
  shows "groups V = 0 \<Longrightarrow> boot_core_init D R h = Inl (AssertFailed ''self.num_irqs() >= 36'')"
    and "0 < groups V \<Longrightarrow> \<exists>h'. boot_core_init D R h = Inr h' \<and> active V h' = active V h \<and>
      enabled V h' = enabled V h - {32..<32 * (groups V + 1)} \<and>
      (\<forall>n \<in> implemented V. target V h' n =
         (if 32 \<le> n \<and> n < 32 * (groups V + 1) - 4 then core_mask V else target V h n))"
proof -
  obtain v h1 where g: "reg_get D (Banked (Banked_ITARGETSR 0)) h = (v, h1)" by fastforce
  note M = gicd_lawsD(4)[OF assms(1) g]
  have mk: "local_gic_target_mask D R h = (ucast (core_mask V), h1)"
    using g M by (simp add: local_gic_target_mask_def reg_lawsD[OF assms(2)] gic_fields)
  then show "groups V = 0 \<Longrightarrow> boot_core_init D R h = Inl (AssertFailed ''self.num_irqs() >= 36'')"
    using itargets_slice_eq(1)[OF assms] by (simp add: boot_core_init_def)
  assume pos: "0 < groups V"
  obtain h2 where s: "implemented_itargets_slice D R h1 = Inr ([0..<8 * groups V - 1], h2)" "gic_same V h1 h2"
    using itargets_slice_eq(2)[OF assms pos] by blast
  define h3 where "h3 = route_all D R (ucast (core_mask V)) [0..<8 * groups V - 1] h2"
  obtain h4 where n: "num_irqs D R h3 = (of_nat (32 * (groups V + 1)), h4)" "gic_same V h3 h4" using num_irqs_eq[OF assms] .
  have lt: "groups V < 32" using gicd_lawsD(1)[OF assms(1)] .
  have top: "unat (of_nat (32 * (groups V + 1)) div 32 :: usize) = groups V + 1"
    unfolding unat_div unat_irqs[OF lt] by simp
  define h5 where "h5 = disable_all D [1..<groups V + 1] h4"
  define h6 where "h6 = reg_set D (Shared GICD_CTLR) (field_SET R GICD_CTLR_Enable) h5"
  have "boot_core_init D R h = Inr h6"
    unfolding boot_core_init_def mk prod.case Let_def s bindE_simps h3_def[symmetric] n top using lt
    by (simp add: h6_def h5_def)
  moreover have "8 * groups V - 1 \<le> 248" "groups V + 1 \<le> 32" using lt by auto
  note F = route_fold[OF assms this(1), where h = h2, folded h3_def] disable_fold[OF assms(1) this(2), where h = h4, folded h5_def]
    gicd_lawsD(10)[OF assms(1), where h = h5 and v = "field_SET R GICD_CTLR_Enable", folded h6_def]
  have "active V h6 = active V h" "enabled V h6 = enabled V h - {32..<32 * (groups V + 1)}"
    using F M s(2) n(2) by (simp_all add: gic_same_def)
  moreover have "target V h6 n = (if 32 \<le> n \<and> n < 32 * (groups V + 1) - 4 then core_mask V else target V h n)"
    if "n \<in> implemented V" for n
    using F(3)[OF that] F(6,7) M s(2) n(2) pos by (auto simp: gic_same_def)
  ultimately show "\<exists>h'. boot_core_init D R h = Inr h' \<and> active V h' = active V h \<and>
      enabled V h' = enabled V h - {32..<32 * (groups V + 1)} \<and>
      (\<forall>n \<in> implemented V. target V h' n =
         (if 32 \<le> n \<and> n < 32 * (groups V + 1) - 4 then core_mask V else target V h n))" by blast
qed

text \<open>starting the distributor disables every shared interrupt the hardware has, and routes them to the
  core that runs, all but the last four: those keep the targets they had. It stops the kernel on a
  distributor without shared interrupts. Private interrupts are untouched.\<close>
lemma boot_core_routes:
  assumes "gicd_laws D V" "reg_laws R"
  shows "if groups V = 0 then boot_core_init D R h = Inl (AssertFailed ''self.num_irqs() >= 36'')
    else \<exists>h'. boot_core_init D R h = Inr h' \<and> active V h' = active V h \<and>
      enabled V h' = enabled V h - {32..<32 * (groups V + 1)} \<and>
      (\<forall>n \<in> implemented V. target V h' n =
         (if 32 \<le> n \<and> n < 32 * (groups V + 1) - 4 then core_mask V else target V h n))"
  using boot_core_effect[OF assms] by simp

section \<open>Interrupts reach their drivers\<close>

definition drivers_of :: "('h, 'd) GicV2 \<Rightarrow> usize \<Rightarrow> 'd list" where
  "drivers_of g n = (case bt_get (irq_map g) n of None \<Rightarrow> [] | Some ds \<Rightarrow> ds)"

lemma register_effect:
  assumes "gicd_laws D V" "bt_ok (irq_map g)" "irq_num < 1024"
  shows "\<exists>g'. register_and_enable_local_irq D irq_num d g = Inr g' \<and> bt_ok (irq_map g') \<and>
    bt_get (irq_map g') = (bt_get (irq_map g))(irq_num \<mapsto> drivers_of g irq_num @ [d]) \<and>
    enabled V (gic_regs g') = enabled V (gic_regs g) \<union> {unat irq_num} \<inter> implemented V \<and>
    active V (gic_regs g') = active V (gic_regs g)"
  using gicd_enable_exact(1)[OF assms(1,3), of "gic_regs g"] assms(2)
  by (auto simp: register_and_enable_local_irq_def drivers_of_def bt_get_insert Let_def)

lemma pending_effect:
  assumes "gicc_laws D V" "reg_laws R" "pending_irq_number D R h = (n, h')"
  shows "unat n < 1024" "enabled V h' = enabled V h"
    "active V h' = (if n = 1023 then active V h else insert (unat n) (active V h))"
proof -
  obtain v where g: "reg_get D (Cpu IAR) h = (v, h')" and n: "n = ucast (field_get (0, 10) v)"
    using assms(3) by (auto simp: pending_irq_number_def reg_lawsD[OF assms(2)] gic_fields split: prod.splits)
  have "unat (field_get (0, 10) v) < 1024"
    using take_bit_nat_less_exp[of 10 "unat v"] by (simp add: field_get_def take_bit_eq_mask[symmetric] unsigned_take_bit_eq)
  moreover from this have "unat n = unat (field_get (0, 10) v)" by (simp add: n unsigned_ucast_eq take_bit_nat_eq_self)
  moreover have "n = 1023 \<longleftrightarrow> unat n = 1023" by (simp add: word_unat_eq_iff)
  ultimately show "unat n < 1024" "enabled V h' = enabled V h"
    "active V h' = (if n = 1023 then active V h else insert (unat n) (active V h))"
    using assms(1)[unfolded gicc_laws_def Let_def, rule_format, of h] g by auto
qed

lemma completed_effect:
  assumes "gicc_laws D V" "reg_laws R" "unat (n :: usize) < 1024"
  shows "active V (mark_completed D R (ucast n) h) = active V h - {unat n}"
    "enabled V (mark_completed D R (ucast n) h) = enabled V h"
proof -
  have "unat (ucast n :: u32) = unat n" using assms(3) by (simp add: unsigned_ucast_eq take_bit_nat_eq_self)
  then have "unat (field_get (0, 10) (field_val R EOIR_EOIINTID (ucast n))) = unat n"
    using assms(3) by (simp add: field_get_def reg_lawsD[OF assms(2)] gic_fields take_bit_eq_mask[symmetric] unsigned_take_bit_eq take_bit_nat_eq_self)
  then show "active V (mark_completed D R (ucast n) h) = active V h - {unat n}"
    "enabled V (mark_completed D R (ucast n) h) = enabled V h"
    using assms(1)[unfolded gicc_laws_def Let_def, rule_format, of h] by (auto simp: mark_completed_def)
qed

text \<open>C14: a driver that is registered for an interrupt is reached by it. Registration enables exactly that interrupt;
  when the controller then reports it, the drivers registered for it run one after the other in the order of
  registration, the new one last, and after them the interrupt is completed, so no
  acknowledged interrupt stays active. The spurious number 1023 changes nothing, and a number without a
  driver stops the kernel.\<close>
theorem irq_reaches_driver:
  assumes laws: "gicd_laws D V" "gicc_laws D V" "reg_laws R"
    and g: "bt_ok (irq_map g)" "register_and_enable_local_irq D irq_num d g = Inr g1"
    and ack: "pending_irq_number D R (gic_regs g1) = (n, h)"
  shows "enabled V (gic_regs g1) = enabled V (gic_regs g) \<union> {unat irq_num} \<inter> implemented V \<and>
    (if n = 1023 then handle_pending_irqs D R H g1 s = Some (Inr (g1\<lparr>gic_regs := h\<rparr>, s)) \<and> active V h = active V (gic_regs g)
     else if n = irq_num \<or> drivers_of g n \<noteq> [] then
       \<exists>g2. handle_pending_irqs D R H g1 s =
           map_option (\<lambda>r. bindE r (\<lambda>s'. Inr (g2, s'))) (run_drivers H (drivers_of g n @ (if n = irq_num then [d] else [])) s) \<and>
         irq_map g2 = irq_map g1 \<and> enabled V (gic_regs g2) = enabled V (gic_regs g1) \<and>
         active V (gic_regs g2) = active V (gic_regs g) - {unat n}
     else bt_get (irq_map g) n = None \<longrightarrow>
       handle_pending_irqs D R H g1 s = Some (Inl (Panicked ''No handler registered for IRQ'')))"
proof -
  have "irq_num < 1024"
  proof (rule ccontr)
    assume "\<not> irq_num < 1024"
    then show False using gicd_enable_exact(2)[OF laws(1), of irq_num "gic_regs g"] g(2)
      by (simp add: register_and_enable_local_irq_def not_less)
  qed
  then have R: "bt_get (irq_map g1) = (bt_get (irq_map g))(irq_num \<mapsto> drivers_of g irq_num @ [d])"
    "enabled V (gic_regs g1) = enabled V (gic_regs g) \<union> {unat irq_num} \<inter> implemented V"
    "active V (gic_regs g1) = active V (gic_regs g)"
    using register_effect[OF laws(1) g(1), of irq_num d] g(2) by auto
  note P = pending_effect[OF laws(2,3) ack]
  show ?thesis
  proof (cases "n = 1023")
    case True
    then show ?thesis using R P ack by (simp add: handle_pending_irqs_def)
  next
    case False
    define g2 where "g2 = g1\<lparr>gic_regs := mark_completed D R (ucast n) h\<rparr>"
    have g2: "active V (gic_regs g2) = active V (gic_regs g) - {unat n}" "enabled V (gic_regs g2) = enabled V (gic_regs g1)" "irq_map g2 = irq_map g1"
      using completed_effect[OF laws(2,3) P(1), of h] P False R(3) by (auto simp: g2_def)
    have run: "handle_pending_irqs D R H g1 s =
        (case bt_get (irq_map g1) n of None \<Rightarrow> Some (Inl (Panicked ''No handler registered for IRQ''))
         | Some ds \<Rightarrow> map_option (\<lambda>r. bindE r (\<lambda>s'. Inr (g2, s'))) (run_drivers H ds s))"
      using False ack by (simp add: handle_pending_irqs_def g2_def Let_def split: option.split)
    show ?thesis
    proof (cases "n = irq_num \<or> drivers_of g n \<noteq> []")
      case True
      then have "bt_get (irq_map g1) n = Some (drivers_of g n @ (if n = irq_num then [d] else []))"
        using R(1) by (auto simp: drivers_of_def split: option.splits)
      then have "handle_pending_irqs D R H g1 s = map_option (\<lambda>r. bindE r (\<lambda>s'. Inr (g2, s')))
          (run_drivers H (drivers_of g n @ (if n = irq_num then [d] else [])) s)"
        using run by simp
      then show ?thesis unfolding if_not_P[OF False] if_P[OF True] using R(2) g2 by blast
    next
      case unregistered: False
      then have "bt_get (irq_map g1) n = bt_get (irq_map g) n" using R(1) by simp
      then show ?thesis unfolding if_not_P[OF False] if_not_P[OF unregistered] using R(2) run by simp
    qed
  qed
qed

section \<open>A device\<close>

text \<open>A controller with 64 interrupts: its enable bits, target registers, active interrupts, and the numbers it
  will report.\<close>

record demo_gic_state =
  en0 :: u32
  en1 :: u32
  tgt :: "nat \<Rightarrow> u32"
  act :: "nat set"
  reports :: "u32 list"

definition demo_gic :: "(GicRegister, demo_gic_state) mmio" where
  "demo_gic = \<lparr>
     reg_get = (\<lambda>r h. case r of
        Shared TYPER \<Rightarrow> (1, h)
      | Banked (Banked_ITARGETSR _) \<Rightarrow> (1, h)
      | Banked Banked_ISENABLER \<Rightarrow> (en0 h, h)
      | Shared (ISENABLER i) \<Rightarrow> (if i = 0 then en1 h else 0, h)
      | Cpu IAR \<Rightarrow> (case reports h of [] \<Rightarrow> (1023, h)
          | v # vs \<Rightarrow> (v, h\<lparr>reports := vs, act := (let n = unat (field_get (0, 10) v) in if n = 1023 then act h else insert n (act h))\<rparr>))
      | _ \<Rightarrow> (0, h)),
     reg_set = (\<lambda>r v h. case r of
        Banked Banked_ISENABLER \<Rightarrow> h\<lparr>en0 := en0 h OR v\<rparr>
      | Shared (ISENABLER i) \<Rightarrow> if i = 0 then h\<lparr>en1 := en1 h OR v\<rparr> else h
      | Shared (ICENABLER i) \<Rightarrow> if i = 0 then h\<lparr>en0 := en0 h AND NOT v\<rparr> else if i = 1 then h\<lparr>en1 := en1 h AND NOT v\<rparr> else h
      | Shared (ITARGETSR i) \<Rightarrow> h\<lparr>tgt := (tgt h)(i := v)\<rparr>
      | Cpu EOIR \<Rightarrow> h\<lparr>act := act h - {unat (field_get (0, 10) v)}\<rparr>
      | _ \<Rightarrow> h)\<rparr>"

definition demo_gic_view :: "demo_gic_state gic_view" where
  "demo_gic_view = \<lparr>implemented = {..<64}, groups = 1, core_mask = 1,
     enabled = (\<lambda>h. irqs_of 0 (en0 h) \<union> irqs_of 32 (en1 h)),
     target = (\<lambda>h n. if n < 32 then 1 else ucast (drop_bit (8 * (n mod 4)) (tgt h (n div 4 - 8)))),
     active = act\<rparr>"

lemma irqs_of_range: "irqs_of b v \<subseteq> {b..<b + 32}"
  by (auto simp: irqs_of_def)

lemma irqs_of_0 [simp]: "irqs_of b 0 = {}"
  by (simp add: irqs_of_def)

lemma irqs_of_clear: "irqs_of b (v AND NOT w) = irqs_of b v - irqs_of b w"
  by (auto simp: irqs_of_def bit_simps)

lemma irqs_of_iff: "n \<in> irqs_of b v \<longleftrightarrow> b \<le> n \<and> n < b + 32 \<and> bit v (n - b)"
  by (auto simp: irqs_of_def) (metis le_add_diff_inverse less_diff_conv2 add.commute)

lemma demo_gicd_laws: "gicd_laws demo_gic demo_gic_view"
proof -
  have one: "field_get (0, 5) 1 = 1" "field_get (0, 8) 1 = 1" by (simp_all add: field_get_def mask_eq_exp_minus_1)
  show ?thesis
    unfolding gicd_laws_def gicd_law_def enable_law_def gic_same_def
    by (auto simp: demo_gic_def demo_gic_view_def irqs_of_or irqs_of_clear one Let_def irqs_of_iff split: if_splits)
qed

lemma demo_gicc_laws: "gicc_laws demo_gic demo_gic_view"
proof -
  have "field_get (0, 10) (1023 :: u32) = 1023" by (simp add: field_get_def mask_eq_exp_minus_1)
  then show ?thesis
    by (auto simp: gicc_laws_def gic_same_def demo_gic_def demo_gic_view_def Let_def split: list.splits)
qed

text \<open>A driver registered for interrupt 33, which the device reports: its handler adds the driver to a log.\<close>

theorem irq_reaches_driver_witness:
  "\<exists>g1 g2. register_and_enable_local_irq demo_gic 33 ''uart''
      (gic_new \<lparr>en0 = 0, en1 = 0, tgt = (\<lambda>_. 0), act = {}, reports = [33]\<rparr>) = Inr g1 \<and>
     enabled demo_gic_view (gic_regs g1) = {33} \<and>
     handle_pending_irqs demo_gic std_regs (\<lambda>d s. Some (Inr (s @ [d]))) g1 [] = Some (Inr (g2, [''uart''])) \<and>
     act (gic_regs g2) = {}"
proof -
  let ?h = "\<lparr>en0 = 0, en1 = 0, tgt = (\<lambda>_. 0), act = {}, reports = [33]\<rparr>"
  obtain g1 where g1: "register_and_enable_local_irq demo_gic 33 ''uart'' (gic_new ?h) = Inr g1"
    by (simp add: register_and_enable_local_irq_def gicd_enable_def gic_new_def demo_gic_def)
  then have "reports (gic_regs g1) = [33]"
    by (auto simp: register_and_enable_local_irq_def gicd_enable_def gic_new_def demo_gic_def Let_def split: if_splits)
  then obtain h where ack: "pending_irq_number demo_gic std_regs (gic_regs g1) = (33, h)"
    by (simp add: pending_irq_number_def demo_gic_def std_regs_def gic_fields field_get_def mask_eq_exp_minus_1)
  show ?thesis
    using irq_reaches_driver[OF demo_gicd_laws demo_gicc_laws std_regs_laws _ g1 ack, of "\<lambda>d s. Some (Inr (s @ [d]))" "[]"] g1
    by (auto simp: gic_new_def drivers_of_def demo_gic_view_def)
qed

end
