(* ===== verification/Device_Tree.thy ===== *)
theory Device_Tree
  imports Kernel_Prelude
begin

text \<open>
  The device tree, \<^verbatim>\<open>src/kernel/src/drivers/device_tree.rs\<close>: finding nodes and properties, decoding register ranges
  and interrupt cells.

  Parsing the flattened tree is the \<^verbatim>\<open>fdt_rs\<close> crate, the parameter \<open>fdt\<close> over types of nodes and
  properties; \<open>fdt_laws\<close> says what its iterators and accessors return on a well-formed tree.
\<close>

section \<open>The parser\<close>

record ('n, 'p, 'e) fdt =
  fdt_totalsize :: usize
  fdt_root :: "'e + 'n option"
  nodes_find :: "('n \<Rightarrow> 'e + bool) \<Rightarrow> 'e + 'n option"
  props_find :: "'n \<Rightarrow> ('p \<Rightarrow> 'e + bool) \<Rightarrow> 'e + 'p option"
  props_any :: "'n \<Rightarrow> ('p \<Rightarrow> 'e + bool) \<Rightarrow> 'e + bool"
  prop_name :: "'p \<Rightarrow> 'e + string"
  prop_str :: "'p \<Rightarrow> 'e + string"
  prop_length :: "'p \<Rightarrow> usize"
  prop_u32 :: "'p \<Rightarrow> usize \<Rightarrow> 'e + u32"
  prop_u64 :: "'p \<Rightarrow> usize \<Rightarrow> 'e + u64"

definition result_ok :: "'e + 'a \<Rightarrow> 'a option" where
  "result_ok r = (case r of Inl _ \<Rightarrow> None | Inr x \<Rightarrow> Some x)"

definition flatten :: "'a option option \<Rightarrow> 'a option" where
  "flatten r = (case r of None \<Rightarrow> None | Some x \<Rightarrow> x)"

lemma result_ok_simps [simp]: "result_ok (Inl e) = None" "result_ok (Inr x) = Some x"
  by (simp_all add: result_ok_def)

lemma flatten_simps [simp]: "flatten None = None" "flatten (Some x) = x"
  by (simp_all add: flatten_def)

section \<open>Searching\<close>

text \<open>Reading the tree at an address: the header gives the size, then the whole tree is parsed. \<open>mem\<close> is the memory
  as slices, \<open>min_header\<close>, \<open>read_totalsize\<close> and \<open>parse\<close> belong to the crate.\<close>

definition from_raw ::
  "nat \<Rightarrow> (u8 list \<Rightarrow> 'e + usize) \<Rightarrow> (u8 list \<Rightarrow> 'e + ('n, 'p, 'e) fdt) \<Rightarrow> (usize \<Rightarrow> nat \<Rightarrow> u8 list) \<Rightarrow> usize \<Rightarrow> 'e + ('n, 'p, 'e) fdt" where
  "from_raw min_header read_totalsize parse mem addr =
     bindE (read_totalsize (mem addr min_header)) (\<lambda>len. parse (mem addr (unat len)))"

definition fdt_new :: "(u8 list \<Rightarrow> 'e + ('n, 'p, 'e) fdt) \<Rightarrow> u8 list \<Rightarrow> 'e + ('n, 'p, 'e) fdt" where
  "fdt_new parse buf = parse buf"

definition totalsize :: "('n, 'p, 'e) fdt \<Rightarrow> usize" where
  "totalsize T = fdt_totalsize T"

definition dt_root :: "('n, 'p, 'e) fdt \<Rightarrow> 'n option" where
  "dt_root T = flatten (result_ok (fdt_root T))"

definition find_node :: "('n, 'p, 'e) fdt \<Rightarrow> ('n \<Rightarrow> 'e + bool) \<Rightarrow> 'n option" where
  "find_node T predict = flatten (result_ok (nodes_find T predict))"

definition find_node_with_prop :: "('n, 'p, 'e) fdt \<Rightarrow> ('p \<Rightarrow> 'e + bool) \<Rightarrow> 'n option" where
  "find_node_with_prop T predict = find_node T (\<lambda>node. props_any T node predict)"

definition find_prop_by_name :: "('n, 'p, 'e) fdt \<Rightarrow> 'n \<Rightarrow> string \<Rightarrow> 'p option" where
  "find_prop_by_name T node prop_name' =
     flatten (result_ok (props_find T node (\<lambda>p. bindE (prop_name T p) (\<lambda>nm. Inr (nm = prop_name')))))"

definition read_node_prop_u32 :: "('n, 'p, 'e) fdt \<Rightarrow> 'n \<Rightarrow> string \<Rightarrow> usize \<Rightarrow> usize option" where
  "read_node_prop_u32 T node nm index =
     Option.bind (find_prop_by_name T node nm) (\<lambda>p. map_option ucast (result_ok (prop_u32 T p index)))"

definition read_node_prop_u64 :: "('n, 'p, 'e) fdt \<Rightarrow> 'n \<Rightarrow> string \<Rightarrow> usize \<Rightarrow> usize option" where
  "read_node_prop_u64 T node nm index =
     Option.bind (find_prop_by_name T node nm) (\<lambda>p. result_ok (prop_u64 T p index))"

definition root_size_cells :: "('n, 'p, 'e) fdt \<Rightarrow> usize option" where
  "root_size_cells T = Option.bind (dt_root T) (\<lambda>r. read_node_prop_u32 T r ''#size-cells'' 0)"

definition root_address_cells :: "('n, 'p, 'e) fdt \<Rightarrow> usize option" where
  "root_address_cells T = Option.bind (dt_root T) (\<lambda>r. read_node_prop_u32 T r ''#address-cells'' 0)"

definition node_size_cells :: "('n, 'p, 'e) fdt \<Rightarrow> 'n \<Rightarrow> usize option" where
  "node_size_cells T node =
     (case read_node_prop_u32 T node ''#size-cells'' 0 of Some c \<Rightarrow> Some c | None \<Rightarrow> root_size_cells T)"

definition node_address_cells :: "('n, 'p, 'e) fdt \<Rightarrow> 'n \<Rightarrow> usize option" where
  "node_address_cells T node =
     (case read_node_prop_u32 T node ''#address-cells'' 0 of Some c \<Rightarrow> Some c | None \<Rightarrow> root_address_cells T)"

section \<open>Register ranges\<close>

record 'p RegRangeIter =
  reg_prop :: 'p
  cells :: usize
  curr_range :: usize
  range_count :: usize

text \<open>The debug assertion that both cell counts agree is not compiled in. Division by zero stops the kernel.\<close>

definition node_reg_range_iter :: "('n, 'p, 'e) fdt \<Rightarrow> 'n \<Rightarrow> 'p RegRangeIter option outcome" where
  "node_reg_range_iter T node =
     (case node_address_cells T node of
        None \<Rightarrow> Inr None
      | Some address_cells \<Rightarrow>
          (case node_size_cells T node of
             None \<Rightarrow> Inr None
           | Some size_cells \<Rightarrow>
               (case find_prop_by_name T node ''reg'' of
                  None \<Rightarrow> Inr None
                | Some p \<Rightarrow>
                    if address_cells = 0 then Inl (Panicked ''attempt to divide by zero'')
                    else Inr (Some \<lparr>reg_prop = p, cells = address_cells, curr_range = 0,
                                    range_count = prop_length T p div 4 div address_cells div 2\<rparr>))))"

text \<open>\<^verbatim>\<open>Range<usize>\<close> is the pair of its bounds.\<close>

definition range_next :: "('n, 'p, 'e) fdt \<Rightarrow> 'p RegRangeIter \<Rightarrow> ((usize \<times> usize) option \<times> 'p RegRangeIter) outcome" where
  "range_next T it =
     (if curr_range it = range_count it then Inr (None, it)
      else let curr = curr_range it * 2; it' = it\<lparr>curr_range := curr_range it + 1\<rparr>
           in if cells it = 1
              then Inr (case (result_ok (prop_u32 T (reg_prop it) curr), result_ok (prop_u32 T (reg_prop it) (curr + 1))) of
                          (Some addr, Some len) \<Rightarrow> Some (ucast addr, ucast addr + ucast len) | _ \<Rightarrow> None, it')
              else if cells it = 2
              then Inr (case (result_ok (prop_u64 T (reg_prop it) curr), result_ok (prop_u64 T (reg_prop it) (curr + 1))) of
                          (Some addr, Some len) \<Rightarrow> Some (addr, addr + len) | _ \<Rightarrow> None, it')
              else Inl Unreachable)"

text \<open>Iterating to the end, as a \<^verbatim>\<open>for\<close> loop does.\<close>

fun ranges_upto :: "('n, 'p, 'e) fdt \<Rightarrow> nat \<Rightarrow> 'p RegRangeIter \<Rightarrow> (usize \<times> usize) list outcome" where
  "ranges_upto T 0 it = Inr []"
| "ranges_upto T (Suc k) it =
     bindE (range_next T it) (\<lambda>(r, it'). case r of
       None \<Rightarrow> Inr []
     | Some x \<Rightarrow> bindE (ranges_upto T k it') (\<lambda>xs. Inr (x # xs)))"

definition probe_memory :: "('n, 'p, 'e) fdt \<Rightarrow> (usize \<times> usize) option outcome" where
  "probe_memory T =
     (case find_node_with_prop T (\<lambda>p. bindE (prop_name T p) (\<lambda>nm.
        if nm = ''device_type'' then bindE (prop_str T p) (\<lambda>s. Inr (s = ''memory'')) else Inr False)) of
        None \<Rightarrow> Inr None
      | Some mem_node \<Rightarrow> bindE (node_reg_range_iter T mem_node) (\<lambda>it. case it of
          None \<Rightarrow> Inr None
        | Some it \<Rightarrow> bindE (range_next T it) (\<lambda>(r, _). Inr r)))"

section \<open>Interrupt cells\<close>

record InterruptCell =
  cell_type :: u32
  interrupt_number :: u32
  cell_flag :: u32

definition node_interrupt_cell :: "('n, 'p, 'e) fdt \<Rightarrow> 'n \<Rightarrow> InterruptCell option outcome" where
  "node_interrupt_cell T node =
     (case find_prop_by_name T node ''interrupts'' of
        None \<Rightarrow> Inr None
      | Some p \<Rightarrow>
          if prop_length T p < 12 then Inl (AssertFailed ''interrupt_prop.length() >= 12'')
          else Inr (Option.bind (result_ok (prop_u32 T p 0)) (\<lambda>t.
                    Option.bind (result_ok (prop_u32 T p 1)) (\<lambda>n.
                    map_option (\<lambda>f. \<lparr>cell_type = t, interrupt_number = n, cell_flag = f\<rparr>) (result_ok (prop_u32 T p 2))))))"

definition cell_new :: "u32 \<Rightarrow> u32 \<Rightarrow> u32 \<Rightarrow> InterruptCell" where
  "cell_new t n f = \<lparr>cell_type = t, interrupt_number = n, cell_flag = f\<rparr>"

definition irq_number :: "InterruptCell \<Rightarrow> usize outcome" where
  "irq_number c =
     (if cell_type c = 0 then Inr (ucast (interrupt_number c + 32))
      else if cell_type c = 1 then Inr (ucast (interrupt_number c + 16))
      else Inl Unreachable)"

section \<open>What the parser promises\<close>

text \<open>A tree as the crate presents it: the nodes in order, the properties of each, and of a property its name and
  its value, a sequence of 32-bit cells.\<close>

record ('n, 'p) tree =
  root_node :: 'n
  tree_nodes :: "'n list"
  node_props :: "'n \<Rightarrow> 'p list"
  name_of :: "'p \<Rightarrow> string"
  str_of :: "'p \<Rightarrow> string"
  cells_of :: "'p \<Rightarrow> u32 list"

definition total_on :: "'a set \<Rightarrow> ('a \<Rightarrow> 'e + bool) \<Rightarrow> bool" where
  "total_on A P \<longleftrightarrow> (\<forall>x \<in> A. \<exists>b. P x = Inr b)"

definition fdt_laws :: "('n, 'p, 'e) fdt \<Rightarrow> ('n, 'p) tree \<Rightarrow> bool" where
  "fdt_laws T t \<longleftrightarrow>
     fdt_root T = Inr (Some (root_node t)) \<and>
     (\<forall>P. total_on (set (tree_nodes t)) P \<longrightarrow> nodes_find T P = Inr (find (\<lambda>n. P n = Inr True) (tree_nodes t))) \<and>
     (\<forall>n P. total_on (set (node_props t n)) P \<longrightarrow>
        props_find T n P = Inr (find (\<lambda>p. P p = Inr True) (node_props t n)) \<and>
        props_any T n P = Inr (\<exists>p \<in> set (node_props t n). P p = Inr True)) \<and>
     (\<forall>p. prop_name T p = Inr (name_of t p) \<and> prop_str T p = Inr (str_of t p) \<and>
        length (cells_of t p) < 2 ^ 32 \<and> prop_length T p = of_nat (4 * length (cells_of t p)) \<and>
        (\<forall>i. unat i < length (cells_of t p) \<longrightarrow> prop_u32 T p i = Inr (cells_of t p ! unat i)) \<and>
        (\<forall>i. 2 * unat i + 1 < length (cells_of t p) \<longrightarrow> prop_u64 T p i =
           Inr (push_bit 32 (ucast (cells_of t p ! (2 * unat i))) OR ucast (cells_of t p ! (2 * unat i + 1)))))"

definition prop_of :: "('n, 'p) tree \<Rightarrow> 'n \<Rightarrow> string \<Rightarrow> 'p option" where
  "prop_of t n nm = find (\<lambda>p. name_of t p = nm) (node_props t n)"

lemma find_prop_by_name_eq:
  assumes "fdt_laws T t"
  shows "find_prop_by_name T n nm = prop_of t n nm"
proof -
  have "bindE (prop_name T p) (\<lambda>x. Inr (x = nm)) = Inr (name_of t p = nm)" for p
    using assms by (simp add: fdt_laws_def)
  then show ?thesis
    using assms by (simp add: fdt_laws_def find_prop_by_name_def prop_of_def total_on_def)
qed

lemma find_node_with_prop_eq:
  assumes "fdt_laws T t" "\<And>p. P p = Inr (Q p)"
  shows "find_node_with_prop T P = find (\<lambda>n. \<exists>p \<in> set (node_props t n). Q p) (tree_nodes t)"
proof -
  have any: "props_any T n P = Inr (\<exists>p \<in> set (node_props t n). Q p)" for n
    using assms by (simp add: fdt_laws_def total_on_def)
  have "total_on (set (tree_nodes t)) (\<lambda>n. props_any T n P)" by (simp add: total_on_def any)
  then show ?thesis
    using assms(1) by (simp add: fdt_laws_def find_node_with_prop_def find_node_def any)
qed

text \<open>The cells of a property, as 32-bit or as 64-bit values.\<close>

definition encode :: "nat \<Rightarrow> usize \<Rightarrow> u32 list" where
  "encode c v = (if c = 1 then [ucast v] else [ucast (drop_bit 32 v), ucast v])"

definition encode_ranges :: "nat \<Rightarrow> (usize \<times> usize) list \<Rightarrow> u32 list" where
  "encode_ranges c rs = concat (map (\<lambda>(a, l). encode c a @ encode c l) rs)"

lemma encode_64: "push_bit 32 (ucast (ucast (drop_bit 32 v) :: u32)) OR ucast (ucast v :: u32) = (v :: usize)"
  by (rule bit_eqI) (auto simp: bit_simps)

lemma encode_32: "v < 2 ^ 32 \<Longrightarrow> ucast (ucast v :: u32) = (v :: usize)"
  by (simp add: word_unat_eq_iff unsigned_ucast_eq unsigned_take_bit_eq word_less_nat_alt take_bit_nat_eq_self)

lemma concat_blocks:
  assumes "\<forall>xs \<in> set xss. length xs = m" "i < length xss" "j < m"
  shows "concat xss ! (m * i + j) = xss ! i ! j" and "m * i + j < length (concat xss)"
  using assms
proof (induction xss arbitrary: i)
  case (Cons xs xss)
  {
    case 1 then show ?case using Cons.IH(1) by (cases i) (auto simp: nth_append)
  next
    case 2 then show ?case using Cons.IH(2) by (cases i) auto
  }
qed simp_all

lemma encode_ranges_length: "c = 1 \<or> c = 2 \<Longrightarrow> length (encode_ranges c rs) = 2 * c * length rs"
  by (induction rs) (auto simp: encode_ranges_def encode_def)

lemma encode_ranges_nth:
  assumes "c = 1 \<or> c = 2" "i < length rs" "j < 2 * c"
  shows "encode_ranges c rs ! (2 * c * i + j) = (encode c (fst (rs ! i)) @ encode c (snd (rs ! i))) ! j"
    "2 * c * i + j < length (encode_ranges c rs)"
  using concat_blocks[of "map (\<lambda>(a, l). encode c a @ encode c l) rs" "2 * c" i j] assms
  by (auto simp: encode_ranges_def encode_def split: prod.splits)

text \<open>The word indices the iterator uses do not wrap.\<close>

lemma range_index:
  assumes "length rs < 2 ^ 32" "i < length rs" "curr_range it = of_nat i"
  shows "unat (curr_range it * 2) = 2 * i" "unat (curr_range it * 2 + 1) = 2 * i + 1"
proof -
  have "curr_range it * 2 = of_nat (2 * i)" "curr_range it * 2 + 1 = of_nat (2 * i + 1)" using assms(3) by simp_all
  moreover have "2 * i + 1 < 2 ^ 64" using assms by simp
  ultimately show "unat (curr_range it * 2) = 2 * i" "unat (curr_range it * 2 + 1) = 2 * i + 1"
    by (simp_all only: unat_of_nat) simp_all
qed

lemma range_next_decodes:
  assumes "fdt_laws T t" "c = 1 \<or> c = 2" "cells_of t (reg_prop it) = encode_ranges c rs" "cells it = of_nat c"
    "c = 1 \<longrightarrow> (\<forall>(a, l) \<in> set rs. a < 2 ^ 32 \<and> l < 2 ^ 32)"
    "range_count it = of_nat (length rs)" "curr_range it = of_nat i" "i < length rs"
  shows "range_next T it = Inr (Some (fst (rs ! i), fst (rs ! i) + snd (rs ! i)), it\<lparr>curr_range := of_nat (Suc i)\<rparr>)"
proof -
  have len: "length (encode_ranges c rs) < 2 ^ 32" using assms(1,3) by (auto simp: fdt_laws_def dest: spec[of _ "reg_prop it"])
  then have rs: "length rs < 2 ^ 32" using assms(2) by (auto simp: encode_ranges_length)
  note ix = range_index[OF rs assms(8,7)]
  have ne: "curr_range it \<noteq> range_count it" using assms(6-8) rs by (simp add: word_unat_eq_iff unat_of_nat)
  obtain a l where al: "rs ! i = (a, l)" by fastforce
  note L = assms(1)[unfolded fdt_laws_def, THEN conjunct2, THEN conjunct2, THEN conjunct2, THEN spec, of "reg_prop it", unfolded assms(3)]
  from assms(2) show ?thesis
  proof
    assume c: "c = 1"
    have e: "encode_ranges c rs ! (2 * i) = ucast a" "encode_ranges c rs ! (2 * i + 1) = ucast l" "2 * i + 1 < length (encode_ranges c rs)"
      using encode_ranges_nth[OF assms(2,8), of 0] encode_ranges_nth[OF assms(2,8), of 1] al c by (simp_all add: encode_def)
    have "(a, l) \<in> set rs" using al assms(8) nth_mem by metis
    then have "a < 2 ^ 32" "l < 2 ^ 32" using assms(5) c by auto
    then have "ucast (ucast a :: u32) = a" "ucast (ucast l :: u32) = l" by (simp_all only: encode_32)
    moreover have "prop_u32 T (reg_prop it) (curr_range it * 2) = Inr (ucast a)" "prop_u32 T (reg_prop it) (curr_range it * 2 + 1) = Inr (ucast l)"
      using L e ix by (metis Suc_eq_plus1 Suc_lessD)+
    ultimately show ?thesis using ne c assms(4,7) al by (simp add: range_next_def)
  next
    assume c: "c = 2"
    have e: "encode_ranges c rs ! (2 * (2 * i)) = ucast (drop_bit 32 a)" "encode_ranges c rs ! (2 * (2 * i) + 1) = ucast a"
      "encode_ranges c rs ! (2 * (2 * i + 1)) = ucast (drop_bit 32 l)" "encode_ranges c rs ! (2 * (2 * i + 1) + 1) = ucast l"
      "2 * (2 * i) + 1 < length (encode_ranges c rs)" "2 * (2 * i + 1) + 1 < length (encode_ranges c rs)"
      using encode_ranges_nth[OF assms(2,8), of 0] encode_ranges_nth[OF assms(2,8), of 1] encode_ranges_nth[OF assms(2,8), of 2]
        encode_ranges_nth[OF assms(2,8), of 3] al c by (simp_all add: encode_def algebra_simps numeral_3_eq_3)
    then have "prop_u64 T (reg_prop it) (curr_range it * 2) = Inr a" "prop_u64 T (reg_prop it) (curr_range it * 2 + 1) = Inr l"
      using L ix encode_64[of a] encode_64[of l] by metis+
    then show ?thesis using ne c assms(4,7) al by (simp add: range_next_def)
  qed
qed

lemma ranges_upto_decodes:
  assumes "fdt_laws T t" "c = 1 \<or> c = 2" "cells_of t (reg_prop it) = encode_ranges c rs" "cells it = of_nat c"
    "c = 1 \<longrightarrow> (\<forall>(a, l) \<in> set rs. a < 2 ^ 32 \<and> l < 2 ^ 32)"
    "range_count it = of_nat (length rs)" "curr_range it = of_nat i" "i \<le> length rs"
  shows "ranges_upto T k it = Inr (take k (map (\<lambda>(a, l). (a, a + l)) (drop i rs)))"
  using assms(3-)
proof (induction k arbitrary: it i)
  case (Suc k)
  show ?case
  proof (cases "i = length rs")
    case True
    then show ?thesis using Suc.prems by (simp add: range_next_def)
  next
    case False
    with Suc.prems(6) have i: "i < length rs" by simp
    note n = range_next_decodes[OF assms(1,2) Suc.prems(1-5) i]
    have "ranges_upto T k (it\<lparr>curr_range := of_nat (Suc i)\<rparr>) = Inr (take k (map (\<lambda>(a, l). (a, a + l)) (drop (Suc i) rs)))"
      using Suc.prems i by (intro Suc.IH) simp_all
    then show ?thesis using n i by (simp add: Cons_nth_drop_Suc[symmetric] split_def)
  qed
qed simp

text \<open>C33: the register ranges of a device are read back from the cells of its \<^verbatim>\<open>reg\<close> property as they were written: with
  one or two cells for addresses and sizes, the iterator yields the ranges in order, one for each call, and
  nothing after the last.\<close>
theorem reg_ranges_roundtrip:
  assumes "fdt_laws T t" "c = 1 \<or> c = 2"
    and "node_address_cells T n = Some (of_nat c)" "node_size_cells T n = Some (of_nat c)"
    and "prop_of t n ''reg'' = Some p" "cells_of t p = encode_ranges c rs"
    and "c = 1 \<longrightarrow> (\<forall>(a, l) \<in> set rs. a < 2 ^ 32 \<and> l < 2 ^ 32)"
  shows "\<exists>it. node_reg_range_iter T n = Inr (Some it) \<and>
    (\<forall>k. ranges_upto T k it = Inr (take k (map (\<lambda>(a, l). (a, a + l)) rs)))"
proof -
  have "length (cells_of t p) < 2 ^ 32" "prop_length T p = of_nat (4 * length (cells_of t p))"
    using assms(1) by (auto simp: fdt_laws_def)
  then have l: "2 * c * length rs < 2 ^ 32" "prop_length T p = of_nat (4 * (2 * c * length rs))"
    using assms(2) by (simp_all only: assms(6) encode_ranges_length)
  have "prop_length T p div 4 div of_nat c div 2 = of_nat (length rs)"
  proof -
    have "4 * (2 * c * length rs) < 2 ^ 64" using l(1) by simp
    then have u: "unat (of_nat (4 * (2 * c * length rs)) :: usize) = 4 * (2 * c * length rs)" by (simp only: unat_of_nat) simp
    have "unat (of_nat c :: usize) = c" "length rs < 2 ^ 64" using assms(2) l(1) by auto
    then show ?thesis using assms(2) by (simp only: l(2) word_unat_eq_iff unat_div u) (auto simp: unat_of_nat)
  qed
  moreover have "(of_nat c :: usize) \<noteq> 0" using assms(2) by auto
  ultimately have "node_reg_range_iter T n =
      Inr (Some \<lparr>reg_prop = p, cells = of_nat c, curr_range = 0, range_count = of_nat (length rs)\<rparr>)"
    using assms(3-5) by (simp add: node_reg_range_iter_def find_prop_by_name_eq[OF assms(1)])
  then show ?thesis
    using ranges_upto_decodes[OF assms(1,2), of "\<lparr>reg_prop = p, cells = of_nat c, curr_range = 0, range_count = of_nat (length rs)\<rparr>" rs 0] assms(6,7)
    by simp
qed

section \<open>A parser\<close>

definition fdt_of :: "('n, 'p) tree \<Rightarrow> ('n, 'p, unit) fdt" where
  "fdt_of t = \<lparr>fdt_totalsize = 0, fdt_root = Inr (Some (root_node t)),
     nodes_find = (\<lambda>P. Inr (find (\<lambda>n. P n = Inr True) (tree_nodes t))),
     props_find = (\<lambda>n P. Inr (find (\<lambda>p. P p = Inr True) (node_props t n))),
     props_any = (\<lambda>n P. Inr (\<exists>p \<in> set (node_props t n). P p = Inr True)),
     prop_name = (\<lambda>p. Inr (name_of t p)), prop_str = (\<lambda>p. Inr (str_of t p)),
     prop_length = (\<lambda>p. of_nat (4 * length (cells_of t p))),
     prop_u32 = (\<lambda>p i. if unat i < length (cells_of t p) then Inr (cells_of t p ! unat i) else Inl ()),
     prop_u64 = (\<lambda>p i. if 2 * unat i + 1 < length (cells_of t p)
       then Inr (push_bit 32 (ucast (cells_of t p ! (2 * unat i))) OR ucast (cells_of t p ! (2 * unat i + 1))) else Inl ())\<rparr>"

lemma fdt_of_laws: "(\<And>p. length (cells_of t p) < 2 ^ 32) \<Longrightarrow> fdt_laws (fdt_of t) t"
  by (simp add: fdt_laws_def fdt_of_def)

text \<open>A node with two ranges of two cells each.\<close>

definition demo_tree :: "(nat, string) tree" where
  "demo_tree = \<lparr>root_node = 0, tree_nodes = [0, 7],
     node_props = (\<lambda>n. if n = 0 then [''#address-cells'', ''#size-cells''] else [''compatible'', ''reg'', ''interrupts'']),
     name_of = id, str_of = (\<lambda>p. if p = ''compatible'' then ''arm,pl011'' else []),
     cells_of = (\<lambda>p. if p = ''reg'' then [0, 0x08000000, 0, 0x10000, 0, 0x08010000, 0, 0x10000]
       else if p = ''interrupts'' then [0, 1, 4] else [2])\<rparr>"

lemma demo_tree_laws: "fdt_laws (fdt_of demo_tree) demo_tree"
  by (rule fdt_of_laws) (simp add: demo_tree_def)

theorem reg_ranges_roundtrip_witness:
  "\<exists>it. node_reg_range_iter (fdt_of demo_tree) 7 = Inr (Some it) \<and>
     ranges_upto (fdt_of demo_tree) 5 it = Inr [(0x08000000, 0x08010000), (0x08010000, 0x08020000)]"
proof -
  have "dt_root (fdt_of demo_tree) = Some 0" "prop_u32 (fdt_of demo_tree) ''#address-cells'' 0 = Inr 2" "prop_u32 (fdt_of demo_tree) ''#size-cells'' 0 = Inr 2"
    "prop_of demo_tree 7 ''#address-cells'' = None" "prop_of demo_tree 7 ''#size-cells'' = None"
    "prop_of demo_tree 0 ''#address-cells'' = Some ''#address-cells''" "prop_of demo_tree 0 ''#size-cells'' = Some ''#size-cells''"
    by (simp_all add: dt_root_def fdt_of_def demo_tree_def prop_of_def)
  then have r: "dt_root (fdt_of demo_tree) = Some 0"
    "read_node_prop_u32 (fdt_of demo_tree) 7 ''#address-cells'' 0 = None" "read_node_prop_u32 (fdt_of demo_tree) 7 ''#size-cells'' 0 = None"
    "read_node_prop_u32 (fdt_of demo_tree) 0 ''#address-cells'' 0 = Some 2" "read_node_prop_u32 (fdt_of demo_tree) 0 ''#size-cells'' 0 = Some 2"
    by (simp_all add: read_node_prop_u32_def find_prop_by_name_eq[OF demo_tree_laws])
  have "node_address_cells (fdt_of demo_tree) 7 = Some (of_nat 2)" "node_size_cells (fdt_of demo_tree) 7 = Some (of_nat 2)"
    by (simp_all add: node_address_cells_def node_size_cells_def root_address_cells_def root_size_cells_def r)
  moreover have "prop_of demo_tree 7 ''reg'' = Some ''reg''" by (simp add: prop_of_def demo_tree_def)
  moreover have "cells_of demo_tree ''reg'' = encode_ranges 2 [(0x08000000, 0x10000), (0x08010000, 0x10000)]"
    by (simp add: demo_tree_def encode_ranges_def encode_def drop_bit_eq_div)
  ultimately show ?thesis using reg_ranges_roundtrip[OF demo_tree_laws, of 2 7 "''reg''"] by fastforce
qed

end
