(* ===== verification/Device_Drivers.thy ===== *)
theory Device_Drivers
  imports Serial_Uart Irq_Controller Kernel_Timer Sched_Arith Memory_Paging Device_Tree
begin

text \<open>
  The other device drivers under \<^verbatim>\<open>src/kernel/src/drivers\<close> (real-time clock, GPIO), the early console of the board, the
  drivers behind \<^verbatim>\<open>dyn Driver\<close>, and the wiring of all of them at boot
  (\<^verbatim>\<open>driver_init\<close> of each driver, \<^verbatim>\<open>src/kernel/src/arch/aarch64/interrupt/mod.rs\<close>).
\<close>

section \<open>Real-time clock\<close>

datatype RtcRegister = RTC_DR | RTC_MR | RTC_LR | RTC_CR | RTC_IMSC | RTC_RIS | RTC_MIS | RTC_ICR

definition RtcRegisterBlock :: "RtcRegister block_entry list" where
  "RtcRegisterBlock =
     [Reg 0x00 RTC_DR 4, Reg 0x04 RTC_MR 4, Reg 0x08 RTC_LR 4, Reg 0x0c RTC_CR 4, Reg 0x10 RTC_IMSC 4, Reg 0x14 RTC_RIS 4,
      Reg 0x18 RTC_MIS 4, Reg 0x1c RTC_ICR 4, END 0x20]"

definition CR_RTCEN :: field where "CR_RTCEN = (0, 1)"
definition IMSC_RTCIMSC :: field where "IMSC_RTCIMSC = (0, 1)"
definition ICR_RTCICR :: field where "ICR_RTCICR = (0, 1)"

record TimeSpec =
  secs :: int
  nsec :: int

definition rtc_read_epoch :: "(RtcRegister, 'r) mmio \<Rightarrow> 'r \<Rightarrow> TimeSpec \<times> 'r" where
  "rtc_read_epoch C r = (let (v, r) = reg_get C RTC_DR r in (\<lparr>secs = uint v, nsec = 0\<rparr>, r))"

definition rtc_set_next :: "(RtcRegister, 'r) mmio \<Rightarrow> 'r \<Rightarrow> 'r" where
  "rtc_set_next C r = (let (t, r) = rtc_read_epoch C r; x = word_of_int (secs t) :: u32 in reg_set C RTC_MR (x + 2) r)"

definition rtc_init :: "(RtcRegister, 'r) mmio \<Rightarrow> reg_ops \<Rightarrow> 'r \<Rightarrow> 'r" where
  "rtc_init C R r =
     (let r = reg_set C RTC_CR 0 r;
          r = reg_set C RTC_ICR (field_SET R ICR_RTCICR) r;
          r = reg_set C RTC_IMSC (field_CLEAR R IMSC_RTCIMSC) r
      in reg_set C RTC_CR (field_SET R CR_RTCEN) r)"

text \<open>\<^verbatim>\<open>drivers::read_epoch\<close>: zero while no clock is registered.\<close>

definition read_epoch :: "(RtcRegister, 'r) mmio \<Rightarrow> 'r option \<Rightarrow> TimeSpec \<times> 'r option" where
  "read_epoch C rtc_driver =
     (case rtc_driver of
        None \<Rightarrow> (\<lparr>secs = 0, nsec = 0\<rparr>, None)
      | Some r \<Rightarrow> let (t, r) = rtc_read_epoch C r in (t, Some r))"

section \<open>GPIO\<close>

datatype GpioRegister = DATA | DIR | IS | IBE | IEV | IE | GPIO_RIS | GPIO_MIS | IC | AFSEL

definition GpioRegisterBlock :: "GpioRegister block_entry list" where
  "GpioRegisterBlock =
     [Reg 0x000 DATA 1, Reg 0x400 DIR 1, Reg 0x404 IS 1, Reg 0x408 IBE 1, Reg 0x40c IEV 1, Reg 0x410 IE 1, Reg 0x414 GPIO_RIS 1,
      Reg 0x418 GPIO_MIS 1, Reg 0x41c IC 1, Reg 0x420 AFSEL 1, END 0x424]"

definition gpio_init :: "(GpioRegister, 'h) mmio \<Rightarrow> 'h \<Rightarrow> 'h" where
  "gpio_init G h =
     (let h = reg_set G IC 1 h;
          h = reg_set G IEV 0xff h;
          h = reg_set G IE 0xff h;
          h = reg_set G IS 0xff h
      in reg_set G AFSEL 0xff h)"

definition get_raw_status :: "(GpioRegister, 'h) mmio \<Rightarrow> 'h \<Rightarrow> u8 \<times> 'h" where
  "get_raw_status G h = (let (v, h) = reg_get G GPIO_RIS h in (ucast v, h))"

section \<open>Early console\<close>

record MiniUART =
  mini_addr :: usize

definition mini_new :: "usize \<Rightarrow> MiniUART" where
  "mini_new a = \<lparr>mini_addr = a\<rparr>"

definition mini_default :: MiniUART where
  "mini_default = mini_new 0x09000000"

text \<open>Volatile stores of bytes, one for each character.\<close>

definition mini_write_str :: "MiniUART \<Rightarrow> u32 list \<Rightarrow> (usize \<times> u8) list" where
  "mini_write_str m s = map (\<lambda>c. (mini_addr m, ucast c)) s"

section \<open>Drivers as trait objects\<close>

datatype DeviceType = Net | Gpu | Input | Block | Rtc | Serial | Intc | TimerDevice

fun description :: "DeviceType \<Rightarrow> string" where
  "description Net = ''Net''"
| "description Gpu = ''GPU''"
| "description Input = ''Input''"
| "description Block = ''Block''"
| "description Rtc = ''RTC''"
| "description Serial = ''Serial''"
| "description Intc = ''Interrupt Controller''"
| "description TimerDevice = ''Timer''"

datatype device = GenericTimer | Pl011Uart | Pl031Rtc

fun compatible :: "device \<Rightarrow> string" where
  "compatible GenericTimer = ''arm,armv8-timer''"
| "compatible Pl011Uart = ''arm,pl011''"
| "compatible Pl031Rtc = ''arm,pl031''"

fun device_type :: "device \<Rightarrow> DeviceType" where
  "device_type GenericTimer = TimerDevice"
| "device_type Pl011Uart = Serial"
| "device_type Pl031Rtc = Rtc"

definition IRQ_NUMBER :: usize where "IRQ_NUMBER = 30"
definition GIC_COMPATIBLE :: string where "GIC_COMPATIBLE = ''arm,cortex-a15-gic''"

text \<open>What the handlers work on: the serial port, the clock, the timer queue of the kernel with the wakers it has
  called, the timer registers, the address of the early console.\<close>

record ('u, 'r, 'w) devices =
  uart_dev :: "'u Pl011UartInner"
  rtc_dev :: "'r option"
  timer_queue :: "'w Timer"
  timer_woken :: "'w list"
  timer_enabled :: bool
  timer_tval :: u64
  console :: MiniUART

definition device_handle_interrupt ::
  "(UartRegister, 'u) mmio \<Rightarrow> reg_ops \<Rightarrow> u64 \<Rightarrow> u64 \<Rightarrow> device \<Rightarrow> ('u, 'r, 'w) devices \<Rightarrow> ('u, 'r, 'w) devices outcome option" where
  "device_handle_interrupt U R freq cntpct d s =
     (case d of
        GenericTimer \<Rightarrow>
          (let (ws, q) = timer_handle_interrupt (timer_read freq cntpct) (timer_queue s)
           in Some (Inr (s\<lparr>timer_queue := q, timer_woken := timer_woken s @ ws, timer_tval := tick_in freq SCHED_MIN_GRANULARITY\<rparr>)))
      | Pl011Uart \<Rightarrow> map_option (\<lambda>u. Inr (s\<lparr>uart_dev := u\<rparr>)) (uart_handle_interrupt U R (uart_dev s))
      | Pl031Rtc \<Rightarrow> Some (Inl Todo))"

section \<open>Finding the devices\<close>

text \<open>The first node with the given \<^verbatim>\<open>compatible\<close> string, and the start of its first register range.\<close>

definition find_compatible :: "('n, 'p, 'e) fdt \<Rightarrow> string \<Rightarrow> 'n option" where
  "find_compatible T c = find_node_with_prop T (\<lambda>p. bindE (prop_name T p) (\<lambda>nm.
     if nm = ''compatible'' then bindE (prop_str T p) (\<lambda>s. Inr (s = c)) else Inr False))"

definition first_reg :: "('n, 'p, 'e) fdt \<Rightarrow> 'n \<Rightarrow> usize option outcome" where
  "first_reg T node =
     bindE (node_reg_range_iter T node) (\<lambda>it. case it of
       None \<Rightarrow> Inr None
     | Some it \<Rightarrow> bindE (range_next T it) (\<lambda>(r, _). Inr (map_option fst r)))"

definition node_irq :: "('n, 'p, 'e) fdt \<Rightarrow> 'n \<Rightarrow> usize option outcome" where
  "node_irq T node =
     bindE (node_interrupt_cell T node) (\<lambda>c. case c of
       None \<Rightarrow> Inr None
     | Some c \<Rightarrow> bindE (irq_number c) (\<lambda>n. Inr (Some n)))"

section \<open>Starting the drivers\<close>

text \<open>\<open>gic_at\<close>, \<open>uart_at\<close> and \<open>rtc_at\<close> give the device behind a virtual address. A driver that is not found returns without it;
  what was done before stays done. The flag says whether the driver is present.\<close>

definition gic_driver_init ::
  "('n, 'p, 'e) fdt \<Rightarrow> (GicRegister, 'g) mmio \<Rightarrow> reg_ops \<Rightarrow> (usize \<Rightarrow> usize \<Rightarrow> 'g) \<Rightarrow> nat \<Rightarrow> ('g, device) GicV2 option outcome" where
  "gic_driver_init T D R gic_at cpu =
     (case find_compatible T GIC_COMPATIBLE of
        None \<Rightarrow> Inr None
      | Some node \<Rightarrow> bindE (node_reg_range_iter T node) (\<lambda>it. case it of
          None \<Rightarrow> Inr None
        | Some it \<Rightarrow> bindE (range_next T it) (\<lambda>(r, it). case r of
            None \<Rightarrow> Inr None
          | Some (d, _) \<Rightarrow> bindE (range_next T it) (\<lambda>(r, it). case r of
              None \<Rightarrow> Inr None
            | Some (c, _) \<Rightarrow>
                bindE (gic_init D R cpu (gic_new (gic_at (as_upper_range d) (as_upper_range c)))) (\<lambda>g. Inr (Some g))))))"

definition timer_driver_init ::
  "(GicRegister, 'g) mmio \<Rightarrow> ('u, 'r, 'w) devices \<Rightarrow> ('g, device) GicV2 \<Rightarrow> (('u, 'r, 'w) devices \<times> ('g, device) GicV2) outcome" where
  "timer_driver_init D s g =
     bindE (register_and_enable_local_irq D IRQ_NUMBER GenericTimer g) (\<lambda>g. Inr (s\<lparr>timer_enabled := True\<rparr>, g))"

definition uart_driver_init ::
  "('n, 'p, 'e) fdt \<Rightarrow> (GicRegister, 'g) mmio \<Rightarrow> (UartRegister, 'u) mmio \<Rightarrow> reg_ops \<Rightarrow> (usize \<Rightarrow> 'u) \<Rightarrow>
   ('u, 'r, 'w) devices \<Rightarrow> ('g, device) GicV2 \<Rightarrow> (bool \<times> ('u, 'r, 'w) devices \<times> ('g, device) GicV2) outcome option" where
  "uart_driver_init T D U R uart_at s g =
     (case find_compatible T (compatible Pl011Uart) of
        None \<Rightarrow> Some (Inr (False, s, g))
      | Some node \<Rightarrow>
          (case first_reg T node of
             Inl p \<Rightarrow> Some (Inl p)
           | Inr None \<Rightarrow> Some (Inr (False, s, g))
           | Inr (Some a) \<Rightarrow>
               (let vaddr = as_upper_range a; s = s\<lparr>console := mini_new vaddr\<rparr>
                in case node_irq T node of
                     Inl p \<Rightarrow> Some (Inl p)
                   | Inr None \<Rightarrow> Some (Inr (False, s, g))
                   | Inr (Some irq_num) \<Rightarrow>
                       map_option (\<lambda>u. bindE (register_and_enable_local_irq D irq_num Pl011Uart g)
                           (\<lambda>g. Inr (True, s\<lparr>uart_dev := u\<rparr>, g)))
                         (uart_init U R (uart_new (uart_at vaddr))))))"

definition rtc_driver_init ::
  "('n, 'p, 'e) fdt \<Rightarrow> (GicRegister, 'g) mmio \<Rightarrow> (RtcRegister, 'r) mmio \<Rightarrow> reg_ops \<Rightarrow> (usize \<Rightarrow> 'r) \<Rightarrow>
   ('u, 'r, 'w) devices \<Rightarrow> ('g, device) GicV2 \<Rightarrow> (bool \<times> ('u, 'r, 'w) devices \<times> ('g, device) GicV2) outcome" where
  "rtc_driver_init T D C R rtc_at s g =
     (case find_compatible T (compatible Pl031Rtc) of
        None \<Rightarrow> Inr (False, s, g)
      | Some node \<Rightarrow> bindE (first_reg T node) (\<lambda>a. case a of
          None \<Rightarrow> Inr (False, s, g)
        | Some a \<Rightarrow> bindE (node_irq T node) (\<lambda>n. case n of
            None \<Rightarrow> Inr (False, s, g)
          | Some irq_num \<Rightarrow>
              bindE (register_and_enable_local_irq D irq_num Pl031Rtc g) (\<lambda>g.
              Inr (True, s\<lparr>rtc_dev := (case rtc_dev s of
                None \<Rightarrow> Some (rtc_init C R (rtc_at (as_upper_range a))) | Some r \<Rightarrow> Some r)\<rparr>, g)))))"

text \<open>\<^verbatim>\<open>interrupt::init\<close>: the controller is started twice, by its \<^verbatim>\<open>driver_init\<close> and once more here. Installing the vectors
  and unmasking interrupts are instructions of the processor.\<close>

definition interrupt_init ::
  "('n, 'p, 'e) fdt \<Rightarrow> (GicRegister, 'g) mmio \<Rightarrow> (UartRegister, 'u) mmio \<Rightarrow> (RtcRegister, 'r) mmio \<Rightarrow> reg_ops \<Rightarrow>
   (usize \<Rightarrow> usize \<Rightarrow> 'g) \<Rightarrow> (usize \<Rightarrow> 'u) \<Rightarrow> (usize \<Rightarrow> 'r) \<Rightarrow> nat \<Rightarrow> ('u, 'r, 'w) devices \<Rightarrow>
   (('u, 'r, 'w) devices \<times> ('g, device) GicV2) outcome option" where
  "interrupt_init T D U C R gic_at uart_at rtc_at cpu s =
     (case bindE (gic_driver_init T D R gic_at cpu) (\<lambda>g. bindE (unwrap g) (\<lambda>g. bindE (gic_init D R cpu g) (timer_driver_init D s))) of
        Inl p \<Rightarrow> Some (Inl p)
      | Inr (s, g) \<Rightarrow>
          map_option (\<lambda>r. bindE r (\<lambda>(_, s, g).
            bindE (rtc_driver_init T D C R rtc_at s g) (\<lambda>(found, s, g).
            if found then Inr (s, g) else Inl UnwrapNone)))
          (uart_driver_init T D U R uart_at s g))"

definition interrupt_init_other :: "(GicRegister, 'g) mmio \<Rightarrow> reg_ops \<Rightarrow> nat \<Rightarrow> ('g, device) GicV2 \<Rightarrow> ('g, device) GicV2 outcome" where
  "interrupt_init_other D R cpu g = gic_init D R cpu g"

section \<open>Boot connects the devices\<close>

lemma gic_init_effect:
  assumes "gicd_laws D V" "gicc_laws D V" "reg_laws R" "0 < groups V"
  shows "\<exists>g'. gic_init D R cpu g = Inr g' \<and> irq_map g' = irq_map g \<and>
    enabled V (gic_regs g') = enabled V (gic_regs g) - (if cpu = BOOT_CORE_ID then {32..<32 * (groups V + 1)} else {})"
proof -
  have c: "enabled V (gicc_enable D R (priority_accept_all D R h)) = enabled V h" for h
    using assms(2) by (simp add: gicc_laws_def gic_same_def gicc_enable_def priority_accept_all_def)
  show ?thesis
  proof (cases "cpu = BOOT_CORE_ID")
    case True
    obtain h where "boot_core_init D R (gic_regs g) = Inr h" "enabled V h = enabled V (gic_regs g) - {32..<32 * (groups V + 1)}"
      using boot_core_effect(2)[OF assms(1,3,4)] by blast
    then show ?thesis using True c by (simp add: gic_init_def)
  qed (simp add: gic_init_def c)
qed

lemma uart_init_ends:
  assumes "uart_laws U V" "reg_laws R" "on V (registers u)"
  shows "\<exists>u'. uart_init U R u = Some u'"
  using spin_while_ends[OF assms, of FR_BUSY] by (auto simp: uart_init_def uart_flush_def awaited_def)

text \<open>The table of drivers after a sequence of registrations.\<close>

lemma drivers_of_register:
  assumes "gicd_laws D V" "bt_ok (irq_map g)" "n < 1024"
  shows "\<exists>g'. register_and_enable_local_irq D n d g = Inr g' \<and> bt_ok (irq_map g') \<and>
    drivers_of g' = (drivers_of g)(n := drivers_of g n @ [d]) \<and>
    enabled V (gic_regs g') = enabled V (gic_regs g) \<union> {unat n} \<inter> implemented V"
  using register_effect[OF assms, of d] by (auto simp: drivers_of_def fun_eq_iff)

text \<open>What the device tree says about a device: where it is and which interrupt it raises.\<close>

definition described :: "('n, 'p, 'e) fdt \<Rightarrow> device \<Rightarrow> usize \<Rightarrow> usize \<Rightarrow> bool" where
  "described T d a n \<longleftrightarrow> (\<exists>node. find_compatible T (compatible d) = Some node \<and>
     first_reg T node = Inr (Some a) \<and> node_irq T node = Inr (Some n))"

lemma gic_driver_init_eq:
  assumes "find_compatible T GIC_COMPATIBLE = Some node" "node_reg_range_iter T node = Inr (Some it)"
    "ranges_upto T 2 it = Inr [d, c]"
  shows "gic_driver_init T D R gic_at cpu =
    bindE (gic_init D R cpu (gic_new (gic_at (as_upper_range (fst d)) (as_upper_range (fst c))))) (\<lambda>g. Inr (Some g))"
proof -
  obtain it1 where 1: "range_next T it = Inr (Some d, it1)"
    and r: "ranges_upto T 1 it1 = Inr [c]"
    using assms(3) by (auto simp: numeral_2_eq_2 bindE_eq_Inr split: option.splits)
  obtain it2 where "range_next T it1 = Inr (Some c, it2)"
    using r by (auto simp: bindE_eq_Inr split: option.splits)
  then show ?thesis using assms(1,2) 1 by (simp add: gic_driver_init_def split_def)
qed

lemma rtc_driver_init_eq:
  assumes "described T Pl031Rtc a n"
  shows "rtc_driver_init T D C R rtc_at s g =
    bindE (register_and_enable_local_irq D n Pl031Rtc g) (\<lambda>g. Inr (True, s\<lparr>rtc_dev := (case rtc_dev s of
      None \<Rightarrow> Some (rtc_init C R (rtc_at (as_upper_range a))) | Some r \<Rightarrow> Some r)\<rparr>, g))"
  using assms by (auto simp: described_def rtc_driver_init_def)

lemma uart_driver_init_eq:
  assumes "described T Pl011Uart a n" "uart_init U R (uart_new (uart_at (as_upper_range a))) = Some u"
  shows "uart_driver_init T D U R uart_at s g =
    Some (bindE (register_and_enable_local_irq D n Pl011Uart g)
      (\<lambda>g. Inr (True, s\<lparr>console := mini_new (as_upper_range a), uart_dev := u\<rparr>, g)))"
  using assms by (auto simp: described_def uart_driver_init_def Let_def)

text \<open>C21: at boot every device that the device tree describes gets connected. Initialisation returns; each interrupt
  then has exactly the driver of its device, of the shared interrupts exactly those of the serial port
  and the clock are enabled, the private timer interrupt is, and the early console
  writes to the serial port at its kernel address.\<close>
theorem boot_connects_devices:
  assumes laws: "gicd_laws D V" "gicc_laws D V" "reg_laws R" "0 < groups V" "uart_laws U W"
    and gic: "find_compatible T GIC_COMPATIBLE = Some node" "node_reg_range_iter T node = Inr (Some it)" "ranges_upto T 2 it = Inr [d, c]"
    and uart: "described T Pl011Uart a nu" "nu < 1024" "on W (uart_at (as_upper_range a))"
    and rtc: "described T Pl031Rtc b nr" "nr < 1024" "rtc_dev s = None"
    and impl: "{30, unat nu, unat nr} \<subseteq> implemented V" "32 \<le> nu" "32 \<le> nr" "nu \<noteq> nr"
  shows "\<exists>s' g'. interrupt_init T D U C R gic_at uart_at rtc_at BOOT_CORE_ID s = Some (Inr (s', g')) \<and>
    drivers_of g' = (\<lambda>_. [])(IRQ_NUMBER := [GenericTimer], nu := [Pl011Uart], nr := [Pl031Rtc]) \<and>
    enabled V (gic_regs g') \<inter> {32..} = {unat nu, unat nr} \<and> 30 \<in> enabled V (gic_regs g') \<and>
    rtc_dev s' \<noteq> None \<and> timer_enabled s' \<and> console s' = mini_new (as_upper_range a)"
proof -
  define g0 where "g0 = (gic_new (gic_at (as_upper_range (fst d)) (as_upper_range (fst c))) :: ('a, device) GicV2)"
  have g0: "bt_ok (irq_map g0)" "drivers_of g0 = (\<lambda>_. [])" by (simp_all add: g0_def gic_new_def drivers_of_def fun_eq_iff)
  obtain g1 where g1: "gic_init D R BOOT_CORE_ID g0 = Inr g1" "irq_map g1 = irq_map g0"
    using gic_init_effect[OF laws(1-4)] by blast
  obtain g2 where g2: "gic_init D R BOOT_CORE_ID g1 = Inr g2" "irq_map g2 = irq_map g1"
    "enabled V (gic_regs g2) = enabled V (gic_regs g1) - {32..<32 * (groups V + 1)}"
    using gic_init_effect[OF laws(1-4), of BOOT_CORE_ID g1] by auto
  have d2: "bt_ok (irq_map g2)" "drivers_of g2 = (\<lambda>_. [])" using g0 g1(2) g2(2) by (simp_all add: drivers_of_def fun_eq_iff)
  have "enabled V (gic_regs g1) \<subseteq> {..<32 * (groups V + 1)}" using gicd_lawsD(2,11)[OF laws(1)] by blast
  then have e2: "enabled V (gic_regs g2) \<inter> {32..} = {}" using g2(3) by auto
  have irq: "IRQ_NUMBER < 1024" "unat IRQ_NUMBER = 30" by (simp_all add: IRQ_NUMBER_def)
  obtain g3 where g3: "register_and_enable_local_irq D IRQ_NUMBER GenericTimer g2 = Inr g3" "bt_ok (irq_map g3)"
    "drivers_of g3 = (\<lambda>_. [])(IRQ_NUMBER := [GenericTimer])"
    "enabled V (gic_regs g3) = enabled V (gic_regs g2) \<union> {30}"
    using drivers_of_register[OF laws(1) d2(1) irq(1), of GenericTimer] irq(2) d2(2) impl(1) by auto
  have ne: "nu \<noteq> IRQ_NUMBER" "nr \<noteq> IRQ_NUMBER" using impl(2,3) by (auto simp: IRQ_NUMBER_def)
  obtain g4 where g4: "register_and_enable_local_irq D nu Pl011Uart g3 = Inr g4" "bt_ok (irq_map g4)"
    "drivers_of g4 = (\<lambda>_. [])(IRQ_NUMBER := [GenericTimer], nu := [Pl011Uart])"
    "enabled V (gic_regs g4) = enabled V (gic_regs g2) \<union> {30} \<union> {unat nu}"
    using drivers_of_register[OF laws(1) g3(2) uart(2), of Pl011Uart] g3(3,4) ne impl(1) by auto
  obtain g5 where g5: "register_and_enable_local_irq D nr Pl031Rtc g4 = Inr g5"
    "drivers_of g5 = (\<lambda>_. [])(IRQ_NUMBER := [GenericTimer], nu := [Pl011Uart], nr := [Pl031Rtc])"
    "enabled V (gic_regs g5) = enabled V (gic_regs g2) \<union> {30} \<union> {unat nu} \<union> {unat nr}"
    using drivers_of_register[OF laws(1) g4(2) rtc(2), of Pl031Rtc] g4(3,4) ne impl(1,4) by auto
  obtain u where u: "uart_init U R (uart_new (uart_at (as_upper_range a))) = Some u"
    using uart_init_ends[OF laws(5,3)] uart(3) by (fastforce simp: uart_new_def)
  define s' where "s' = s\<lparr>timer_enabled := True, console := mini_new (as_upper_range a), uart_dev := u,
    rtc_dev := Some (rtc_init C R (rtc_at (as_upper_range b)))\<rparr>"
  have "interrupt_init T D U C R gic_at uart_at rtc_at BOOT_CORE_ID s = Some (Inr (s', g5))"
    using g1(1) g2(1) g3(1) g4(1) g5(1) rtc(3)
    by (simp add: interrupt_init_def gic_driver_init_eq[OF gic] g0_def[symmetric] timer_driver_init_def
        uart_driver_init_eq[where uart_at = uart_at, OF uart(1) u] rtc_driver_init_eq[OF rtc(1)] s'_def)
  moreover have "32 \<le> unat nu" "32 \<le> unat nr" using impl(2,3) by (simp_all add: word_le_nat_alt)
  then have "enabled V (gic_regs g5) \<inter> {32..} = {unat nu, unat nr}" "30 \<in> enabled V (gic_regs g5)"
    using g5(3) e2 by auto
  moreover have "rtc_dev s' \<noteq> None" "timer_enabled s'" "console s' = mini_new (as_upper_range a)" by (simp_all add: s'_def)
  ultimately show ?thesis using g5(2) by blast
qed

text \<open>A tree like the one of the board, with the interrupt controller, the serial port and the clock.\<close>

definition boot_tree :: "(nat, nat \<times> string) tree" where
  "boot_tree = \<lparr>root_node = 0, tree_nodes = [0, 7, 8, 9],
     node_props = (\<lambda>n. map (Pair n) (if n = 0 then [''#address-cells'', ''#size-cells'']
       else if n = 7 then [''compatible'', ''reg''] else [''compatible'', ''interrupts'', ''reg''])),
     name_of = snd,
     str_of = (\<lambda>(n, p). if p = ''compatible'' then (if n = 7 then GIC_COMPATIBLE else if n = 8 then compatible Pl011Uart else compatible Pl031Rtc) else []),
     cells_of = (\<lambda>(n, p). if p = ''reg'' then
         (if n = 7 then [0, 0x08000000, 0, 0x10000, 0, 0x08010000, 0, 0x10000]
          else if n = 8 then [0, 0x09000000, 0, 0x1000] else [0, 0x09010000, 0, 0x1000])
       else if p = ''interrupts'' then (if n = 8 then [0, 1, 4] else [0, 2, 4]) else [2])\<rparr>"

lemma boot_tree_laws: "fdt_laws (fdt_of boot_tree) boot_tree"
  by (rule fdt_of_laws) (simp add: boot_tree_def split_def)

lemma find_compatible_eq:
  assumes "fdt_laws T t"
  shows "find_compatible T c =
    find (\<lambda>n. \<exists>p \<in> set (node_props t n). name_of t p = ''compatible'' \<and> str_of t p = c) (tree_nodes t)"
  unfolding find_compatible_def
  by (rule find_node_with_prop_eq[OF assms]) (use assms in \<open>simp add: fdt_laws_def\<close>)

lemma boot_tree_nodes:
  "find_compatible (fdt_of boot_tree) GIC_COMPATIBLE = Some 7"
  "find_compatible (fdt_of boot_tree) (compatible Pl011Uart) = Some 8"
  "find_compatible (fdt_of boot_tree) (compatible Pl031Rtc) = Some 9"
  unfolding find_compatible_eq[OF boot_tree_laws] by (simp_all add: boot_tree_def GIC_COMPATIBLE_def)

lemma boot_tree_props:
  "dt_root (fdt_of boot_tree) = Some 0"
  "prop_of boot_tree 0 ''#address-cells'' = Some (0, ''#address-cells'')" "prop_of boot_tree 0 ''#size-cells'' = Some (0, ''#size-cells'')"
  "n \<noteq> 0 \<Longrightarrow> prop_of boot_tree n ''#address-cells'' = None" "n \<noteq> 0 \<Longrightarrow> prop_of boot_tree n ''#size-cells'' = None"
  "n \<noteq> 0 \<Longrightarrow> prop_of boot_tree n ''reg'' = Some (n, ''reg'')"
  "n \<noteq> 0 \<Longrightarrow> n \<noteq> 7 \<Longrightarrow> prop_of boot_tree n ''interrupts'' = Some (n, ''interrupts'')"
  by (simp_all add: dt_root_def fdt_of_def boot_tree_def prop_of_def)

lemma boot_tree_cells:
  assumes "n \<noteq> 0"
  shows "node_address_cells (fdt_of boot_tree) n = Some 2" "node_size_cells (fdt_of boot_tree) n = Some 2"
proof -
  have "prop_u32 (fdt_of boot_tree) (0, ''#address-cells'') 0 = Inr 2" "prop_u32 (fdt_of boot_tree) (0, ''#size-cells'') 0 = Inr 2"
    by (simp_all add: fdt_of_def boot_tree_def)
  then show "node_address_cells (fdt_of boot_tree) n = Some 2" "node_size_cells (fdt_of boot_tree) n = Some 2"
    using assms by (simp_all add: node_address_cells_def node_size_cells_def root_address_cells_def root_size_cells_def
        read_node_prop_u32_def find_prop_by_name_eq[OF boot_tree_laws] boot_tree_props)
qed

definition boot_iter :: "nat \<Rightarrow> usize \<Rightarrow> (nat \<times> string) RegRangeIter" where
  "boot_iter n k = \<lparr>reg_prop = (n, ''reg''), cells = 2, curr_range = 0, range_count = k\<rparr>"

lemma boot_tree_iter:
  "node_reg_range_iter (fdt_of boot_tree) 7 = Inr (Some (boot_iter 7 2))"
  "node_reg_range_iter (fdt_of boot_tree) 8 = Inr (Some (boot_iter 8 1))"
  "node_reg_range_iter (fdt_of boot_tree) 9 = Inr (Some (boot_iter 9 1))"
proof -
  have "prop_length (fdt_of boot_tree) (7, ''reg'') = 32" "prop_length (fdt_of boot_tree) (8, ''reg'') = 16"
    "prop_length (fdt_of boot_tree) (9, ''reg'') = 16"
    by (simp_all add: fdt_of_def boot_tree_def)
  then show "node_reg_range_iter (fdt_of boot_tree) 7 = Inr (Some (boot_iter 7 2))"
    "node_reg_range_iter (fdt_of boot_tree) 8 = Inr (Some (boot_iter 8 1))"
    "node_reg_range_iter (fdt_of boot_tree) 9 = Inr (Some (boot_iter 9 1))"
    by (simp_all add: node_reg_range_iter_def find_prop_by_name_eq[OF boot_tree_laws] boot_tree_props boot_tree_cells boot_iter_def)
qed

lemma boot_tree_described:
  "described (fdt_of boot_tree) Pl011Uart 0x09000000 33" "described (fdt_of boot_tree) Pl031Rtc 0x09010000 34"
  "ranges_upto (fdt_of boot_tree) 2 (boot_iter 7 2) = Inr [(0x08000000, 0x08010000), (0x08010000, 0x08020000)]"
proof -
  let ?T = "fdt_of boot_tree"
  have u: "prop_u64 ?T (8, ''reg'') 0 = Inr 0x09000000" "prop_u64 ?T (8, ''reg'') 1 = Inr 0x1000"
    "prop_u64 ?T (9, ''reg'') 0 = Inr 0x09010000" "prop_u64 ?T (9, ''reg'') 1 = Inr 0x1000"
    "prop_u64 ?T (7, ''reg'') 0 = Inr 0x08000000" "prop_u64 ?T (7, ''reg'') 1 = Inr 0x10000"
    "prop_u64 ?T (7, ''reg'') 2 = Inr 0x08010000" "prop_u64 ?T (7, ''reg'') 3 = Inr 0x10000"
    by (simp_all add: fdt_of_def boot_tree_def)
  have r: "first_reg ?T 8 = Inr (Some 0x09000000)" "first_reg ?T 9 = Inr (Some 0x09010000)"
    by (simp_all add: first_reg_def boot_tree_iter range_next_def boot_iter_def u)
  have i: "prop_u32 ?T (8, ''interrupts'') 0 = Inr 0" "prop_u32 ?T (8, ''interrupts'') 1 = Inr 1" "prop_u32 ?T (8, ''interrupts'') 2 = Inr 4"
    "prop_u32 ?T (9, ''interrupts'') 0 = Inr 0" "prop_u32 ?T (9, ''interrupts'') 1 = Inr 2" "prop_u32 ?T (9, ''interrupts'') 2 = Inr 4"
    "prop_length ?T (8, ''interrupts'') = 12" "prop_length ?T (9, ''interrupts'') = 12"
    by (simp_all add: fdt_of_def boot_tree_def)
  have n: "node_irq ?T 8 = Inr (Some 33)" "node_irq ?T 9 = Inr (Some 34)"
    by (simp_all add: node_irq_def node_interrupt_cell_def find_prop_by_name_eq[OF boot_tree_laws] boot_tree_props i irq_number_def)
  show "described ?T Pl011Uart 0x09000000 33" "described ?T Pl031Rtc 0x09010000 34"
    using boot_tree_nodes r n by (auto simp: described_def)
  show "ranges_upto ?T 2 (boot_iter 7 2) = Inr [(0x08000000, 0x08010000), (0x08010000, 0x08020000)]"
    by (simp add: numeral_2_eq_2 range_next_def boot_iter_def u)
qed

definition demo_rtc :: "(RtcRegister, RtcRegister \<Rightarrow> u32) mmio" where
  "demo_rtc = \<lparr>reg_get = (\<lambda>r h. (h r, h)), reg_set = (\<lambda>r v h. h(r := v))\<rparr>"

theorem boot_connects_devices_witness:
  "\<exists>s' g'. interrupt_init (fdt_of boot_tree) demo_gic demo_uart demo_rtc std_regs
      (\<lambda>_ _. \<lparr>en0 = 0, en1 = 0, tgt = (\<lambda>_. 0), act = {}, reports = []\<rparr>) (\<lambda>_. ([], [], 2)) (\<lambda>_ _. 0) BOOT_CORE_ID
      \<lparr>uart_dev = uart_new ([], [], 0), rtc_dev = None, timer_queue = [] :: nat Timer, timer_woken = [], timer_enabled = False,
       timer_tval = 0, console = mini_default\<rparr> = Some (Inr (s', g')) \<and>
     drivers_of g' 33 = [Pl011Uart] \<and> drivers_of g' 34 = [Pl031Rtc] \<and> drivers_of g' 30 = [GenericTimer] \<and>
     enabled demo_gic_view (gic_regs g') \<inter> {32..} = {33, 34}"
proof -
  have v: "0 < groups demo_gic_view" "{30, unat (33 :: usize), unat (34 :: usize)} \<subseteq> implemented demo_gic_view" "\<And>h. on demo_view h"
    by (simp_all add: demo_gic_view_def demo_view_def)
  show ?thesis
    using boot_connects_devices[OF demo_gicd_laws demo_gicc_laws std_regs_laws v(1) demo_uart_laws boot_tree_nodes(1) boot_tree_iter(1)
        boot_tree_described(3,1) _ v(3) boot_tree_described(2) _ _ v(2),
        of "\<lparr>uart_dev = uart_new ([], [], 0), rtc_dev = None, timer_queue = [] :: nat Timer, timer_woken = [], timer_enabled = False,
          timer_tval = 0, console = mini_default\<rparr>" demo_rtc "\<lambda>_ _. \<lparr>en0 = 0, en1 = 0, tgt = (\<lambda>_. 0), act = {}, reports = []\<rparr>"
          "\<lambda>_. ([], [], 2)" "\<lambda>_ _. 0"]
    by (auto simp: IRQ_NUMBER_def)
qed

section \<open>Layout of the register blocks\<close>

text \<open>the register blocks of the serial port, the clock and the CPU interface are laid out as declared: every
  register is at its offset. Those of the distributor and of the GPIO controller break the rule of
  ascending gap-free offsets; with the layout of the declared struct the interrupt targets of the
  distributor would start at 0x774, in the middle of the priorities, and the GPIO direction register at 1.\<close>
lemma register_layouts:
  "(layout_ok 0 RegisterBlock \<and> placed 0 RegisterBlock = declared RegisterBlock) \<and>
   (layout_ok 0 RtcRegisterBlock \<and> placed 0 RtcRegisterBlock = declared RtcRegisterBlock) \<and>
   (layout_ok 0 GiccRegisterBlock \<and> placed 0 GiccRegisterBlock = declared GiccRegisterBlock) \<and>
   \<not> layout_ok 0 SharedRegisterBlock \<and> map_of (placed 0 SharedRegisterBlock) (ITARGETSR 0) = Some 0x774 \<and>
   map_of (placed 0 SharedRegisterBlock) (ISENABLER 0) = Some 0x104 \<and> map_of (placed 0 SharedRegisterBlock) (ICENABLER 0) = Some 0x180 \<and>
   \<not> layout_ok 0 BankedRegisterBlock \<and> placed 0 BankedRegisterBlock = declared BankedRegisterBlock \<and>
   \<not> layout_ok 0 GpioRegisterBlock \<and> map_of (placed 0 GpioRegisterBlock) DIR = Some 1"
  by (simp add: RegisterBlock_def RtcRegisterBlock_def GiccRegisterBlock_def SharedRegisterBlock_def BankedRegisterBlock_def
      GpioRegisterBlock_def)

end
