(* ===== verification/Trap_Entry.thy ===== *)
theory Trap_Entry
  imports Kernel_Prelude
begin

text \<open>
  Exceptions: decoding the syndrome register (\<^verbatim>\<open>src/kernel/src/arch/aarch64/interrupt/syndrome.rs\<close>), classifying a trap
  from user mode (\<^verbatim>\<open>consts.rs\<close>) and the handler for exceptions that hit the kernel itself
  (\<^verbatim>\<open>handler.rs\<close>). The vectors that fill in the trap number are in the \<^verbatim>\<open>aarch64\<close> crate.
\<close>

section \<open>Syndrome\<close>

datatype Fault = AddressSize | Translation | AccessFlag | Permission | Alignment | TlbConflict | OtherFault u8

definition Fault_from :: "u32 \<Rightarrow> Fault" where
  "Fault_from val =
     (let c = val AND 0x3C
      in if c = 0x00 then AddressSize
         else if c = 0x04 then Translation
         else if c = 0x08 then AccessFlag
         else if c = 0x0C then Permission
         else if c = 0x20 then Alignment
         else if c = 0x30 then TlbConflict
         else OtherFault (ucast (val AND 0x3F)))"

datatype Syndrome =
    Unknown | WfiWfe | McrMrc | McrrMrrc | LdcStc | SimdFp | Vmrs | Mrrc | IllegalExecutionState
  | Svc u16 | Hvc u16 | Smc u16 | MsrMrsSystem
  | InstructionAbort Fault u8 | PCAlignmentFault | DataAbort Fault u8 | SpAlignmentFault
  | TrappedFpu | SErrorSyndrome | Breakpoint | Step | Watchpoint | Brk u16 | OtherSyndrome u32

definition Syndrome_from :: "u32 \<Rightarrow> Syndrome" where
  "Syndrome_from esr =
     (let ec = drop_bit 26 esr; iss = esr AND 0xFFFFFF
      in if ec = 0x00 then Unknown
         else if ec = 0x01 then WfiWfe
         else if ec = 0x03 then McrMrc
         else if ec = 0x04 then McrrMrrc
         else if ec = 0x05 then McrMrc
         else if ec = 0x06 then LdcStc
         else if ec = 0x07 then SimdFp
         else if ec = 0x08 then Vmrs
         else if ec = 0x0C then Mrrc
         else if ec = 0x0E then IllegalExecutionState
         else if ec = 0x11 then Svc (ucast (iss AND 0xFFFF))
         else if ec = 0x12 then Hvc (ucast (iss AND 0xFFFF))
         else if ec = 0x13 then Smc (ucast (iss AND 0xFFFF))
         else if ec = 0x15 then Svc (ucast (iss AND 0xFFFF))
         else if ec = 0x16 then Hvc (ucast (iss AND 0xFFFF))
         else if ec = 0x17 then Smc (ucast (iss AND 0xFFFF))
         else if ec = 0x18 then MsrMrsSystem
         else if ec = 0x20 \<or> ec = 0x21 then InstructionAbort (Fault_from iss) (ucast (iss AND 3))
         else if ec = 0x22 then PCAlignmentFault
         else if ec = 0x24 \<or> ec = 0x25 then DataAbort (Fault_from iss) (ucast (iss AND 3))
         else if ec = 0x26 then SpAlignmentFault
         else if ec = 0x28 then TrappedFpu
         else if ec = 0x2C then TrappedFpu
         else if ec = 0x2F then SErrorSyndrome
         else if ec = 0x30 then Breakpoint
         else if ec = 0x31 then Breakpoint
         else if ec = 0x32 then Step
         else if ec = 0x33 then Step
         else if ec = 0x34 then Watchpoint
         else if ec = 0x35 then Watchpoint
         else if ec = 0x3C then Brk (ucast (iss AND 0xFFFF))
         else OtherSyndrome ec)"

section \<open>Traps from user mode\<close>

definition resolvable :: "Fault \<Rightarrow> bool" where
  "resolvable f \<longleftrightarrow> f \<in> {Translation, AccessFlag, Permission}"

definition is_page_fault :: "usize \<Rightarrow> u32 \<Rightarrow> bool" where
  "is_page_fault trap esr =
     (if trap \<noteq> 0x2 then False
      else case Syndrome_from esr of
             DataAbort f _ \<Rightarrow> resolvable f
           | InstructionAbort f _ \<Rightarrow> resolvable f
           | _ \<Rightarrow> False)"

abbreviation IrqMax :: usize where "IrqMax \<equiv> 0x10002"
abbreviation IrqMin :: usize where "IrqMin \<equiv> 0x10002"
abbreviation SyscallTrap :: usize where "SyscallTrap \<equiv> 0x00002"

definition is_syscall :: "usize \<Rightarrow> bool" where
  "is_syscall trap \<longleftrightarrow> trap = SyscallTrap"

definition is_irq :: "usize \<Rightarrow> bool" where
  "is_irq trap \<longleftrightarrow> IrqMin \<le> trap \<and> trap \<le> IrqMax"

section \<open>Exceptions in the kernel\<close>

datatype Kind = Synchronous | Irq | Fiq | SError

datatype Source = CurrentSpEl0 | CurrentSpElx | LowerAArch64 | LowerAArch32

definition Kind_from :: "u8 \<Rightarrow> Kind outcome" where
  "Kind_from v =
     expect ''Bad kind'' (if v = 0 then Some Synchronous else if v = 1 then Some Irq else if v = 2 then Some Fiq
       else if v = 3 then Some SError else None)"

definition Source_from :: "u8 \<Rightarrow> Source outcome" where
  "Source_from v =
     expect ''Bad source'' (if v = 0 then Some CurrentSpEl0 else if v = 1 then Some CurrentSpElx else if v = 2 then Some LowerAArch64
       else if v = 3 then Some LowerAArch32 else None)"

record Info =
  source :: Source
  kind :: Kind

definition trap_info :: "usize \<Rightarrow> Info outcome" where
  "trap_info trap_num =
     bindE (Source_from (ucast (trap_num AND 0xFFFF))) (\<lambda>s.
     bindE (Kind_from (ucast (drop_bit 16 trap_num))) (\<lambda>n. Inr \<lparr>source = s, kind = n\<rparr>))"

text \<open>\<^verbatim>\<open>memory::handle_page_fault\<close>\<close>

definition kernel_page_fault :: "usize \<Rightarrow> bool" where
  "kernel_page_fault addr = False"

text \<open>\<open>handle_irqs\<close> is what the interrupt controller does with its pending interrupts.\<close>

definition trap_handler :: "('s \<Rightarrow> 's outcome option) \<Rightarrow> usize \<Rightarrow> u32 \<Rightarrow> usize \<Rightarrow> 's \<Rightarrow> 's outcome option" where
  "trap_handler handle_irqs trap_num esr far s =
     (case trap_info trap_num of
        Inl p \<Rightarrow> Some (Inl p)
      | Inr info \<Rightarrow>
          (case kind info of
             Synchronous \<Rightarrow>
               (let abort = (\<lambda>f. if resolvable f
                                 then if \<not> kernel_page_fault far then Some (Inl (Panicked ''EXCEPTION: Page Fault'')) else Some (Inr s)
                                 else Some (Inl (Panicked ''explicit panic'')))
                in case Syndrome_from esr of
                     DataAbort f _ \<Rightarrow> abort f
                   | InstructionAbort f _ \<Rightarrow> abort f
                   | _ \<Rightarrow> Some (Inl (Panicked ''explicit panic'')))
           | Irq \<Rightarrow> handle_irqs s
           | _ \<Rightarrow> Some (Inl (Panicked ''explicit panic''))))"

section \<open>What a trap is taken for\<close>

text \<open>The exception class and the fault status code of a syndrome value.\<close>

definition esr_class :: "u32 \<Rightarrow> u32" where "esr_class esr = drop_bit 26 esr"
definition esr_status :: "u32 \<Rightarrow> u32" where "esr_status esr = esr AND 0x3F"


lemma fault_bits: "unat (v AND 0x3C) = 4 * (unat (v AND 0x3F) div 4)" for v :: u32
proof -
  have "v AND 0x3F = take_bit 6 v" by (simp add: take_bit_eq_mask mask_eq_exp_minus_1)
  then have m: "unat (v AND 0x3F) = unat v mod 64" by (simp add: take_bit_eq_mod unat_mod)
  have "v AND 0x3C = push_bit 2 (drop_bit 2 (v AND 0x3F))"
  proof (rule bit_eqI)
    fix n assume "possible_bit TYPE(u32) n"
    then have "n \<in> set [0..<32]" by (simp add: possible_bit_word)
    then show "bit (v AND 0x3C) n = bit (push_bit 2 (drop_bit 2 (v AND 0x3F))) n"
      by (simp add: upt_rec bit_simps) (elim disjE; simp add: bit_simps)
  qed
  moreover have "4 * (unat (v AND 0x3F) div 4) < 2 ^ 32" using m by simp
  ultimately show ?thesis
    by (simp add: push_bit_eq_mult drop_bit_eq_div unat_word_ariths unat_div mult.commute)
qed

lemma resolvable_status: "resolvable (Fault_from v) \<longleftrightarrow> 4 \<le> v AND 0x3F \<and> v AND 0x3F < 0x10"
proof -
  define n where "n = unat (v AND 0x3F)"
  have c: "v AND 0x3C = of_nat m \<longleftrightarrow> 4 * (n div 4) = m" if "m < 2 ^ 32" for m
    using that fault_bits[of v] by (simp add: word_unat_eq_iff unat_of_nat n_def)
  have "resolvable (Fault_from v) \<longleftrightarrow> 4 * (n div 4) = 4 \<or> 4 * (n div 4) = 8 \<or> 4 * (n div 4) = 12"
    using c[of 0] c[of 4] c[of 8] c[of 12] by (auto simp: Fault_from_def resolvable_def Let_def)
  also have "\<dots> \<longleftrightarrow> 4 \<le> n \<and> n < 16" by presburger
  finally show ?thesis by (simp add: n_def word_le_nat_alt word_less_nat_alt)
qed

lemma iss_status: "(esr AND 0xFFFFFF) AND 0x3F = esr AND (0x3F :: u32)"
  by (simp add: and.assoc)

text \<open>a trap with number 2 (synchronous, from user mode) is treated as a page fault exactly when the exception class is an
  instruction or data abort and the status code a translation, access flag or permission fault. Every other
  synchronous exception, an alignment fault or an undefined instruction too, is taken for a system
  call; only interrupts from user mode are interrupts, and no trap is two of the three.\<close>
lemma user_trap_classes:
  "(is_page_fault trap esr \<longleftrightarrow> trap = 2 \<and> esr_class esr \<in> {0x20, 0x21, 0x24, 0x25} \<and> 4 \<le> esr_status esr \<and> esr_status esr < 0x10) \<and>
   (is_syscall trap \<longleftrightarrow> trap = 2) \<and> (is_irq trap \<longleftrightarrow> trap = 0x10002)"
proof -
  have s: "resolvable (Fault_from (esr AND 0xFFFFFF)) \<longleftrightarrow> 4 \<le> esr_status esr \<and> esr_status esr < 0x10"
    by (simp only: resolvable_status iss_status esr_status_def)
  have "(case Syndrome_from esr of DataAbort f _ \<Rightarrow> resolvable f | InstructionAbort f _ \<Rightarrow> resolvable f | _ \<Rightarrow> False) \<longleftrightarrow>
    esr_class esr \<in> {0x20, 0x21, 0x24, 0x25} \<and> resolvable (Fault_from (esr AND 0xFFFFFF))"
    unfolding Syndrome_from_def Let_def esr_class_def by simp
  then show ?thesis
    by (auto simp: is_page_fault_def s is_syscall_def is_irq_def)
qed

text \<open>An exception the kernel itself causes is never resolved, so only an interrupt comes back.\<close>

lemma kernel_exceptions_fatal:
  "trap_info trap_num = Inr info \<Longrightarrow> kind info \<noteq> Irq \<Longrightarrow> \<exists>p. trap_handler handle_irqs trap_num esr far s = Some (Inl p)"
  "trap_info trap_num = Inr info \<Longrightarrow> kind info = Irq \<Longrightarrow> trap_handler handle_irqs trap_num esr far s = handle_irqs s"
  by (cases "kind info"; auto simp: trap_handler_def kernel_page_fault_def Let_def split: Syndrome.splits)+

end
