(* ===== verification/Syscall_Dispatch.thy ===== *)
theory Syscall_Dispatch
  imports File_Syscalls Trap_Entry Syscall_Table
begin

text \<open>
  The way from a trap to a system call and back: \<^verbatim>\<open>src/kernel/src/syscall/mod.rs\<close> (dispatch and result), the asynchronous calls
  as activities that are polled, \<^verbatim>\<open>src/kernel/src/syscall/time.rs\<close>, and the loop of a user thread
  (\<^verbatim>\<open>Thread::spawn\<close> in \<^verbatim>\<open>src/kernel/src/process/thread.rs\<close>).
\<close>

section \<open>State\<close>

text \<open>What a call works with: the kernel, the calling thread, the memory of its process, the timer queue, the wakers
  called, and the flag \<^verbatim>\<open>exit\<close>.\<close>

record ('pt, 'b, 'i, 'w, 's) sys =
  kern :: "('pt, 'b, 'i, 'w, 's) kernel"
  me :: Thread
  umem :: "usize \<Rightarrow> u8"
  timers :: "'w Timer"
  sys_woken :: "'w list"
  sys_exits :: bool

text \<open>The parts of other crates a call reaches: the page table, contexts, inodes, flags, the layout of \<^verbatim>\<open>TimeSpec\<close> and the
  numbers of errors; and the root inode, the time and a new page table.\<close>

record ('pt, 'b, 'i, 's) env =
  e_mmu :: "('pt, 'b) mmu"
  e_table :: 'pt
  e_ctx :: context_ops
  e_inodes :: "('i, 's) inode_ops"
  e_flags :: flag_ops
  e_root :: "'i outcome"
  e_now :: u64
  e_epoch :: "u8 list"
  e_time_at :: "(usize \<Rightarrow> u8) \<Rightarrow> usize \<Rightarrow> Duration"
  e_errno :: "SysError \<Rightarrow> u64"
  e_num :: "UserContext \<Rightarrow> usize"
  e_args :: "UserContext \<Rightarrow> nat \<Rightarrow> usize"

text \<open>A call that waits: what it does on its next poll. A read keeps the process locked while it waits, so it can look up the
  descriptor again.\<close>

datatype call =
    CRead nat usize usize
  | CPread nat usize usize usize
  | CYield YieldNow
  | CWait WaitFor usize wait_pc
  | CSleep Duration Duration

datatype progress = Finished "usize SysResult" | Suspended call

definition caller :: "('pt, 'b, 'i, 'w, 's) sys \<Rightarrow> ('pt, 'i, 'w) Process" where
  "caller s = objects (kern s) (process (me s))"

definition set_caller :: "('pt, 'i, 'w) Process \<Rightarrow> ('pt, 'b, 'i, 'w, 's) sys \<Rightarrow> ('pt, 'b, 'i, 'w, 's) sys" where
  "set_caller p s = s\<lparr>kern := set_process (process (me s)) p (kern s)\<rparr>"

definition set_fs :: "'s fsys \<Rightarrow> ('pt, 'b, 'i, 'w, 's) sys \<Rightarrow> ('pt, 'b, 'i, 'w, 's) sys" where
  "set_fs st s = s\<lparr>kern := (kern s)\<lparr>fsys := st\<rparr>\<rparr>"

type_synonym ('pt, 'b, 'i, 'w, 's) reply = "(progress \<times> ('pt, 'b, 'i, 'w, 's) sys) outcome option"

definition fin :: "usize SysResult \<Rightarrow> ('pt, 'b, 'i, 'w, 's) sys \<Rightarrow> ('pt, 'b, 'i, 'w, 's) reply" where
  "fin r s = Some (Inr (Finished r, s))"

text \<open>The values of the calls as the \<open>usize\<close> of \<^verbatim>\<open>SysResult\<close>.\<close>

definition res_nat :: "nat SysResult \<Rightarrow> usize SysResult" where
  "res_nat r = (case r of Inl e \<Rightarrow> Inl e | Inr n \<Rightarrow> Inr (of_nat n))"

definition res_unit :: "unit SysResult \<Rightarrow> usize SysResult" where
  "res_unit r = (case r of Inl e \<Rightarrow> Inl e | Inr _ \<Rightarrow> Inr 0)"

text \<open>A call that takes a path: finding its end in user memory may not end.\<close>

definition with_path :: "usize \<Rightarrow> ('pt, 'b, 'i, 'w, 's) sys \<Rightarrow> (string \<Rightarrow> ('pt, 'b, 'i, 'w, 's) reply) \<Rightarrow> ('pt, 'b, 'i, 'w, 's) reply" where
  "with_path a s f = Option.bind (from_cstr (umem s) a) f"

definition fs_call :: "(unit SysResult \<times> 's fsys) outcome \<Rightarrow> ('pt, 'b, 'i, 'w, 's) sys \<Rightarrow> ('pt, 'b, 'i, 'w, 's) reply" where
  "fs_call r s = (case r of Inl p \<Rightarrow> Some (Inl p) | Inr (v, st) \<Rightarrow> fin (res_unit v) (set_fs st s))"

text \<open>Little-endian \<open>u32\<close>.\<close>

definition u32_bytes :: "u32 \<Rightarrow> u8 list" where
  "u32_bytes v = map (\<lambda>i. ucast (drop_bit (8 * i) v)) [0, 1, 2, 3]"

section \<open>The calls that wait\<close>

definition read_reply ::
  "usize \<Rightarrow> call \<Rightarrow> (u8 list SysResult poll \<times> 's fsys) option \<Rightarrow> ('pt, 'b, 'i, 'w, 's) sys \<Rightarrow> ('pt, 'b, 'i, 'w, 's) reply" where
  "read_reply base c r s =
     Option.bind r (\<lambda>(r, st). case r of
       Pending \<Rightarrow> Some (Inr (Suspended c, set_fs st s))
     | Ready (Inl e) \<Rightarrow> fin (Inl e) (set_fs st s)
     | Ready (Inr bs) \<Rightarrow> fin (Inr (of_nat (length bs))) ((set_fs st s)\<lparr>umem := copy_to_user base bs (umem s)\<rparr>))"

text \<open>The loop of \<^verbatim>\<open>sys_wait4\<close> up to the next point where it waits. A thread that waits for its own process locks it twice
  and does not return.\<close>

partial_function (option) wait_run ::
  "'w \<Rightarrow> WaitFor \<Rightarrow> usize \<Rightarrow> wait_pc \<Rightarrow> ('pt, 'b, 'i, 'w, 's) sys \<Rightarrow> (progress \<times> ('pt, 'b, 'i, 'w, 's) sys) option" where
  "wait_run w target wstatus pc s =
     (case pc of
        WTop \<Rightarrow>
          (let (pc', k) = wait_top (process (me s)) target (kern s)
           in case pc' of
                WDone (Inr (p, ec)) \<Rightarrow>
                  Some (Finished (Inr (of_nat p)),
                    s\<lparr>kern := k, umem := (if wstatus = 0 then umem s else copy_to_user wstatus (u32_bytes (ucast ec)) (umem s))\<rparr>)
              | WDone (Inl e) \<Rightarrow> Some (Finished (Inl e), s\<lparr>kern := k\<rparr>)
              | WStuck \<Rightarrow> None
              | _ \<Rightarrow> wait_run w target wstatus pc' (s\<lparr>kern := k\<rparr>))
      | WAwait \<Rightarrow>
          (let (pc', k) = wait_await w (process (me s)) (kern s)
           in if pc' = WAwait then Some (Suspended (CWait target wstatus WAwait), s\<lparr>kern := k\<rparr>)
              else wait_run w target wstatus pc' (s\<lparr>kern := k\<rparr>))
      | WClear \<Rightarrow>
          (let (pc', ws, k) = wait_clear (process (me s)) (kern s)
           in wait_run w target wstatus pc' (s\<lparr>kern := k, sys_woken := sys_woken s @ ws\<rparr>))
      | _ \<Rightarrow> None)"

definition sleep_run :: "'w \<Rightarrow> Duration \<Rightarrow> Duration \<Rightarrow> Duration \<Rightarrow> ('pt, 'b, 'i, 'w, 's) sys \<Rightarrow> ('pt, 'b, 'i, 'w, 's) reply" where
  "sleep_run w now deadline duration s =
     Some (bindE (has_signal_to_handle (tid (me s)) (inner (me s)) (caller s)) (\<lambda>sig.
       bindE (sleep_poll now deadline duration sig w (timers s) (event_bus (caller s))) (\<lambda>(r, es, bus).
         let s = set_caller ((caller s)\<lparr>event_bus := bus\<rparr>) (s\<lparr>timers := es\<rparr>)
         in Inr (case r of
                   Pending \<Rightarrow> Suspended (CSleep deadline duration)
                 | Ready Interrupted \<Rightarrow> Finished (Inl EINTR)
                 | Ready Slept \<Rightarrow> Finished (if sig then Inl EINTR else Inr 0), s))))"

definition yield_run :: "'w \<Rightarrow> YieldNow \<Rightarrow> ('pt, 'b, 'i, 'w, 's) sys \<Rightarrow> ('pt, 'b, 'i, 'w, 's) reply" where
  "yield_run w y s =
     (case yield_poll w y of
        (Pending, ws, y') \<Rightarrow> Some (Inr (Suspended (CYield y'), s\<lparr>sys_woken := sys_woken s @ ws\<rparr>))
      | (Ready _, ws, y') \<Rightarrow> fin (Inr 0) (s\<lparr>sys_woken := sys_woken s @ ws\<rparr>))"

fun poll_call :: "('pt, 'b, 'i, 's) env \<Rightarrow> 'w \<Rightarrow> Duration \<Rightarrow> call \<Rightarrow> ('pt, 'b, 'i, 'w, 's) sys \<Rightarrow> ('pt, 'b, 'i, 'w, 's) reply" where
  "poll_call E w now (CRead fd base len) s =
     read_reply base (CRead fd base len) (sys_read (e_inodes E) fd base len (caller s) (fsys (kern s))) s"
| "poll_call E w now (CPread fd base len pos) s =
     read_reply base (CPread fd base len pos) (sys_pread (e_inodes E) fd base len pos (caller s) (fsys (kern s))) s"
| "poll_call E w now (CYield y) s = yield_run w y s"
| "poll_call E w now (CWait target wstatus pc) s = map_option Inr (wait_run w target wstatus pc s)"
| "poll_call E w now (CSleep deadline duration) s = sleep_run w now deadline duration s"

section \<open>Dispatch\<close>

definition file_syscall ::
  "('pt, 'b, 'i, 's) env \<Rightarrow> usize \<Rightarrow> (nat \<Rightarrow> usize) \<Rightarrow> ('pt, 'b, 'i, 'w, 's) sys \<Rightarrow> ('pt, 'b, 'i, 'w, 's) reply" where
  "file_syscall E num args s =
     (let I = e_inodes E; F = e_flags E; root = e_root E; now = e_now E; p = caller s; st = fsys (kern s);
          a = (\<lambda>n. unat (args n)); path = (\<lambda>n. with_path (args n) s)
      in if num = SYS_WRITE then let (r, st) = sys_write I (a 0) (args 1) (args 2) (umem s) p st in fin (res_nat r) (set_fs st s)
         else if num = SYS_OPENAT then path 1 (\<lambda>f.
           case sys_open_at I F root now (a 0) f (args 2) (args 3) p st of
             Inl e \<Rightarrow> Some (Inl e) | Inr (r, p, st) \<Rightarrow> fin (res_nat r) (set_fs st (set_caller p s)))
         else if num = SYS_CLOSE then let (r, p) = sys_close (a 0) p in fin (res_nat r) (set_caller p s)
         else if num = SYS_LSEEK then let (r, st) = sys_lseek I (a 0) (args 1) (ucast (args 2)) p st in fin r (set_fs st s)
         else if num = SYS_PWRITE64 then let (r, st) = sys_pwrite I (a 0) (args 1) (args 2) (args 3) (umem s) p st in fin (res_nat r) (set_fs st s)
         else if num = SYS_FSYNC then fs_call (Inr (sys_fsync I (a 0) p st)) s
         else if num = SYS_FDATASYNC then fs_call (Inr (sys_fdata_sync I (a 0) p st)) s
         else if num = SYS_TRUNCATE then path 0 (\<lambda>f. fs_call (sys_truncate I F root f (args 1) p st) s)
         else if num = SYS_FTRUNCATE then fs_call (Inr (sys_ftruncate I (a 0) (args 1) p st)) s
         else if num = SYS_GETCWD then let (r, m) = sys_get_cwd (args 0) (args 1) (umem s) p in fin r (s\<lparr>umem := m\<rparr>)
         else if num = SYS_CHDIR then path 0 (\<lambda>f.
           case sys_chdir I F root f p st of Inl e \<Rightarrow> Some (Inl e) | Inr (r, p) \<Rightarrow> fin (res_unit r) (set_caller p s))
         else if num = SYS_RENAMEAT then path 1 (\<lambda>f. path 3 (\<lambda>g. fs_call (sys_rename_at I F root (a 0) f (a 2) g p st) s))
         else if num = SYS_MKDIRAT then path 1 (\<lambda>f. fs_call (sys_mkdir_at I F root now (a 0) f (args 2) p st) s)
         else if num = SYS_LINKAT then path 1 (\<lambda>f. path 3 (\<lambda>g. fs_call (sys_link_at I F root (a 0) f (a 2) g (args 4) p st) s))
         else if num = SYS_UNLINKAT then path 1 (\<lambda>f. fs_call (sys_unlink_at I F root (a 0) f (args 2) p st) s)
         else if num = SYS_SYMLINKAT then path 0 (\<lambda>f. path 2 (\<lambda>g. fs_call (sys_symlink_at I F root now f (a 1) g p st) s))
         else if num = SYS_FACCESSAT then path 1 (\<lambda>f.
           case sys_faccess_at I F root (a 0) f (args 2) (args 3) p st of Inl e \<Rightarrow> Some (Inl e) | Inr r \<Rightarrow> fin (res_unit r) s)
         else let (r, p) = sys_dup3 (a 0) (a 1) (args 2) p in fin (res_nat r) (set_caller p s))"

definition FILE_CALLS :: "usize list" where
  "FILE_CALLS =
     [SYS_WRITE, SYS_OPENAT, SYS_CLOSE, SYS_LSEEK, SYS_PWRITE64, SYS_FSYNC, SYS_FDATASYNC, SYS_TRUNCATE, SYS_FTRUNCATE, SYS_GETCWD,
      SYS_CHDIR, SYS_RENAMEAT, SYS_MKDIRAT, SYS_LINKAT, SYS_UNLINKAT, SYS_SYMLINKAT, SYS_FACCESSAT, SYS_DUP3]"

definition sys_clock_get_time :: "('pt, 'b, 'i, 's) env \<Rightarrow> usize \<Rightarrow> usize \<Rightarrow> ('pt, 'b, 'i, 'w, 's) sys \<Rightarrow> ('pt, 'b, 'i, 'w, 's) reply" where
  "sys_clock_get_time E clock ts s = fin (Inr 0) (s\<lparr>umem := copy_to_user ts (e_epoch E) (umem s)\<rparr>)"

definition sys_nanosleep ::
  "('pt, 'b, 'i, 's) env \<Rightarrow> 'w \<Rightarrow> Duration \<Rightarrow> usize \<Rightarrow> ('pt, 'b, 'i, 'w, 's) sys \<Rightarrow> ('pt, 'b, 'i, 'w, 's) reply" where
  "sys_nanosleep E w now req s =
     (let time = e_time_at E (umem s) req
      in if time = 0 then fin (Inr 0) s
         else case duration_add now time of Inl p \<Rightarrow> Some (Inl p) | Inr deadline \<Rightarrow> sleep_run w now deadline time s)"

definition syscall ::
  "('pt, 'b, 'i, 's) env \<Rightarrow> 'w \<Rightarrow> Duration \<Rightarrow> UserContext \<Rightarrow> usize \<Rightarrow> (nat \<Rightarrow> usize) \<Rightarrow> ('pt, 'b, 'i, 'w, 's) sys \<Rightarrow>
   ('pt, 'b, 'i, 'w, 's) reply" where
  "syscall E w now tf num args s =
     (if num = SYS_READ then poll_call E w now (CRead (unat (args 0)) (args 1) (args 2)) s
      else if num = SYS_PREAD64 then poll_call E w now (CPread (unat (args 0)) (args 1) (args 2) (args 3)) s
      else if num \<in> set FILE_CALLS then file_syscall E num args s
      else if num = SYS_SCHED_YIELD then yield_run w (YieldNow False) s
      else if num = SYS_CLONE then
        (case sys_clone (e_mmu E) (e_table E) (e_ctx E) (me s) tf (args 0) (args 1) (args 2) (args 3) (args 4) (kern s) of
           Inl p \<Rightarrow> Some (Inl p)
         | Inr (r, ws, k) \<Rightarrow> fin (res_nat r) (s\<lparr>kern := k, umem := fold (\<lambda>(a, v). copy_to_user a (u32_bytes v)) ws (umem s)\<rparr>))
      else if num = SYS_EXIT then
        (let (ws, k) = sys_exit (args 0) (me s) (kern s) in fin (Inr 0) (s\<lparr>kern := k, sys_woken := sys_woken s @ ws, sys_exits := True\<rparr>))
      else if num = SYS_EXIT_GROUP then
        (let (ws, k) = sys_exit_group (args 0) (me s) (kern s) in fin (Inr 0) (s\<lparr>kern := k, sys_woken := sys_woken s @ ws, sys_exits := True\<rparr>))
      else if num = SYS_WAIT4 then
        (case wait_target (args 0) of Inl p \<Rightarrow> Some (Inl p) | Inr target \<Rightarrow> map_option Inr (wait_run w target (args 1) WTop s))
      else if num = SYS_SET_TID_ADDRESS then
        fin (Inr (of_nat (tid (me s)))) (s\<lparr>me := (me s)\<lparr>inner := sys_set_tid_address (args 0) (inner (me s))\<rparr>\<rparr>)
      else if num = SYS_NANOSLEEP then sys_nanosleep E w now (args 0) s
      else if num = SYS_CLOCK_GETTIME then
        (if args 1 = 0 then Some (Inl UnwrapNone) else sys_clock_get_time E (args 0) (args 1) s)
      else Some (Inl Todo))"

text \<open>\<^verbatim>\<open>Ok(code) => code as isize, Err(err) => -(err as isize)\<close>\<close>

definition sys_ret :: "(SysError \<Rightarrow> u64) \<Rightarrow> usize SysResult \<Rightarrow> usize" where
  "sys_ret errno r = (case r of Inr c \<Rightarrow> c | Inl e \<Rightarrow> - errno e)"

section \<open>The loop of a user thread\<close>

text \<open>Where the task of a thread is: at the top of the loop, waiting inside a system call with the context of the trap,
  giving way to other tasks, or done.\<close>

datatype thread_pc = AtUser | InCall UserContext call | Yielding YieldNow | Stopped

text \<open>What user code does until the next trap: the context and memory it leaves, the number of the trap, the syndrome and
  the fault address.\<close>

record user_run =
  ur_ctx :: UserContext
  ur_mem :: "usize \<Rightarrow> u8"
  ur_trap :: usize
  ur_esr :: u32
  ur_far :: usize

definition vm_of :: "('pt, 'b, 'i, 'w, 's) sys \<Rightarrow> ('pt, 'b) MemorySet" where
  "vm_of s = \<lparr>areas = vm_areas (caller s), space = \<lparr>table = vm_table (caller s), frames = mem_frames (kern s), ram = mem_ram (kern s)\<rparr>\<rparr>"

definition set_vm :: "('pt, 'b) MemorySet \<Rightarrow> ('pt, 'b, 'i, 'w, 's) sys \<Rightarrow> ('pt, 'b, 'i, 'w, 's) sys" where
  "set_vm vm s =
     (let s = set_caller ((caller s)\<lparr>vm_areas := areas vm, vm_table := table (space vm)\<rparr>) s
      in s\<lparr>kern := (kern s)\<lparr>mem_frames := frames (space vm), mem_ram := ram (space vm)\<rparr>\<rparr>)"

text \<open>The end of a turn: signals, then the context goes back to the thread. \<open>old\<close> is what user memory holds where a frame
  is written; the frames written are returned.\<close>

definition after_trap ::
  "('pt, 'b, 'i, 's) env \<Rightarrow> (usize \<Rightarrow> u8 list) \<Rightarrow> 'w \<Rightarrow> bool \<Rightarrow> bool \<Rightarrow> UserContext \<Rightarrow> ('pt, 'b, 'i, 'w, 's) sys \<Rightarrow>
   (thread_pc \<times> (usize \<times> SignalFrame) list \<times> ('pt, 'b, 'i, 'w, 's) sys) outcome" where
  "after_trap E old w exit do_yield tf s =
     bindE (if exit then Inr \<lparr>thread_exits = True, new_inner = inner (me s), new_tf = tf, frames_written = [], wakers = [], new_kernel = kern s\<rparr>
            else handle_signal (e_ctx E) old (tid (me s)) (process (me s)) (inner (me s)) tf [] (kern s)) (\<lambda>h.
     let s = s\<lparr>kern := new_kernel h, me := (me s)\<lparr>inner := end_running (new_tf h) (new_inner h)\<rparr>, sys_woken := sys_woken s @ wakers h\<rparr>
     in Inr (if thread_exits h then (Stopped, frames_written h, s)
             else if do_yield
             then (case yield_poll w (YieldNow False) of (_, ws, y) \<Rightarrow> (Yielding y, frames_written h, s\<lparr>sys_woken := sys_woken s @ ws\<rparr>))
             else (AtUser, frames_written h, s)))"

text \<open>\<^verbatim>\<open>handle_syscall\<close> once the call has an answer: the result goes to the context.\<close>

definition call_answered ::
  "('pt, 'b, 'i, 's) env \<Rightarrow> (usize \<Rightarrow> u8 list) \<Rightarrow> 'w \<Rightarrow> UserContext \<Rightarrow> ('pt, 'b, 'i, 'w, 's) reply \<Rightarrow>
   (thread_pc \<times> (usize \<times> SignalFrame) list \<times> ('pt, 'b, 'i, 'w, 's) sys) outcome option" where
  "call_answered E old w tf r =
     map_option (\<lambda>r. bindE r (\<lambda>(pr, s). case pr of
       Suspended c \<Rightarrow> Inr (InCall tf c, [], s)
     | Finished v \<Rightarrow> after_trap E old w (sys_exits s) False (set_syscall_ret (e_ctx E) (sys_ret (e_errno E) v) tf) s)) r"

definition handle_syscall ::
  "('pt, 'b, 'i, 's) env \<Rightarrow> (usize \<Rightarrow> u8 list) \<Rightarrow> 'w \<Rightarrow> Duration \<Rightarrow> UserContext \<Rightarrow> ('pt, 'b, 'i, 'w, 's) sys \<Rightarrow>
   (thread_pc \<times> (usize \<times> SignalFrame) list \<times> ('pt, 'b, 'i, 'w, 's) sys) outcome option" where
  "handle_syscall E old w now tf s =
     call_answered E old w tf (syscall E w now tf (e_num E tf) (e_args E tf) (s\<lparr>sys_exits := False\<rparr>))"

text \<open>One turn of the loop. \<open>run\<close> is the user code, \<open>handle_irqs\<close> the interrupt controller with the devices.\<close>

definition thread_turn ::
  "('pt, 'b, 'i, 's) env \<Rightarrow> (usize \<Rightarrow> u8 list) \<Rightarrow> (UserContext \<Rightarrow> user_run) \<Rightarrow> ('d \<Rightarrow> 'd outcome option) \<Rightarrow> 'w \<Rightarrow> Duration \<Rightarrow>
   ('pt, 'b, 'i, 'w, 's) sys \<Rightarrow> 'd \<Rightarrow> ((thread_pc \<times> (usize \<times> SignalFrame) list \<times> ('pt, 'b, 'i, 'w, 's) sys) \<times> 'd) outcome option" where
  "thread_turn E old run handle_irqs w now s d =
     (case begin_running (inner (me s)) of
        Inl p \<Rightarrow> Some (Inl p)
      | Inr (tf0, i) \<Rightarrow>
          (let u = run tf0; tf = ur_ctx u; s = s\<lparr>me := (me s)\<lparr>inner := i\<rparr>, umem := ur_mem u\<rparr>;
               same = (\<lambda>r. bindE r (\<lambda>x. Inr (x, d)))
           in if is_page_fault (ur_trap u) (ur_esr u)
              then Some (same (bindE (ms_handle_page_fault (e_mmu E) (ur_far u) (vm_of s)) (\<lambda>(ok, vm).
                     if ok then after_trap E old w False False tf (set_vm vm s) else Inl (Panicked ''page fault handle failed''))))
              else if is_syscall (ur_trap u) then map_option same (handle_syscall E old w now tf s)
              else if is_irq (ur_trap u)
              then map_option (\<lambda>r. bindE r (\<lambda>d. bindE (after_trap E old w False True tf s) (\<lambda>x. Inr (x, d)))) (handle_irqs d)
              else Some (Inl (Panicked ''unhandled trap in thread''))))"

text \<open>The next step of the task: from where it is to the next point where it waits or to the top of the loop.\<close>

definition thread_step ::
  "('pt, 'b, 'i, 's) env \<Rightarrow> (usize \<Rightarrow> u8 list) \<Rightarrow> (UserContext \<Rightarrow> user_run) \<Rightarrow> ('d \<Rightarrow> 'd outcome option) \<Rightarrow> 'w \<Rightarrow> Duration \<Rightarrow>
   thread_pc \<Rightarrow> ('pt, 'b, 'i, 'w, 's) sys \<Rightarrow> 'd \<Rightarrow>
   ((thread_pc \<times> (usize \<times> SignalFrame) list \<times> ('pt, 'b, 'i, 'w, 's) sys) \<times> 'd) outcome option" where
  "thread_step E old run handle_irqs w now pc s d =
     (case pc of
        AtUser \<Rightarrow> thread_turn E old run handle_irqs w now s d
      | InCall tf c \<Rightarrow> map_option (\<lambda>r. bindE r (\<lambda>x. Inr (x, d))) (call_answered E old w tf (poll_call E w now c s))
      | Yielding y \<Rightarrow>
          (case yield_poll w y of
             (Pending, ws, y') \<Rightarrow> Some (Inr ((Yielding y', [], s\<lparr>sys_woken := sys_woken s @ ws\<rparr>), d))
           | (Ready _, ws, y') \<Rightarrow> Some (Inr ((AtUser, [], s\<lparr>sys_woken := sys_woken s @ ws\<rparr>), d)))
      | Stopped \<Rightarrow> Some (Inr ((Stopped, [], s), d)))"

section \<open>Every call keeps the kernel state well formed\<close>

text \<open>The tables are consistent and the task of the calling thread keeps its process alive.\<close>

definition wf_sys :: "('pt, 'b, 'i, 'w, 's) sys \<Rightarrow> bool" where
  "wf_sys s \<longleftrightarrow> tables_ok (kern s) \<and> held_ok (kern s) \<and> process (me s) \<in> set (held (kern s))"

text \<open>The thread is still the same, and its context is as it was.\<close>

definition same_thread :: "Thread \<Rightarrow> Thread \<Rightarrow> bool" where
  "same_thread t t' \<longleftrightarrow> tid t' = tid t \<and> process t' = process t \<and> ctx (inner t') = ctx (inner t)"

definition call_wf :: "('pt, 'b, 'i, 'w, 's) sys \<Rightarrow> ('pt, 'b, 'i, 'w, 's) reply \<Rightarrow> bool" where
  "call_wf s r \<longleftrightarrow> (\<forall>pr s'. r = Some (Inr (pr, s')) \<longrightarrow> wf_sys s' \<and> same_thread (me s) (me s') \<and> set (held (kern s)) \<subseteq> set (held (kern s')))"

lemma same_thread_refl [simp]: "same_thread t t"
  by (simp add: same_thread_def)

lemma call_wfI [intro]: "(\<And>pr s'. r = Some (Inr (pr, s')) \<Longrightarrow> wf_sys s' \<and> same_thread (me s) (me s') \<and> set (held (kern s)) \<subseteq> set (held (kern s'))) \<Longrightarrow> call_wf s r"
  by (simp add: call_wf_def)

lemma call_wf_simps [simp]:
  "call_wf s None" "call_wf s (Some (Inl p))"
  "call_wf s (Some (Inr (pr, s'))) \<longleftrightarrow> wf_sys s' \<and> same_thread (me s) (me s') \<and> set (held (kern s)) \<subseteq> set (held (kern s'))"
  "call_wf s (fin v s') \<longleftrightarrow> wf_sys s' \<and> same_thread (me s) (me s') \<and> set (held (kern s)) \<subseteq> set (held (kern s'))"
  by (auto simp: call_wf_def fin_def)

lemma held_ok_fsys [simp]: "held_ok (k\<lparr>fsys := g\<rparr>) = held_ok k" "held_ok (k\<lparr>mem_frames := f, mem_ram := m\<rparr>) = held_ok k"
  by (simp_all add: held_ok_def)

lemma wf_sys_local [simp]:
  "wf_sys (s\<lparr>umem := m\<rparr>) = wf_sys s" "wf_sys (s\<lparr>timers := q\<rparr>) = wf_sys s" "wf_sys (s\<lparr>sys_woken := ws\<rparr>) = wf_sys s"
  "wf_sys (s\<lparr>sys_exits := b\<rparr>) = wf_sys s" "wf_sys (set_fs st s) = wf_sys s" "wf_sys (s\<lparr>me := (me s)\<lparr>inner := i\<rparr>\<rparr>) = wf_sys s"
  by (simp_all add: wf_sys_def set_fs_def)

lemma me_local [simp]: "me (set_fs st s) = me s" "me (set_caller p s) = me s"
  "held (kern (set_fs st s)) = held (kern s)" "held (kern (set_caller p s)) = held (kern s)"
  by (simp_all add: set_fs_def set_caller_def)

lemma wf_sys_next: "wf_sys s \<Longrightarrow> process (me s) < next_object (kern s)"
  by (simp add: wf_sys_def held_ok_def)

lemma wf_set_caller:
  assumes "wf_sys s" "pid p = pid (caller s)" "threads p = threads (caller s)"
  shows "wf_sys (set_caller p s)"
  using local_tables[of "kern s" p "process (me s)"] assms wf_sys_next[OF assms(1)]
  by (auto simp: wf_sys_def set_caller_def caller_def)

lemma with_path_wf: "(\<And>f. call_wf s (g f)) \<Longrightarrow> call_wf s (with_path a s g)"
  by (auto simp: with_path_def split: Option.bind_splits)

lemma fs_call_wf: "wf_sys s \<Longrightarrow> call_wf s (fs_call r s)"
  by (auto simp: fs_call_def split: sum.splits)

lemma add_file_ids: "add_file h p = (fd, p') \<Longrightarrow> pid p' = pid p \<and> threads p' = threads p"
  by (auto simp: add_file_def Let_def)

lemma sys_open_at_ids:
  "sys_open_at I F root now fd path flags mode p st = Inr (r, p', st') \<Longrightarrow> pid p' = pid p \<and> threads p' = threads p"
  unfolding sys_open_at_def by (erule bindE_InrE) (auto simp: Let_def split: sum.splits prod.splits dest!: add_file_ids)

lemma sys_close_ids: "sys_close fd p = (r, p') \<Longrightarrow> pid p' = pid p \<and> threads p' = threads p"
  by (auto simp: sys_close_def split: option.splits)

lemma sys_dup3_ids: "sys_dup3 a b fl p = (r, p') \<Longrightarrow> pid p' = pid p \<and> threads p' = threads p"
  by (auto simp: sys_dup3_def Let_def split: sum.splits)

lemma sys_chdir_ids: "sys_chdir I F root path p st = Inr (r, p') \<Longrightarrow> pid p' = pid p \<and> threads p' = threads p"
  unfolding sys_chdir_def by (erule bindE_InrE) (auto simp: Let_def split: sum.splits if_splits)

lemma file_syscall_wf:
  assumes "wf_sys s"
  shows "call_wf s (file_syscall E num args s)"
proof -
  let ?p = "caller s"
  have pure: "call_wf s (let (r, st) = x in fin (g r) (set_fs st s))" "call_wf s (let (r, m) = y in fin r (s\<lparr>umem := m\<rparr>))" for x y g
    using assms by (simp_all add: split_def)
  have proc: "call_wf s (let (r, p) = x in fin (g r) (set_caller p s))" if "\<And>r p. x = (r, p) \<Longrightarrow> pid p = pid ?p \<and> threads p = threads ?p" for x g
    using that wf_set_caller[OF assms] by (cases x) simp
  have opened: "call_wf s (case sys_open_at I F root now fd path flags mode ?p st of
      Inl e \<Rightarrow> Some (Inl e) | Inr (r, p, st) \<Rightarrow> fin (res_nat r) (set_fs st (set_caller p s)))" for I F root now fd path flags mode st
    using wf_set_caller[OF assms] by (auto split: sum.splits dest!: sys_open_at_ids)
  have moved: "call_wf s (case sys_chdir I F root path ?p st of Inl e \<Rightarrow> Some (Inl e) | Inr (r, p) \<Rightarrow> fin (res_unit r) (set_caller p s))"
    for I F root path st
    using wf_set_caller[OF assms] by (auto split: sum.splits dest!: sys_chdir_ids)
  have asked: "call_wf s (case x of Inl e \<Rightarrow> Some (Inl e) | Inr r \<Rightarrow> fin (res_unit r) s)" for x
    using assms by (auto split: sum.splits)
  note rules = with_path_wf fs_call_wf[OF assms] pure proc opened moved asked sys_close_ids sys_dup3_ids
  show ?thesis
    unfolding file_syscall_def Let_def[of "e_inodes E"] Let_def[of "e_flags E"] Let_def[of "e_root E"] Let_def[of "e_now E"]
      Let_def[of ?p] Let_def[of "fsys (kern s)"] Let_def[of "\<lambda>n. unat (args n)"] Let_def[of "\<lambda>n. with_path (args n) s"]
    by (simp only: if_split) (intro conjI impI rules; assumption)
qed

lemma wf_kern:
  assumes "wf_sys s" "tables_ok k" "held_ok k" "set (held (kern s)) \<subseteq> set (held k)"
  shows "wf_sys (s\<lparr>kern := k\<rparr>)"
  using assms by (auto simp: wf_sys_def)

lemma wait_held:
  "wait_top r target k = (pc, k') \<Longrightarrow> held k' = held k" "wait_await w r k = (pc, k') \<Longrightarrow> held k' = held k"
  "wait_clear r k = (pc, ws, k') \<Longrightarrow> held k' = held k"
  by (auto simp: wait_top_def wait_await_def wait_clear_def reap_def Let_def split: if_splits option.splits prod.splits poll.splits)

lemma wait_wf:
  assumes "wf_sys s"
  shows "wait_top (process (me s)) target (kern s) = (pc, k) \<Longrightarrow> wf_sys (s\<lparr>kern := k\<rparr>)"
    "wait_await w (process (me s)) (kern s) = (pc, k) \<Longrightarrow> wf_sys (s\<lparr>kern := k\<rparr>)"
    "wait_clear (process (me s)) (kern s) = (pc, ws, k) \<Longrightarrow> wf_sys (s\<lparr>kern := k\<rparr>)"
proof -
  note t = wait_tables[OF _ _ wf_sys_next[OF assms]] and w = assms[unfolded wf_sys_def]
  show "wait_top (process (me s)) target (kern s) = (pc, k) \<Longrightarrow> wf_sys (s\<lparr>kern := k\<rparr>)"
    using t(1)[of target pc k] w wait_held(1)[of "process (me s)" target "kern s" pc k] by (intro wf_kern[OF assms]) auto
  show "wait_await w (process (me s)) (kern s) = (pc, k) \<Longrightarrow> wf_sys (s\<lparr>kern := k\<rparr>)"
    using t(2)[of w pc k] w wait_held(2)[of w "process (me s)" "kern s" pc k] by (intro wf_kern[OF assms]) auto
  show "wait_clear (process (me s)) (kern s) = (pc, ws, k) \<Longrightarrow> wf_sys (s\<lparr>kern := k\<rparr>)"
    using t(3)[of pc ws k] w wait_held(3)[of "process (me s)" "kern s" pc ws k] by (intro wf_kern[OF assms]) auto
qed

lemma wait_run_wf:
  assumes "wait_run w target wstatus pc s = Some r"
  shows "wf_sys s \<longrightarrow> wf_sys (snd r) \<and> me (snd r) = me s \<and> held (kern (snd r)) = held (kern s)"
  using assms
proof (induction rule: wait_run.raw_induct[rotated, consumes 1, case_names step])
  case (step wait_run w target wstatus pc s r)
  show ?case
  proof (rule impI, cases pc)
    assume wf: "wf_sys s"
    {
      case WTop
      obtain pc' k where t: "wait_top (process (me s)) target (kern s) = (pc', k)" by fastforce
      show "wf_sys (snd r) \<and> me (snd r) = me s \<and> held (kern (snd r)) = held (kern s)" using step(1)[of w target wstatus pc' "s\<lparr>kern := k\<rparr>"] step(2) WTop t wait_wf(1)[OF wf t] wait_held(1)[OF t]
        by (auto split: wait_pc.splits sum.splits)
    next
      case WAwait
      obtain pc' k where t: "wait_await w (process (me s)) (kern s) = (pc', k)" by fastforce
      show "wf_sys (snd r) \<and> me (snd r) = me s \<and> held (kern (snd r)) = held (kern s)" using step(1)[of w target wstatus pc' "s\<lparr>kern := k\<rparr>"] step(2) WAwait t wait_wf(2)[OF wf t] wait_held(2)[OF t]
        by (auto split: if_splits)
    next
      case WClear
      obtain pc' ws k where t: "wait_clear (process (me s)) (kern s) = (pc', ws, k)" by (metis prod_cases3)
      show "wf_sys (snd r) \<and> me (snd r) = me s \<and> held (kern (snd r)) = held (kern s)"
        using step(1)[of w target wstatus pc' "s\<lparr>kern := k, sys_woken := sys_woken s @ ws\<rparr>"] step(2) WClear t wait_wf(3)[OF wf t] wait_held(3)[OF t]
        by auto
    }
  qed (use step(2) in auto)
qed

lemma sleep_run_wf:
  assumes "wf_sys s"
  shows "call_wf s (sleep_run w now deadline duration s)"
proof -
  have "wf_sys (set_caller ((caller s)\<lparr>event_bus := bus\<rparr>) (s\<lparr>timers := es\<rparr>))" for bus es
    using assms by (intro wf_set_caller) (simp_all add: caller_def)
  then show ?thesis unfolding call_wf_def sleep_run_def Let_def
    by (auto simp: bindE_eq_Inr)
qed

lemma yield_run_wf: "wf_sys s \<Longrightarrow> call_wf s (yield_run w y s)"
  by (cases y) (simp add: yield_run_def)

lemma read_reply_wf: "wf_sys s \<Longrightarrow> call_wf s (read_reply base c r s)"
  by (auto simp: read_reply_def split: Option.bind_splits poll.splits sum.splits)

lemma poll_call_wf: "wf_sys s \<Longrightarrow> call_wf s (poll_call E w now c s)"
  by (cases c) (auto simp: read_reply_wf yield_run_wf sleep_run_wf call_wf_def[of _ "map_option _ _"] dest!: wait_run_wf)

lemma sys_exit_held: "sys_exit ec t k = (ws, k') \<Longrightarrow> held k' = held k"
  by (auto simp: sys_exit_def Let_def process_exit_result(4) split: if_splits)

lemma sys_clone_held:
  assumes "sys_clone M nt C t tf fl sp pt ct tls k = Inr (r, ws, k')" "process t < next_object k"
  shows "set (held k) \<subseteq> set (held k')"
  using assms(1)
proof (cases rule: sys_clone_cases)
  case 1
  from sys_fork_result[OF this] obtain as pt f m t' k1 where f: "fork C as pt t tf (k\<lparr>mem_frames := f, mem_ram := m\<rparr>) = (t', k1)"
    and k': "k' = thread_spawn t' k1" by metis
  have "held k1 = held k" using fork_result(6)[OF f] assms(2) by simp
  then show ?thesis by (auto simp: k' thread_spawn_def)
next
  case (3 t' k1)
  then have "held k1 = held k" by (auto simp: new_clone_def add_to_table_def Let_def)
  then show ?thesis by (auto simp: 3(2) thread_spawn_def)
qed simp

lemma syscall_wf:
  assumes "wf_sys s"
  shows "call_wf s (syscall E w now tf num args s)"
proof -
  note ok = assms[unfolded wf_sys_def] and n = wf_sys_next[OF assms]
  have clone: "wf_sys (s\<lparr>kern := k\<rparr>) \<and> set (held (kern s)) \<subseteq> set (held k)" if "sys_clone M nt C (me s) tf fl sp pt ct tls (kern s) = Inr (r, ws, k)" for M nt C fl sp pt ct tls r ws k
    using sys_clone_tables[OF _ _ _ that] sys_clone_held[OF that n] ok by (intro conjI wf_kern[OF assms]) auto
  have exits: "wf_sys (s\<lparr>kern := k\<rparr>) \<and> held k = held (kern s)" if "sys_exit ec (me s) (kern s) = (ws, k)" for ec ws k
    using sys_exit_tables[OF _ _ n that] sys_exit_held[OF that] ok by (intro conjI wf_kern[OF assms]) auto
  have group: "wf_sys (s\<lparr>kern := k\<rparr>) \<and> held k = held (kern s)" if "sys_exit_group ec (me s) (kern s) = (ws, k)" for ec ws k
    using process_exit_tables[OF _ n, of ec ws k] process_exit_result(3,4)[of ec "process (me s)" "kern s" ws k] that ok
    by (intro conjI wf_kern[OF assms]) (auto simp: sys_exit_group_def held_ok_def)
  have waits: "call_wf s (map_option Inr (wait_run w target st WTop s))" for target st
    using assms by (auto simp: call_wf_def dest!: wait_run_wf)
  have sleeps: "call_wf s (sys_nanosleep E w now a s)" for a
    using assms sleep_run_wf[OF assms] by (auto simp: sys_nanosleep_def Let_def split: sum.splits)
  have cloned: "call_wf s (case sys_clone M nt C (me s) tf fl sp pt ct tls (kern s) of
      Inl p \<Rightarrow> Some (Inl p) | Inr (r, ws, k) \<Rightarrow> fin (res_nat r) (s\<lparr>kern := k, umem := g ws\<rparr>))" for M nt C fl sp pt ct tls g
    by (auto split: sum.splits dest!: clone)
  have exited: "call_wf s (let (ws, k) = sys_exit ec (me s) (kern s) in fin (Inr 0) (s\<lparr>kern := k, sys_woken := sys_woken s @ ws, sys_exits := True\<rparr>))"
    "call_wf s (let (ws, k) = sys_exit_group ec (me s) (kern s) in fin (Inr 0) (s\<lparr>kern := k, sys_woken := sys_woken s @ ws, sys_exits := True\<rparr>))" for ec
    by (auto split: prod.splits dest!: exits group)
  have waited: "call_wf s (case x of Inl p \<Rightarrow> Some (Inl p) | Inr target \<Rightarrow> map_option Inr (wait_run w target st WTop s))" for x st
    using waits by (auto split: sum.splits)
  have rest: "call_wf s (fin v (s\<lparr>me := (me s)\<lparr>inner := sys_set_tid_address a (inner (me s))\<rparr>\<rparr>))"
    "call_wf s (sys_clock_get_time E a b s)" "call_wf s (Some (Inl p))" for v a b p
    using assms by (auto simp: sys_clock_get_time_def sys_set_tid_address_def same_thread_def)
  show ?thesis
    unfolding syscall_def
    by (simp only: if_split) (intro conjI impI poll_call_wf[OF assms] file_syscall_wf[OF assms] yield_run_wf[OF assms] cloned exited waited sleeps rest)
qed

section \<open>The loop keeps the thread runnable\<close>

lemma handle_signal_tables:
  assumes "handle_signal C old t r i tf frs k = Inr h"
  shows "tables_ok k \<and> held_ok k \<and> r < next_object k \<longrightarrow> tables_ok (new_kernel h) \<and> held_ok (new_kernel h) \<and> held (new_kernel h) = held k"
  using assms
proof (induction rule: handle_signal_induct)
  case (exits i tf frs k idx info signal woken k')
  have "tables_ok (take_signal r idx signal k) \<and> held_ok (take_signal r idx signal k)" if "tables_ok k" "held_ok k" "r < next_object k"
    using local_tables[OF that(1,2) _ _ that(3)] by (simp add: take_signal_def Let_def)
  then show ?case using process_exit_tables[OF _ _ exits(3)] process_exit_result(3,4)[OF exits(3)]
    by (auto simp: held_ok_def take_signal_def Let_def)
next
  case (again i tf frs k idx info signal i' tf' frs' h)
  have "tables_ok (take_signal r idx signal k) \<and> held_ok (take_signal r idx signal k)" if "tables_ok k" "held_ok k" "r < next_object k"
    using local_tables[OF that(1,2) _ _ that(3)] by (simp add: take_signal_def Let_def)
  then show ?case using again(3) by (auto simp: take_signal_def Let_def)
qed simp

text \<open>At the top of the loop and while it gives way, the thread has its context back.\<close>

definition thread_wf :: "thread_pc \<Rightarrow> ('pt, 'b, 'i, 'w, 's) sys \<Rightarrow> bool" where
  "thread_wf pc s \<longleftrightarrow> wf_sys s \<and> (case pc of InCall _ _ \<Rightarrow> True | _ \<Rightarrow> ctx (inner (me s)) \<noteq> None)"

definition same_task :: "('pt, 'b, 'i, 'w, 's) sys \<Rightarrow> ('pt, 'b, 'i, 'w, 's) sys \<Rightarrow> bool" where
  "same_task s s' \<longleftrightarrow> tid (me s') = tid (me s) \<and> process (me s') = process (me s) \<and> set (held (kern s)) \<subseteq> set (held (kern s'))"

lemma after_trap_wf:
  assumes "after_trap E old w exit do_yield tf s = Inr (pc, frs, s')" "wf_sys s"
  shows "thread_wf pc s' \<and> same_task s s'"
proof -
  let ?h0 = "\<lparr>thread_exits = True, new_inner = inner (me s), new_tf = tf, frames_written = [], wakers = [], new_kernel = kern s\<rparr>"
  obtain h where h: "(if exit then Inr ?h0 else handle_signal (e_ctx E) old (tid (me s)) (process (me s)) (inner (me s)) tf [] (kern s)) = Inr h"
    and rest: "(let s = s\<lparr>kern := new_kernel h, me := (me s)\<lparr>inner := end_running (new_tf h) (new_inner h)\<rparr>, sys_woken := sys_woken s @ wakers h\<rparr>
     in (if thread_exits h then (Stopped, frames_written h, s)
             else if do_yield
             then (case yield_poll w (YieldNow False) of (_, ws, y) \<Rightarrow> (Yielding y, frames_written h, s\<lparr>sys_woken := sys_woken s @ ws\<rparr>))
             else (AtUser, frames_written h, s))) = (pc, frs, s')"
    using assms(1) unfolding after_trap_def by (auto simp: Let_def)
  have k: "tables_ok (new_kernel h) \<and> held_ok (new_kernel h) \<and> held (new_kernel h) = held (kern s)"
  proof (cases exit)
    case True
    then show ?thesis using h assms(2) by (auto simp: wf_sys_def)
  next
    case False
    then have "handle_signal (e_ctx E) old (tid (me s)) (process (me s)) (inner (me s)) tf [] (kern s) = Inr h" using h by simp
    from handle_signal_tables[OF this] show ?thesis using assms(2) wf_sys_next[OF assms(2)] by (simp add: wf_sys_def)
  qed
  then have "wf_sys (s\<lparr>kern := new_kernel h\<rparr>)" using assms(2) by (intro wf_kern) auto
  then have wf: "wf_sys (s\<lparr>kern := new_kernel h, me := (me s)\<lparr>inner := i\<rparr>\<rparr>)" for i
    by (simp add: wf_sys_def)
  show ?thesis using rest k
    by (auto simp: Let_def thread_wf_def same_task_def end_running_def wf split: if_splits)
qed

lemma call_answered_wf:
  assumes "call_answered E old w tf r = Some (Inr (pc, frs, s'))" "call_wf s r"
  shows "thread_wf pc s' \<and> same_task s s'"
proof -
  obtain pr s1 where r: "r = Some (Inr (pr, s1))" using assms(1) by (auto simp: call_answered_def bindE_eq_Inr)
  then have s1: "wf_sys s1" "same_task s s1" using assms(2) by (auto simp: same_task_def same_thread_def)
  show ?thesis
  proof (cases pr)
    case (Finished v)
    then show ?thesis using assms(1) r s1 after_trap_wf[of E old w "sys_exits s1" False _ s1 pc frs s']
      by (auto simp: call_answered_def same_task_def)
  next
    case (Suspended c)
    then show ?thesis using assms(1) r s1 by (auto simp: call_answered_def thread_wf_def)
  qed
qed

lemma set_vm_wf: "wf_sys s \<Longrightarrow> wf_sys (set_vm vm s) \<and> me (set_vm vm s) = me s \<and> held (kern (set_vm vm s)) = held (kern s)"
  using wf_set_caller[of s "(caller s)\<lparr>vm_areas := areas vm, vm_table := table (space vm)\<rparr>"]
  by (auto simp: set_vm_def Let_def wf_sys_def set_caller_def)

lemma same_task_trans: "same_task s s' \<Longrightarrow> same_task s' s'' \<Longrightarrow> same_task s s''"
  by (auto simp: same_task_def)

lemma thread_turn_wf:
  assumes "thread_turn E old run handle_irqs w now s d = Some (Inr ((pc, frs, s'), d'))" "wf_sys s"
  shows "thread_wf pc s' \<and> same_task s s'"
proof -
  obtain tf0 i where b: "begin_running (inner (me s)) = Inr (tf0, i)"
    using assms(1) by (auto simp: thread_turn_def split: sum.splits)
  define s1 where "s1 = s\<lparr>me := (me s)\<lparr>inner := i\<rparr>, umem := ur_mem (run tf0)\<rparr>"
  have s1: "wf_sys s1" "same_task s s1" using assms(2) by (simp_all add: s1_def same_task_def)
  have "thread_wf pc s' \<and> same_task s1 s'"
  proof (cases "is_page_fault (ur_trap (run tf0)) (ur_esr (run tf0))")
    case True
    then obtain vm where "after_trap E old w False False (ur_ctx (run tf0)) (set_vm vm s1) = Inr (pc, frs, s')"
      using assms(1) b by (auto simp: thread_turn_def Let_def s1_def bindE_eq_Inr split: if_splits)
    from after_trap_wf[OF this] set_vm_wf[OF s1(1), of vm] show ?thesis by (simp add: same_task_def)
  next
    case False
    then consider
        "call_answered E old w (ur_ctx (run tf0)) (syscall E w now (ur_ctx (run tf0)) (e_num E (ur_ctx (run tf0)))
           (e_args E (ur_ctx (run tf0))) (s1\<lparr>sys_exits := False\<rparr>)) = Some (Inr (pc, frs, s'))"
      | "after_trap E old w False True (ur_ctx (run tf0)) s1 = Inr (pc, frs, s')"
      using assms(1) b by (auto simp: thread_turn_def Let_def s1_def handle_syscall_def bindE_eq_Inr split: if_splits)
    then show ?thesis
    proof cases
      case 1
      from call_answered_wf[OF this syscall_wf] s1(1) show ?thesis by (simp add: same_task_def)
    next
      case 2
      from after_trap_wf[OF this s1(1)] show ?thesis .
    qed
  qed
  with s1(2) show ?thesis using same_task_trans by blast
qed

lemma thread_step_wf:
  assumes "thread_step E old run handle_irqs w now pc s d = Some (Inr ((pc', frs, s'), d'))" "thread_wf pc s"
  shows "thread_wf pc' s' \<and> same_task s s'"
proof (cases pc)
  case AtUser
  then show ?thesis using assms thread_turn_wf[of E old run handle_irqs w now s d pc' frs s' d'] by (simp add: thread_step_def thread_wf_def)
next
  case (InCall tf c)
  then have "call_answered E old w tf (poll_call E w now c s) = Some (Inr (pc', frs, s'))" "wf_sys s"
    using assms by (auto simp: thread_step_def thread_wf_def bindE_eq_Inr)
  then show ?thesis by (rule call_answered_wf[OF _ poll_call_wf])
next
  case (Yielding y)
  then show ?thesis using assms by (cases y) (auto simp: thread_step_def thread_wf_def same_task_def split: if_splits)
next
  case Stopped
  then show ?thesis using assms by (simp add: thread_step_def same_task_def)
qed

section \<open>All states of a thread\<close>

text \<open>A thread starts when it is handed to the executor with its context; then its own steps and those of others
  alternate. What others may do is what every thread keeps: the tables stay consistent and no one else drops the reference that this
  task has to its process.\<close>

inductive thread_reach :: "thread_pc \<Rightarrow> ('pt, 'b, 'i, 'w, 's) sys \<Rightarrow> 'd \<Rightarrow> bool" where
  spawned: "tables_ok k \<Longrightarrow> held_ok k \<Longrightarrow> process (me s) < next_object k \<Longrightarrow> ctx (inner (me s)) \<noteq> None \<Longrightarrow>
    kern s = thread_spawn (me s) k \<Longrightarrow> thread_reach AtUser s d"
| own_step: "thread_reach pc s d \<Longrightarrow> thread_step E old run handle_irqs w now pc s d = Some (Inr ((pc', frs, s'), d')) \<Longrightarrow> thread_reach pc' s' d'"
| others: "thread_reach pc s d \<Longrightarrow> tables_ok (kern s') \<Longrightarrow> held_ok (kern s') \<Longrightarrow> process (me s) \<in> set (held (kern s')) \<Longrightarrow>
    me s' = me s \<Longrightarrow> thread_reach pc s' d'"

text \<open>The threads that the constructors make can start.\<close>

lemma new_threads_start:
  shows "new_user C tty as pt e u path k = (t, k') \<Longrightarrow> ctx (inner t) \<noteq> None \<and> process t < next_object k'"
    and "fork C as pt self tf k = (t, k') \<Longrightarrow> ctx (inner t) \<noteq> None"
    and "new_clone C self tf nsp tls ctid k = (t, k') \<Longrightarrow> ctx (inner t) \<noteq> None \<and> process t = process self"
  by (auto simp: new_user_def fork_def new_clone_def add_to_table_def add_to_process_table_def alloc_process_def Let_def split: prod.splits)

lemma thread_reach_wf: "thread_reach pc s d \<Longrightarrow> thread_wf pc s"
proof (induction rule: thread_reach.induct)
  case (spawned k s d)
  then show ?case by (auto simp: thread_wf_def wf_sys_def thread_spawn_def held_ok_def tables_ok_def)
next
  case (own_step pc s d E old run handle_irqs w now pc' frs s' d')
  from thread_step_wf[OF own_step(2,3)] show ?case by simp
next
  case (others pc s d s' d')
  then show ?case by (auto simp: thread_wf_def wf_sys_def split: thread_pc.splits)
qed

text \<open>C5: Soundness of the loop of a user thread. In every state that a thread reaches, whatever traps its user code takes,
  whatever it asks of the kernel, and whatever the other threads do meanwhile, the process and thread tables are consistent, its process
  is alive, and at the top of the loop its saved context is there, so that \<open>begin_running\<close> never panics. Each of
  its steps leaves its thread and process numbers as they are and drops no reference that another task has.\<close>
theorem thread_loop_sound:
  assumes "thread_reach pc s d"
  shows "tables_ok (kern s) \<and> held_ok (kern s) \<and> process (me s) \<in> set (held (kern s)) \<and>
    (pc = AtUser \<longrightarrow> (\<exists>c i. begin_running (inner (me s)) = Inr (c, i))) \<and>
    (\<forall>E old run handle_irqs w now pc' frs s' d'.
       thread_step E old run handle_irqs w now pc s d = Some (Inr ((pc', frs, s'), d')) \<longrightarrow>
       tid (me s') = tid (me s) \<and> process (me s') = process (me s) \<and> set (held (kern s)) \<subseteq> set (held (kern s')))"
proof -
  note wf = thread_reach_wf[OF assms]
  have "begin_running (inner (me s)) = Inr (the (ctx (inner (me s))), (inner (me s))\<lparr>ctx := None\<rparr>)" if "pc = AtUser"
    using wf that by (auto simp: thread_wf_def begin_running_def)
  moreover have "same_task s s'" if "thread_step E old run handle_irqs w now pc s d = Some (Inr ((pc', frs, s'), d'))"
    for E old run handle_irqs w now pc' frs s' d'
    using thread_step_wf[OF that wf] by simp
  ultimately show ?thesis using wf unfolding thread_wf_def wf_sys_def same_task_def by blast
qed

definition demo_env :: "(Page \<rightharpoonup> u64, usize, nat, nat \<Rightarrow> u8 list) env" where
  "demo_env = \<lparr>e_mmu = map_mmu, e_table = Map.empty, e_ctx = demo_ctx, e_inodes = ram_inodes, e_flags = demo_flags, e_root = Inr 0,
     e_now = 0, e_epoch = [], e_time_at = (\<lambda>_ _. 0), e_errno = (\<lambda>_. 1), e_num = (\<lambda>c. general c 8), e_args = general\<rparr>"

definition demo_kernel :: "(Page \<rightharpoonup> u64, usize, nat, nat, nat \<Rightarrow> u8 list) kernel" where
  "demo_kernel = kernel_boot 0 (\<lambda>_. 0) \<lparr>fs = (\<lambda>_. []), descs = (\<lambda>_. \<lparr>offset = 0, options = \<lparr>opt_read = False, opt_write = False,
     opt_append = False\<rparr>, flock = FlockNone\<rparr>), next_desc = 0\<rparr> (\<lambda>_. demo_process)"

text \<open>The first process takes an interrupt, gives way, and is back at the top of the loop.\<close>

definition demo_run :: "UserContext \<Rightarrow> user_run" where
  "demo_run c = \<lparr>ur_ctx = c, ur_mem = (\<lambda>_. 0), ur_trap = IrqMin, ur_esr = 0, ur_far = 0\<rparr>"

definition demo_start :: "(Page \<rightharpoonup> u64, usize, nat, nat, nat \<Rightarrow> u8 list) sys" where
  "demo_start = (case new_user demo_ctx 0 [] Map.empty 0 0 ''sh'' demo_kernel of (t, k) \<Rightarrow>
     \<lparr>kern = thread_spawn t k, me = t, umem = (\<lambda>_. 0), timers = [], sys_woken = [], sys_exits = False\<rparr>)"

lemma demo_started: "thread_reach AtUser demo_start d"
proof -
  obtain t k where n: "new_user demo_ctx 0 [] Map.empty 0 0 ''sh'' demo_kernel = (t, k)" by fastforce
  have "tables_ok demo_kernel" "held_ok demo_kernel"
    by (simp_all add: demo_kernel_def kernel_boot_def tables_ok_def held_ok_def)
  from new_user_tables[OF this n] have "tables_ok k \<and> held_ok k"
    by (auto simp: thread_spawn_def tables_ok_def held_ok_def)
  then show ?thesis using new_threads_start(1)[OF n] by (auto simp: demo_start_def n intro!: spawned[of k])
qed

lemma demo_start_queue: "sig_queue (objects (kern demo_start) (process (me demo_start))) = []"
  by (simp add: demo_start_def new_user_def add_to_table_def add_to_process_table_def alloc_process_def thread_spawn_def Let_def split: prod.split)

lemma demo_interrupted:
  "\<exists>s. thread_step demo_env (\<lambda>_. []) demo_run (\<lambda>d. Some (Inr (Suc d))) 7 0 AtUser demo_start 0 = Some (Inr ((Yielding (YieldNow True), [], s), 1)) \<and>
       sys_woken s = [7]"
proof -
  have c: "begin_running (inner (me demo_start)) \<noteq> Inl p" for p
    using thread_reach_wf[OF demo_started[of "()"]] by (auto simp: thread_wf_def begin_running_def)
  then obtain tf i where b: "begin_running (inner (me demo_start)) = Inr (tf, i)" by (metis prod.exhaust sum.exhaust)
  have "sys_woken demo_start = []" by (simp add: demo_start_def split: prod.split)
  then show ?thesis using b demo_start_queue
    by (simp add: thread_step_def thread_turn_def demo_run_def is_page_fault_def is_syscall_def is_irq_def
        after_trap_def handle_signal.simps[of _ _ _ _ _ _ "[]"])
qed

theorem thread_loop_sound_witness:
  "\<exists>s. thread_reach AtUser s (1 :: nat) \<and> sys_woken s = [7 :: nat] \<and> held_ok (kern s) \<and>
     (\<exists>c i. begin_running (inner (me (s :: (Page \<rightharpoonup> u64, usize, nat, nat, nat \<Rightarrow> u8 list) sys))) = Inr (c, i))"
proof -
  from demo_interrupted obtain s where y: "thread_step demo_env (\<lambda>_. []) demo_run (\<lambda>d. Some (Inr (Suc d))) 7 0 AtUser demo_start 0 =
      Some (Inr ((Yielding (YieldNow True), [], s), 1))" and w: "sys_woken s = [7]" by blast
  have "thread_step demo_env (\<lambda>_. []) demo_run (\<lambda>d. Some (Inr d)) 7 0 (Yielding (YieldNow True)) s 1 = Some (Inr ((AtUser, [], s), 1))"
    by (simp add: thread_step_def)
  from own_step[OF own_step[OF demo_started y] this] have r: "thread_reach AtUser s (1 :: nat)" .
  from thread_loop_sound[OF r] r w show ?thesis by blast
qed

section \<open>Results and unknown calls\<close>

lemma unknown_call_stops:
  assumes "num \<notin> set dispatched"
  shows "syscall E w now tf num args s = Some (Inl Todo)"
  using assms by (simp add: syscall_def dispatched_def FILE_CALLS_def)

lemma clock_null_stops: "args 1 = 0 \<Longrightarrow> syscall E w now tf SYS_CLOCK_GETTIME args s = Some (Inl UnwrapNone)"
  by (simp add: syscall_def FILE_CALLS_def)

lemma thread_turn_begun:
  assumes "ctx (inner (me s)) = Some c"
  shows "begin_running (inner (me s)) = Inr (c, (inner (me s))\<lparr>ctx := None\<rparr>)"
  using assms by (simp add: begin_running_def)

text \<open>C36: A user program can stop the kernel. A page fault outside of its memory areas, a system call with a number that the dispatcher
  does not know, and \<^verbatim>\<open>clock_gettime\<close> with a null pointer each end in a panic of the kernel, and not in a signal or an error
  for the program.\<close>
theorem user_stops_kernel:
  assumes "ctx (inner (me s)) = Some c" "u = run c" "pf = is_page_fault (ur_trap u) (ur_esr u)"
    "pf \<and> (\<forall>a \<in> set (vm_areas (caller s)). \<not> area_contains a (ur_far u)) \<or>
     \<not> pf \<and> ur_trap u = SyscallTrap \<and>
       (e_num E (ur_ctx u) \<notin> set dispatched \<or> e_num E (ur_ctx u) = SYS_CLOCK_GETTIME \<and> e_args E (ur_ctx u) 1 = 0)"
  shows "\<exists>p. thread_step E old run handle_irqs w now AtUser s d = Some (Inl p)"
proof (cases pf)
  case True
  let ?s1 = "s\<lparr>me := (me s)\<lparr>inner := (inner (me s))\<lparr>ctx := None\<rparr>\<rparr>, umem := ur_mem u\<rparr>"
  have "areas (vm_of ?s1) = vm_areas (caller s)" by (simp add: vm_of_def caller_def)
  moreover have "\<forall>a \<in> set (vm_areas (caller s)). \<not> area_contains a (ur_far u)" using assms(4) True by simp
  ultimately have "ms_handle_page_fault (e_mmu E) (ur_far u) (vm_of ?s1) = Inr (False, vm_of ?s1)"
    by (simp add: ms_handle_page_fault_def find_None_iff split: option.split)
      (metis find_None_iff find_Some_iff nth_mem option.distinct(1))
  then show ?thesis using True assms(2,3) thread_turn_begun[OF assms(1)]
    by (simp add: thread_step_def thread_turn_def Let_def)
next
  case False
  then have "\<exists>p. syscall E w now (ur_ctx u) (e_num E (ur_ctx u)) (e_args E (ur_ctx u)) s' = Some (Inl p)" for s'
    using assms(4) unknown_call_stops[of "e_num E (ur_ctx u)"] clock_null_stops[of "e_args E (ur_ctx u)"] by fastforce
  then obtain p where "syscall E w now (ur_ctx u) (e_num E (ur_ctx u)) (e_args E (ur_ctx u))
      (s\<lparr>me := (me s)\<lparr>inner := (inner (me s))\<lparr>ctx := None\<rparr>\<rparr>, umem := ur_mem u, sys_exits := False\<rparr>) = Some (Inl p)" by blast
  then show ?thesis using False assms(2-4) thread_turn_begun[OF assms(1)]
    by (simp add: thread_step_def thread_turn_def Let_def is_syscall_def handle_syscall_def call_answered_def)
qed

definition bad_run :: "UserContext \<Rightarrow> user_run" where
  "bad_run c = \<lparr>ur_ctx = c\<lparr>general := (\<lambda>_. 0)(8 := 1000)\<rparr>, ur_mem = (\<lambda>_. 0), ur_trap = SyscallTrap, ur_esr = 0x56000000, ur_far = 0\<rparr>"

theorem user_stops_kernel_witness:
  "\<exists>p. thread_step demo_env (\<lambda>_. []) bad_run (\<lambda>d. Some (Inr d)) 7 0 AtUser demo_start (0 :: nat) = Some (Inl p)"
proof -
  obtain c where c: "ctx (inner (me demo_start)) = Some c"
    using thread_reach_wf[OF demo_started[of "()"]] by (auto simp: thread_wf_def)
  have "\<not> is_page_fault (ur_trap (bad_run c)) (ur_esr (bad_run c))" by (simp add: bad_run_def) code_simp
  moreover have "e_num demo_env (ur_ctx (bad_run c)) \<notin> set dispatched" "ur_trap (bad_run c) = SyscallTrap"
    by (simp_all add: demo_env_def bad_run_def dispatched_def)
  ultimately show ?thesis by (intro user_stops_kernel[OF c refl refl]) simp
qed

end
