(* ===== verification/Kernel_Memory.thy ===== *)
theory Kernel_Memory
  imports Memory_Set
begin

text \<open>
  The kernel's own address space (\<^verbatim>\<open>src/kernel/src/arch/aarch64/memory.rs\<close>), page tables as objects and their activation
  (\<^verbatim>\<open>src/kernel/src/arch/aarch64/paging.rs\<close>, \<^verbatim>\<open>src/kernel/src/memory/paging.rs\<close>) and the future that switches to the page table
  of a thread (\<^verbatim>\<open>PageTableSwitchWrapper\<close> in \<^verbatim>\<open>src/kernel/src/process/thread.rs\<close>).

  The addresses of the sections are linker symbols, the record \<open>symbols\<close>. Blocks of two megabytes are mapped by the
  \<^verbatim>\<open>aarch64\<close> crate, the record \<open>block_ops\<close>.
\<close>

section \<open>Translation registers\<close>

text \<open>The base registers of the two page tables, and whether translations of an earlier table may still be cached.\<close>

record mmu_regs =
  ttbr0 :: u64
  ttbr1 :: u64
  tlb_clean :: bool

definition set_token :: "u64 \<Rightarrow> mmu_regs \<Rightarrow> mmu_regs" where
  "set_token token r = r\<lparr>ttbr0 := start_address (of_addr token), tlb_clean := False\<rparr>"

definition active_token :: "mmu_regs \<Rightarrow> u64" where
  "active_token r = ttbr0 r"

definition flush_tlb :: "mmu_regs \<Rightarrow> mmu_regs" where
  "flush_tlb r = r\<lparr>tlb_clean := True\<rparr>"

definition activate :: "u64 \<Rightarrow> mmu_regs \<Rightarrow> mmu_regs" where
  "activate token r =
     (let old_token = active_token r
      in if old_token \<noteq> token then flush_tlb (set_token token r) else r)"

definition with_table :: "u64 \<Rightarrow> (mmu_regs \<Rightarrow> 'a \<times> mmu_regs) \<Rightarrow> mmu_regs \<Rightarrow> 'a \<times> mmu_regs" where
  "with_table token f r =
     (let old_token = active_token r;
          r = (if old_token \<noteq> token then flush_tlb (set_token token r) else r);
          (ret, r) = f r;
          r = (if old_token \<noteq> token then flush_tlb (set_token old_token r) else r)
      in (ret, r))"

definition activate_as_kernel :: "u64 \<Rightarrow> mmu_regs \<Rightarrow> mmu_regs" where
  "activate_as_kernel token r = r\<lparr>ttbr1 := start_address (of_addr token), tlb_clean := True\<rparr>"

definition set_page_table :: "usize \<Rightarrow> mmu_regs \<Rightarrow> mmu_regs" where
  "set_page_table vmtoken r = r\<lparr>ttbr0 := start_address (of_addr vmtoken), tlb_clean := True\<rparr>"

text \<open>\<^verbatim>\<open>PageTableSwitchWrapper::poll\<close>\<close>

definition switch_poll :: "usize \<Rightarrow> (mmu_regs \<Rightarrow> 'a \<times> mmu_regs) \<Rightarrow> mmu_regs \<Rightarrow> 'a \<times> mmu_regs" where
  "switch_poll vmtoken poll r = poll (set_page_table vmtoken r)"

section \<open>Page tables as objects\<close>

text \<open>A new table: its root frame, and the table that a cleared frame is.\<close>

definition new_bare :: "('pt, 'b) mmu \<Rightarrow> 'pt \<Rightarrow> 'b \<Rightarrow> (PhysAddr \<times> 'pt \<times> 'b) outcome" where
  "new_bare M cleared fa =
     (let (tgt, fa) = frame_alloc M 1 fa
      in bindE (expect ''failed to allocate frame'' tgt) (\<lambda>tgt. Inr (start_address (of_addr tgt), cleared, fa)))"

definition pt_drop :: "('pt, 'b) mmu \<Rightarrow> PhysAddr \<Rightarrow> 'b \<Rightarrow> 'b" where
  "pt_drop M root_frame fa = frame_dealloc M root_frame 1 fa"

record 'pt block_ops =
  align_down :: "u64 \<Rightarrow> u64 \<Rightarrow> u64"
  align_up :: "u64 \<Rightarrow> u64 \<Rightarrow> u64"
  block_frames :: "u64 \<Rightarrow> u64 \<Rightarrow> u64 list"
  block_page :: "u64 \<Rightarrow> u64"
  map_block :: "u64 \<Rightarrow> u64 \<Rightarrow> 'pt \<Rightarrow> 'pt option"

abbreviation ALIGN_2MIB :: u64 where "ALIGN_2MIB \<equiv> 0x200000"

definition map_physical_memory :: "'pt block_ops \<Rightarrow> usize \<Rightarrow> usize \<Rightarrow> 'pt \<Rightarrow> 'pt outcome" where
  "map_physical_memory B s e pt =
     (let aligned_start = align_down B s ALIGN_2MIB; aligned_end = align_up B e ALIGN_2MIB
      in iterE (\<lambda>paddr pt. expect ''failed to map physical memory'' (map_block B (block_page B (phys_to_virt paddr)) paddr pt))
           (block_frames B aligned_start aligned_end) pt)"

section \<open>The memory of the kernel\<close>

record symbols =
  stext :: usize
  etext :: usize
  sdata :: usize
  edata :: usize
  srodata :: usize
  erodata :: usize
  sgot :: usize
  egot :: usize
  sbss :: usize
  ebss :: usize
  bootstack :: usize
  bootstacktop :: usize
  kernel_end :: usize

abbreviation PERIPHERALS_START :: usize where "PERIPHERALS_START \<equiv> 0x08000000"
abbreviation PERIPHERALS_END :: usize where "PERIPHERALS_END \<equiv> 0x10000000"

type_synonym section_desc = "usize \<times> usize \<times> MemoryAttr \<times> MemoryHandler \<times> string"

definition kernel_sections :: "symbols \<Rightarrow> section_desc list" where
  "kernel_sections K =
     (let offset = - KERNEL_OFFSET
      in [(stext K, etext K, attr_readonly (attr_execute MemoryAttr_default), Linear offset, ''text''),
          (sdata K, edata K, MemoryAttr_default, Linear offset, ''data''),
          (srodata K, erodata K, attr_readonly MemoryAttr_default, Linear offset, ''rodata''),
          (sgot K, egot K, MemoryAttr_default, Linear offset, ''got''),
          (sbss K, ebss K, MemoryAttr_default, Linear offset, ''bss''),
          (bootstack K, bootstacktop K, MemoryAttr_default, Linear offset, ''kstack''),
          (PERIPHERALS_START, PERIPHERALS_END, attr_mmio 1 MemoryAttr_default, Linear 0, ''peripherals'')])"

definition push_section :: "('pt, 'b) mmu \<Rightarrow> section_desc \<Rightarrow> ('pt, 'b) MemorySet \<Rightarrow> ('pt, 'b) MemorySet outcome" where
  "push_section M = (\<lambda>(s, e, attr, h, name). ms_push M s e attr h name)"

text \<open>The new root frame, the memory set that goes to \<^verbatim>\<open>KERNEL_MEMORY_SET\<close>, and the registers.\<close>

definition map_kernel ::
  "('pt, 'b) mmu \<Rightarrow> 'pt block_ops \<Rightarrow> 'pt \<Rightarrow> symbols \<Rightarrow> usize \<times> usize \<Rightarrow> 'b \<Rightarrow> (PhysAddr \<Rightarrow> u8) \<Rightarrow> mmu_regs \<Rightarrow>
   (PhysAddr \<times> ('pt, 'b) MemorySet \<times> mmu_regs) outcome" where
  "map_kernel M B cleared K phys_mem_range fa mem r =
     bindE (new_bare M cleared fa) (\<lambda>(root, pt, fa).
     bindE (iterE (push_section M) (kernel_sections K) (MemorySet_new \<lparr>table = pt, frames = fa, ram = mem\<rparr>)) (\<lambda>ms.
     bindE (map_physical_memory B (fst phys_mem_range) (snd phys_mem_range) (table (space ms))) (\<lambda>pt.
       Inr (root, ms\<lparr>space := (space ms)\<lparr>table := pt\<rparr>\<rparr>, activate_as_kernel root r))))"

text \<open>The frame numbers that are free at the start, from the end of the kernel image to the end of memory.\<close>

definition free_frames :: "symbols \<Rightarrow> usize \<times> usize \<Rightarrow> usize \<times> usize" where
  "free_frames K phys_mem_range =
     (let len = (if fst phys_mem_range < snd phys_mem_range then snd phys_mem_range - fst phys_mem_range else 0)
      in ((as_lower_range (kernel_end K) - fst phys_mem_range) div PAGE_SIZE, (len - 1) div PAGE_SIZE + 1))"

definition init_frame_allocator :: "(usize \<Rightarrow> usize \<Rightarrow> 'b \<Rightarrow> 'b) \<Rightarrow> symbols \<Rightarrow> usize \<times> usize \<Rightarrow> 'b \<Rightarrow> 'b" where
  "init_frame_allocator ins K phys_mem_range fa = (case free_frames K phys_mem_range of (s, e) \<Rightarrow> ins s e fa)"

definition memory_init ::
  "('pt, 'b) mmu \<Rightarrow> 'pt block_ops \<Rightarrow> (usize \<Rightarrow> usize \<Rightarrow> 'b \<Rightarrow> 'b) \<Rightarrow> 'pt \<Rightarrow> symbols \<Rightarrow> usize \<times> usize \<Rightarrow> 'b \<Rightarrow> (PhysAddr \<Rightarrow> u8) \<Rightarrow>
   mmu_regs \<Rightarrow> (PhysAddr \<times> ('pt, 'b) MemorySet \<times> mmu_regs) outcome" where
  "memory_init M B ins cleared K opts fa mem r = map_kernel M B cleared K opts (init_frame_allocator ins K opts fa) mem r"

definition memory_init_other :: "PhysAddr option \<Rightarrow> mmu_regs \<Rightarrow> mmu_regs" where
  "memory_init_other root r = (case root of Some root \<Rightarrow> activate_as_kernel root r | None \<Rightarrow> r)"

definition ioremap ::
  "('pt, 'b) mmu \<Rightarrow> usize \<Rightarrow> usize \<Rightarrow> string \<Rightarrow> ('pt, 'b) MemorySet option \<Rightarrow> (usize \<times> ('pt, 'b) MemorySet option) outcome" where
  "ioremap M paddr len name kernel_memory_set =
     (let offset = - KERNEL_OFFSET; vaddr = paddr + KERNEL_OFFSET
      in case kernel_memory_set of
           Some ms \<Rightarrow> bindE (ms_push M vaddr (vaddr + len) (attr_mmio 2 MemoryAttr_default) (Linear offset) name ms)
                        (\<lambda>ms. Inr (vaddr, Some ms))
         | None \<Rightarrow> Inr (0, None))"

section \<open>Sections are mapped linearly\<close>

definition linear_entry :: "('pt, 'b) mmu \<Rightarrow> MemoryAttr \<Rightarrow> usize \<Rightarrow> Page \<Rightarrow> u64 \<Rightarrow> bool" where
  "linear_entry M attr off p e \<longleftrightarrow> e_present M e \<and> e_user M e = user attr \<and> e_writable M e = (\<not> readonly attr) \<and>
     e_execute M e = execute attr \<and> (unat (start_address p + off) < 2 ^ 48 \<longrightarrow> pte_addr M e = start_address p + off)"

definition linear_ok :: "('pt, 'b) mmu \<Rightarrow> ('pt \<Rightarrow> Page \<rightharpoonup> u64) \<Rightarrow> ('pt, 'b) MemorySet \<Rightarrow> bool" where
  "linear_ok M tbl ms \<longleftrightarrow> (\<forall>x attr off name. area_at (areas ms) x = Some (attr, Linear off, name) \<and> aligned off \<longrightarrow>
     (\<exists>e. tbl (table (space ms)) (of_addr x) = Some e \<and> linear_entry M attr off (of_addr x) e))"

lemma aligned_add: "aligned x \<Longrightarrow> aligned y \<Longrightarrow> aligned (x + y)"
proof -
  assume "aligned x" "aligned y"
  then have "(unat x + unat y) mod 4096 = 0" by (simp add: aligned_def mod_add_eq[symmetric])
  moreover have "(unat x + unat y) mod 2 ^ 64 mod 4096 = (unat x + unat y) mod 4096" by (rule mod_mod_cancel) simp
  ultimately show ?thesis by (simp add: aligned_def unat_word_ariths)
qed

lemma aligned_start: "aligned (start_address p)"
proof -
  have "(unat (number p) * 4096) mod 2 ^ 64 mod 4096 = (unat (number p) * 4096) mod 4096" by (rule mod_mod_cancel) simp
  then show ?thesis by (simp add: aligned_def start_address_def PAGE_SIZE_def unat_word_ariths)
qed

lemma page_of_range:
  assumes "aligned e" "s \<le> x" "x < e"
  shows "of_addr x \<in> pages_between s e"
proof -
  have "unat x < pg e * 4096" using assms(1,3) aligned_unat[of e] by (simp add: word_less_nat_alt)
  then show ?thesis using assms(2) by (simp add: pages_between_def unat_of_addr word_le_nat_alt div_le_mono less_mult_imp_div_less)
qed

context mmu_env
begin

lemma linear_map_entry:
  assumes "tbl (table vm) p = None" "of_addr (start_address p) = p" "aligned off"
  shows "\<exists>vm' e. handler_map M (Linear off) (start_address p) attr vm = Inr vm' \<and> tbl (table vm') = (tbl (table vm))(p \<mapsto> e) \<and>
    linear_entry M attr off p e"
proof -
  let ?t = "start_address p + off"
  have t: "start_address (of_addr ?t) = ?t"
    using aligned_page_down_id[OF aligned_add[OF aligned_start assms(3)]] by (simp add: start_address_of_addr)
  from vm_map_ok[of vm "start_address p" ?t "attr_apply M attr", unfolded assms(2) t] assms(1)
  obtain vm' e where "vm_map M (start_address p) ?t (attr_apply M attr) vm = Inr vm'"
    "tbl (table vm') = (tbl (table vm))(p \<mapsto> attr_apply M attr e)" "e_present M e" "unat ?t < 2 ^ 48 \<longrightarrow> pte_addr M e = ?t" by auto
  then show ?thesis using attr_apply_flags[OF flags, of attr e]
    by (intro exI[of _ vm'] exI[of _ "attr_apply M attr e"]) (auto simp: linear_map_def linear_entry_def)
qed

lemma linear_pages:
  assumes "distinct ps" "\<And>p. p \<in> set ps \<Longrightarrow> of_addr (start_address p) = p \<and> tbl (table vm) p = None" "aligned off"
    and "iterE (\<lambda>p. handler_map M (Linear off) (start_address p) attr) ps vm = Inr vm'"
  shows "(\<forall>p. p \<notin> set ps \<longrightarrow> tbl (table vm') p = tbl (table vm) p) \<and>
    (\<forall>p \<in> set ps. \<exists>e. tbl (table vm') p = Some e \<and> linear_entry M attr off p e)"
  using assms
proof (induction ps arbitrary: vm)
  case (Cons p ps)
  then have p: "of_addr (start_address p) = p" "tbl (table vm) p = None" "p \<notin> set ps" by auto
  obtain vm1 e where vm1: "handler_map M (Linear off) (start_address p) attr vm = Inr vm1" "tbl (table vm1) = (tbl (table vm))(p \<mapsto> e)"
    "linear_entry M attr off p e" using linear_map_entry[OF p(2,1) assms(3), of attr] by blast
  have q: "\<And>q. q \<in> set ps \<Longrightarrow> of_addr (start_address q) = q \<and> tbl (table vm1) q = None" using Cons.prems(2) p(3) vm1(2) by auto
  have it: "iterE (\<lambda>p. handler_map M (Linear off) (start_address p) attr) ps vm1 = Inr vm'"
    using Cons.prems(4) unfolding iterE.simps vm1(1) bindE_simps .
  have "distinct ps" using Cons.prems(1) by simp
  from Cons.IH[OF this q assms(3) it] have IH: "\<forall>q. q \<notin> set ps \<longrightarrow> tbl (table vm') q = tbl (table vm1) q"
    "\<forall>q \<in> set ps. \<exists>e. tbl (table vm') q = Some e \<and> linear_entry M attr off q e" by blast+
  then have "tbl (table vm') p = Some e" using p(3) vm1(2) by simp
  with IH vm1 show ?case by auto
qed simp

lemma push_linear:
  assumes "ms_ok M tbl ms" "linear_ok M tbl ms" "s < e" "unat e + 4095 < 2 ^ 64" "aligned off"
    and "\<forall>x. page_down s \<le> x \<and> x < page_up e \<longrightarrow> area_at (areas ms) x = None"
  shows "\<exists>ms'. ms_push M s e attr (Linear off) name ms = Inr ms' \<and> ms_ok M tbl ms' \<and> linear_ok M tbl ms' \<and>
    (\<forall>x. area_at (areas ms') x = (if page_down s \<le> x \<and> x < page_up e then Some (attr, Linear off, name) else area_at (areas ms) x))"
proof -
  define a where "a = \<lparr>start_addr = page_down s, end_addr = page_up e, area_attr = attr, area_handler = Linear off, area_name = name\<rparr>"
  obtain ms' where ms': "ms_push M s e attr (Linear off) name ms = Inr ms'" "ms_ok M tbl ms'"
    "\<forall>x. area_at (areas ms') x = (if page_down s \<le> x \<and> x < page_up e then Some (attr, Linear off, name) else area_at (areas ms) x)"
    "area_ok a" "\<forall>p \<in> area_pages a. tbl (table (space ms)) p = None" "area_map M a (space ms) = Inr (space ms')"
    using ms_push_free[OF assms(1,3,4,6), of attr "Linear off" name] unfolding a_def by blast
  have al: "aligned (start_addr a)" "aligned (end_addr a)" "start_addr a < end_addr a" using ms'(4) by (simp_all add: area_ok_def)
  note pages = page_list_between[OF al]
  have "\<And>p. p \<in> set (page_list (range_of (start_addr a) (end_addr a))) \<Longrightarrow> of_addr (start_address p) = p \<and> tbl (table (space ms)) p = None"
    using pages ms'(5) by (simp add: area_pages_def)
  from linear_pages[OF pages(2) this assms(5)] ms'(6) pages(1)
  have new: "\<forall>p. p \<notin> area_pages a \<longrightarrow> tbl (table (space ms')) p = tbl (table (space ms)) p"
    "\<forall>p \<in> area_pages a. \<exists>e. tbl (table (space ms')) p = Some e \<and> linear_entry M attr off p e"
    by (simp_all add: area_map_def area_pages_def a_def)
  have "\<exists>e. tbl (table (space ms')) (of_addr x) = Some e \<and> linear_entry M attr' off' (of_addr x) e"
    if x: "area_at (areas ms') x = Some (attr', Linear off', name')" "aligned off'" for x attr' off' name'
  proof (cases "page_down s \<le> x \<and> x < page_up e")
    case True
    then have "of_addr x \<in> area_pages a" using page_of_range[OF al(2), of "page_down s" x] by (simp add: area_pages_def a_def)
    with new(2) True x ms'(3) show ?thesis by auto
  next
    case False
    then obtain e' where "tbl (table (space ms)) (of_addr x) = Some e'" "linear_entry M attr' off' (of_addr x) e'"
      using x ms'(3) assms(2) unfolding linear_ok_def by (metis (no_types, lifting))
    moreover from this ms'(5) have "of_addr x \<notin> area_pages a" by auto
    ultimately show ?thesis using new(1) by auto
  qed
  then have "linear_ok M tbl ms'" unfolding linear_ok_def by blast
  with ms'(1-3) show ?thesis by blast
qed

end

text \<open>Sections that do not share a page; an empty one adds nothing.\<close>

fun sec_contains :: "section_desc \<Rightarrow> usize \<Rightarrow> bool" where
  "sec_contains (s, e, _) x \<longleftrightarrow> s < e \<and> page_down s \<le> x \<and> x < page_up e"

fun sec_ok :: "section_desc \<Rightarrow> bool" where
  "sec_ok (s, e, _, h, _) \<longleftrightarrow> unat e + 4095 < 2 ^ 64 \<and> (\<exists>off. h = Linear off \<and> aligned off)"

definition sections_ok :: "section_desc list \<Rightarrow> bool" where
  "sections_ok ss \<longleftrightarrow> (\<forall>d \<in> set ss. sec_ok d) \<and> sorted_wrt (\<lambda>c d. \<forall>x. \<not> (sec_contains c x \<and> sec_contains d x)) ss"

definition section_at :: "section_desc list \<Rightarrow> usize \<Rightarrow> (MemoryAttr \<times> MemoryHandler \<times> string) option" where
  "section_at ss x = map_option (\<lambda>(_, _, d). d) (find (\<lambda>d. sec_contains d x) ss)"

lemma section_at_simps [simp]:
  "section_at [] x = None"
  "section_at (d # ss) x = (if sec_contains d x then Some (snd (snd d)) else section_at ss x)"
  by (auto simp: section_at_def split: prod.splits)

context mmu_env
begin

lemma push_section_ok:
  assumes "sec_ok d" "ms_ok M tbl ms" "linear_ok M tbl ms" "\<forall>x. sec_contains d x \<longrightarrow> area_at (areas ms) x = None"
  shows "\<exists>ms'. push_section M d ms = Inr ms' \<and> ms_ok M tbl ms' \<and> linear_ok M tbl ms' \<and>
    (\<forall>x. area_at (areas ms') x = (if sec_contains d x then Some (snd (snd d)) else area_at (areas ms) x))"
proof -
  obtain s e attr h name where d: "d = (s, e, attr, h, name)" by (cases d)
  with assms(1) obtain off where off: "unat e + 4095 < 2 ^ 64" "h = Linear off" "aligned off" by auto
  show ?thesis
  proof (cases "s < e")
    case True
    with assms(4) d have "\<forall>x. page_down s \<le> x \<and> x < page_up e \<longrightarrow> area_at (areas ms) x = None" by simp
    from push_linear[OF assms(2,3) True off(1,3) this, of attr name] obtain ms' where
      "ms_push M s e attr (Linear off) name ms = Inr ms'" "ms_ok M tbl ms'" "linear_ok M tbl ms'"
      "\<forall>x. area_at (areas ms') x = (if page_down s \<le> x \<and> x < page_up e then Some (attr, Linear off, name) else area_at (areas ms) x)" by blast
    then show ?thesis using True d off(2) by (intro exI[of _ ms']) (simp add: push_section_def)
  next
    case False
    then show ?thesis using assms(2,3) d by (auto simp: push_section_def ms_push_def)
  qed
qed

lemma push_sections_ok:
  assumes "sections_ok ss" "ms_ok M tbl ms" "linear_ok M tbl ms" "\<forall>d \<in> set ss. \<forall>x. sec_contains d x \<longrightarrow> area_at (areas ms) x = None"
  shows "\<exists>ms'. iterE (push_section M) ss ms = Inr ms' \<and> ms_ok M tbl ms' \<and> linear_ok M tbl ms' \<and>
    (\<forall>x. area_at (areas ms') x = (case section_at ss x of Some d \<Rightarrow> Some d | None \<Rightarrow> area_at (areas ms) x))"
  using assms
proof (induction ss arbitrary: ms)
  case (Cons d ss)
  have d: "sec_ok d" "sections_ok ss" and dis: "\<And>c x. c \<in> set ss \<Longrightarrow> sec_contains d x \<Longrightarrow> \<not> sec_contains c x"
    using Cons.prems(1) by (auto simp: sections_ok_def)
  have "\<forall>x. sec_contains d x \<longrightarrow> area_at (areas ms) x = None" using Cons.prems(4) by simp
  from push_section_ok[OF d(1) Cons.prems(2,3) this] obtain ms1 where ms1: "push_section M d ms = Inr ms1" "ms_ok M tbl ms1" "linear_ok M tbl ms1"
    "\<forall>x. area_at (areas ms1) x = (if sec_contains d x then Some (snd (snd d)) else area_at (areas ms) x)" by blast
  have "\<forall>c \<in> set ss. \<forall>x. sec_contains c x \<longrightarrow> area_at (areas ms1) x = None" using dis ms1(4) Cons.prems(4) by auto
  from Cons.IH[OF d(2) ms1(2,3) this] obtain ms' where ms': "iterE (push_section M) ss ms1 = Inr ms'" "ms_ok M tbl ms'" "linear_ok M tbl ms'"
    "\<forall>x. area_at (areas ms') x = (case section_at ss x of Some d \<Rightarrow> Some d | None \<Rightarrow> area_at (areas ms1) x)" by blast
  have "section_at ss x = None" if "sec_contains d x" for x
    using that dis by (auto simp: section_at_def find_None_iff)
  then show ?case using ms1(1,4) ms' by (intro exI[of _ ms']) (simp split: option.split)
qed simp

end

section \<open>Blocks of physical memory\<close>

definition block_base :: "u64 \<Rightarrow> u64" where
  "block_base x = x AND NOT (mask 21)"

text \<open>The frames of an aligned range are the blocks of its addresses, each once; a block that is not mapped can be mapped, which leaves
  the pages of four kilobytes as they are. Mapping a page leaves the blocks as they are.\<close>

definition range_laws :: "'pt block_ops \<Rightarrow> bool" where
  "range_laws B \<longleftrightarrow>
     (\<forall>s e. s < e \<and> unat e + 2 ^ 21 < 2 ^ 64 \<longrightarrow>
        (let fs = block_frames B (align_down B s ALIGN_2MIB) (align_up B e ALIGN_2MIB)
         in distinct fs \<and> set fs = block_base ` {x. s \<le> x \<and> x < e})) \<and>
     (\<forall>v. block_page B v = block_base v)"

definition block_laws :: "('pt, 'b) mmu \<Rightarrow> 'pt block_ops \<Rightarrow> ('pt \<Rightarrow> Page \<rightharpoonup> u64) \<Rightarrow> ('pt \<Rightarrow> u64 \<rightharpoonup> u64) \<Rightarrow> bool" where
  "block_laws M B tbl blk \<longleftrightarrow> range_laws B \<and>
     (\<forall>v p pt. blk pt v = None \<longrightarrow> (\<exists>pt'. map_block B v p pt = Some pt' \<and> blk pt' = (blk pt)(v \<mapsto> p) \<and> tbl pt' = tbl pt)) \<and>
     (\<forall>p f pt pt'. map_to M p f pt = Some pt' \<longrightarrow> blk pt' = blk pt) \<and>
     (\<forall>p e pt. blk (put_entry M p e pt) = blk pt)"

lemma range_lawsD:
  assumes "range_laws B" "s < e" "unat e + 2 ^ 21 < 2 ^ 64"
  defines "fs \<equiv> block_frames B (align_down B s ALIGN_2MIB) (align_up B e ALIGN_2MIB)"
  shows "distinct fs" "set fs = block_base ` {x. s \<le> x \<and> x < e}" "block_page B v = block_base v"
  using assms(1-3) unfolding range_laws_def fs_def Let_def by blast+

lemma block_base_diff: "block_base x = x - take_bit 21 x"
  by (subst disjunctive_diff) (auto simp: block_base_def bit_simps take_bit_eq_mask intro!: bit_word_eqI)

lemma block_base_add:
  assumes "take_bit 21 c = 0"
  shows "block_base (x + c) = block_base x + c"
proof -
  have "unat c mod 2 ^ 21 = 0" using assms by (metis unsigned_take_bit_eq take_bit_eq_mod unsigned_0)
  then have "(unat x + unat c) mod 2 ^ 21 = unat x mod 2 ^ 21" by (simp add: mod_add_right_eq[symmetric])
  moreover have "(unat x + unat c) mod 2 ^ 64 mod 2 ^ 21 = (unat x + unat c) mod 2 ^ 21" by (rule mod_mod_cancel) simp
  ultimately have "unat (take_bit 21 (x + c)) = unat (take_bit 21 x)"
    by (simp add: unsigned_take_bit_eq take_bit_eq_mod unat_word_ariths)
  then have "take_bit 21 (x + c) = take_bit 21 x" by (simp add: word_unat_eq_iff)
  then show ?thesis by (simp add: block_base_diff)
qed

lemma block_base_idem [simp]: "block_base (block_base x) = block_base x"
  by (simp add: block_base_def and.assoc)

lemma block_base_virt: "block_base (phys_to_virt x) = phys_to_virt (block_base x)"
  unfolding phys_to_virt_def by (rule block_base_add) (simp add: PHYSICAL_MEMORY_OFFSET_def take_bit_eq_mod)

lemma map_blocks:
  assumes L: "block_laws M B tbl blk" and "distinct fs" "\<forall>f \<in> set fs. block_base f = f \<and> blk pt (phys_to_virt f) = None"
  shows "\<exists>pt'. iterE (\<lambda>paddr pt. expect msg (map_block B (block_page B (phys_to_virt paddr)) paddr pt)) fs pt = Inr pt' \<and>
    tbl pt' = tbl pt \<and> (\<forall>f \<in> set fs. blk pt' (phys_to_virt f) = Some f) \<and> (\<forall>v. v \<notin> phys_to_virt ` set fs \<longrightarrow> blk pt' v = blk pt v)"
  using assms(2,3)
proof (induction fs arbitrary: pt)
  case (Cons f fs)
  have f: "block_page B (phys_to_virt f) = phys_to_virt f" "blk pt (phys_to_virt f) = None"
    using L Cons.prems(2) unfolding block_laws_def range_laws_def by (simp_all add: block_base_virt)
  then obtain pt1 where pt1: "map_block B (phys_to_virt f) f pt = Some pt1" "blk pt1 = (blk pt)(phys_to_virt f \<mapsto> f)" "tbl pt1 = tbl pt"
    using L unfolding block_laws_def by blast
  have inj: "phys_to_virt g = phys_to_virt f \<longleftrightarrow> g = f" for g by (simp add: phys_to_virt_def)
  have "\<forall>g \<in> set fs. block_base g = g \<and> blk pt1 (phys_to_virt g) = None" using Cons.prems pt1(2) by (auto simp: inj)
  from Cons.IH[OF _ this] Cons.prems(1) obtain pt' where pt': "iterE (\<lambda>paddr pt. expect msg (map_block B (block_page B (phys_to_virt paddr)) paddr pt)) fs pt1 = Inr pt'"
    "tbl pt' = tbl pt1" "\<forall>g \<in> set fs. blk pt' (phys_to_virt g) = Some g" "\<forall>v. v \<notin> phys_to_virt ` set fs \<longrightarrow> blk pt' v = blk pt1 v" by auto
  have "phys_to_virt f \<notin> phys_to_virt ` set fs" using Cons.prems(1) by (auto simp: phys_to_virt_def)
  then have "blk pt' (phys_to_virt f) = Some f" using pt'(4) pt1(2) by simp
  then show ?case using pt' pt1 f(1) by auto
qed simp

lemma push_keeps_blocks:
  assumes L: "block_laws M B tbl blk" and "push_section M (s, e, attr, Linear off, name) ms = Inr ms'"
  shows "blk (table (space ms')) = blk (table (space ms))"
proof -
  have "blk (table vm') = blk (table vm)" if "vm_map M a t f vm = Inr vm'" for a t f vm vm'
    using that L unfolding block_laws_def vm_map_def pt_map_def by (auto simp: bindE_eq_Inr unwrap_def expect_def split: option.splits)
  then have step: "blk (table vm') = blk (table vm)" if "handler_map M (Linear off) a attr vm = Inr vm'" for a vm vm'
    using that by (simp add: linear_map_def)
  have "blk (table vm') = blk (table vm)" if "iterE (\<lambda>p. handler_map M (Linear off) (start_address p) attr) ps vm = Inr vm'" for ps vm vm'
    using that by (induction ps arbitrary: vm) (auto simp: bindE_eq_Inr dest!: step simp del: handler_map.simps)
  then show ?thesis using assms(2)
    by (auto simp: push_section_def ms_push_def area_map_def Let_def bindE_eq_Inr split: if_splits)
qed

lemma push_sections_keep_blocks:
  assumes L: "block_laws M B tbl blk" and "iterE (push_section M) ss ms = Inr ms'" "\<forall>d \<in> set ss. sec_ok d"
  shows "blk (table (space ms')) = blk (table (space ms))"
  using assms(2,3)
proof (induction ss arbitrary: ms)
  case (Cons d ss)
  obtain s e attr h name where d: "d = (s, e, attr, h, name)" by (cases d)
  with Cons.prems(2) obtain off where "h = Linear off" by auto
  with Cons d push_keeps_blocks[OF L] show ?case by (auto simp: bindE_eq_Inr)
qed simp

text \<open>The linker script \<^verbatim>\<open>boot/link.ld\<close> places the sections one after the other on page boundaries, from a fixed address on.\<close>

definition link_layout :: "symbols \<Rightarrow> bool" where
  "link_layout K \<longleftrightarrow>
     (let ps = [stext K, etext K, srodata K, erodata K, sgot K, egot K, sdata K, edata K, bootstack K, bootstacktop K, sbss K, ebss K]
      in 0xffff000040080000 \<le> stext K \<and> sorted ps \<and> (\<forall>a \<in> set ps. aligned a) \<and> unat (ebss K) + 4095 < 2 ^ 64)"

lemma unat_bound_le: "a \<le> b \<Longrightarrow> unat b + 4095 < 2 ^ 64 \<Longrightarrow> unat (a :: usize) + 4095 < 2 ^ 64"
  by (simp add: word_le_nat_alt)

lemma link_sections:
  assumes "link_layout K"
  shows "sections_ok (kernel_sections K)"
proof -
  note L = assms[unfolded link_layout_def Let_def]
  have al: "\<And>a. a \<in> {stext K, etext K, srodata K, erodata K, sgot K, egot K, sdata K, edata K, bootstack K, bootstacktop K, sbss K, ebss K} \<Longrightarrow>
      page_down a = a \<and> page_up a = a \<and> a \<le> ebss K"
    using L by (auto simp: aligned_page_down_id page_up_aligned)
  have k: "aligned (- KERNEL_OFFSET)" "aligned 0" "page_down 0x8000000 = 0x8000000" "page_up 0x10000000 = 0x10000000"
    by (simp_all add: aligned_def KERNEL_OFFSET_def page_down_def page_up_def PAGE_SIZE_def)
  have b: "unat a + 4095 < 2 ^ 64" if "a \<le> ebss K" for a using unat_bound_le[OF that] L by simp
  have p: "0x10000000 \<le> stext K" using L order.trans[of "0x10000000" "0xffff000040080000" "stext K"] by simp
  have "\<forall>d \<in> set (kernel_sections K). sec_ok d"
    using al b k(1,2) by (simp add: kernel_sections_def Let_def)
  moreover have "sorted_wrt (\<lambda>c d. \<forall>x. \<not> (sec_contains c x \<and> sec_contains d x)) (kernel_sections K)"
    using L p unfolding kernel_sections_def Let_def by (auto simp: al k; order)
  ultimately show ?thesis by (simp add: sections_ok_def)
qed

lemma kernel_section_attr:
  assumes "section_at (kernel_sections K) x = Some (attr, Linear off, name)"
  shows "aligned off" "\<not> user attr" "execute attr \<Longrightarrow> name = ''text'' \<and> readonly attr"
proof -
  obtain s e where "(s, e, attr, Linear off, name) \<in> set (kernel_sections K)"
    using assms by (auto simp: section_at_def dest!: find_SomeD)
  then show "aligned off" "\<not> user attr" "execute attr \<Longrightarrow> name = ''text'' \<and> readonly attr"
    by (auto simp: kernel_sections_def Let_def MemoryAttr_default_def attr_readonly_def attr_execute_def attr_mmio_def
        aligned_def KERNEL_OFFSET_def)
qed


section \<open>Frames and active tables\<close>

lemma unat_frame:
  assumes "unat i < 2 ^ 36"
  shows "unat (i * PAGE_SIZE + MEMORY_OFFSET) = unat i * 4096 + 0x40000000"
proof -
  have "unat (i * PAGE_SIZE) = unat i * 4096" using assms unat_mult_no_wrap[of i 4096] by (simp add: PAGE_SIZE_def)
  then show ?thesis using assms unat_add_no_wrap[of "i * PAGE_SIZE" MEMORY_OFFSET] by (simp add: MEMORY_OFFSET_def)
qed

lemma page_multiple: "n mod 4096 = 0 \<Longrightarrow> (n - 0x40000000) div 4096 * 4096 = n - (0x40000000 :: nat)"
proof -
  assume "n mod 4096 = 0"
  then have "4096 dvd n - (0x40000000 :: nat)" by (intro dvd_diff_nat) (simp_all add: mod_eq_0_iff_dvd)
  then show ?thesis by (rule dvd_div_mult_self)
qed

text \<open>C37: The frames that the allocator gets are exactly the page frames of physical memory beyond the kernel image: if memory starts
  where the kernel expects it and the image ends on a page boundary, no frame handed out overlaps the image or lies outside of memory, and none is
  lost.\<close>
theorem free_frames_exact:
  assumes "aligned (as_lower_range (kernel_end K))" "MEMORY_OFFSET \<le> as_lower_range (kernel_end K)" "MEMORY_OFFSET < hi" "unat hi \<le> 2 ^ 48"
    and "free_frames K (MEMORY_OFFSET, hi) = (s, e)"
  shows "{i * PAGE_SIZE + MEMORY_OFFSET | i. s \<le> i \<and> i < e} = {f. aligned f \<and> as_lower_range (kernel_end K) \<le> f \<and> f < hi}"
proof -
  let ?k = "as_lower_range (kernel_end K)" and ?m = "0x40000000 :: nat"
  have m: "unat MEMORY_OFFSET = ?m" by (simp add: MEMORY_OFFSET_def)
  have k: "?m \<le> unat ?k" "unat ?k mod 4096 = 0" using assms(1,2) m by (simp_all add: aligned_def word_le_nat_alt)
  have h: "?m < unat hi" using assms(3) m by (simp add: word_less_nat_alt)
  have se: "s = (?k - MEMORY_OFFSET) div 4096" "e = (hi - MEMORY_OFFSET - 1) div 4096 + 1"
    using assms(3,5) by (simp_all add: free_frames_def Let_def PAGE_SIZE_def)
  have "unat s = (unat ?k - ?m) div 4096" using se(1) m unat_sub_no_wrap[OF assms(2)] by (simp add: unat_div_distrib)
  then have s: "unat s * 4096 = unat ?k - ?m" using page_multiple[OF k(2)] by simp
  have e: "unat e = (unat hi - ?m - 1) div 4096 + 1"
  proof -
    have d: "unat (hi - MEMORY_OFFSET) = unat hi - ?m" using unat_sub_no_wrap[of MEMORY_OFFSET hi] assms(3) m by simp
    then have "1 \<le> hi - MEMORY_OFFSET" using h by (simp add: word_le_nat_alt)
    from unat_sub_no_wrap[OF this] d have "unat (hi - MEMORY_OFFSET - 1) = unat hi - ?m - 1" by simp
    then have q: "unat ((hi - MEMORY_OFFSET - 1) div 4096) = (unat hi - ?m - 1) div 4096" by (simp add: unat_div_distrib)
    moreover have "(unat hi - ?m - 1) div 4096 < 2 ^ 52" using assms(4) by simp
    ultimately show ?thesis using se(2) unat_add_no_wrap[of "(hi - MEMORY_OFFSET - 1) div 4096" 1] by simp
  qed
  have le: "(unat hi - ?m - 1) div 4096 < 2 ^ 36" using assms(4) by simp
  have index: "unat i < 2 ^ 36 \<Longrightarrow> i < e \<longleftrightarrow> unat i * 4096 + ?m < unat hi" for i
    unfolding word_less_nat_alt e using h by (simp add: less_Suc_eq_le less_eq_div_iff_mult_less_eq) linarith
  show ?thesis
  proof (intro set_eqI iffI)
    fix f assume "f \<in> {i * PAGE_SIZE + MEMORY_OFFSET | i. s \<le> i \<and> i < e}"
    then obtain i where i: "f = i * PAGE_SIZE + MEMORY_OFFSET" "s \<le> i" "i < e" by blast
    have b: "unat i < 2 ^ 36" using i(3) e le by (simp add: word_less_nat_alt)
    note f = unat_frame[OF b, folded i(1)]
    have "unat f mod 4096 = 0" unfolding f by simp
    moreover have "unat s * 4096 \<le> unat i * 4096" using i(2) by (simp add: word_le_nat_alt)
    ultimately show "f \<in> {f. aligned f \<and> ?k \<le> f \<and> f < hi}"
      using i(3) index[OF b] s k(1) f by (simp add: aligned_def word_le_nat_alt word_less_nat_alt)
  next
    fix f assume "f \<in> {f. aligned f \<and> ?k \<le> f \<and> f < hi}"
    then have f: "unat f mod 4096 = 0" "unat ?k \<le> unat f" "unat f < unat hi" by (simp_all add: aligned_def word_le_nat_alt word_less_nat_alt)
    define n where "n = (unat f - ?m) div 4096"
    then have n: "n * 4096 + ?m = unat f" using page_multiple[OF f(1)] f(2) k(1) by linarith
    then have b: "n < 2 ^ 36" using f(3) assms(4) by simp
    have u: "unat (of_nat n :: usize) = n" using b by (intro of_nat_page_inj) simp
    have "f = of_nat n * PAGE_SIZE + MEMORY_OFFSET" using unat_frame[of "of_nat n"] u b n by (simp add: word_unat_eq_iff)
    moreover have "s \<le> of_nat n" using s n f(2) k(1) u by (simp add: word_le_nat_alt)
    moreover have "of_nat n < e" using index[of "of_nat n"] u b n f(3) by simp
    ultimately show "f \<in> {i * PAGE_SIZE + MEMORY_OFFSET | i. s \<le> i \<and> i < e}" by blast
  qed
qed

text \<open>Remapping device memory: the address returned is mapped to the device, page by page.\<close>

lemma ioremap_maps:
  assumes "mmu_laws M tbl" "ms_ok M tbl ms" "linear_ok M tbl ms" "v = paddr + KERNEL_OFFSET" "v < v + len" "unat (v + len) + 4095 < 2 ^ 64"
    and "\<forall>x. page_down v \<le> x \<and> x < page_up (v + len) \<longrightarrow> area_at (areas ms) x = None"
  shows "\<exists>ms'. ioremap M paddr len name (Some ms) = Inr (v, Some ms') \<and> ms_ok M tbl ms' \<and> linear_ok M tbl ms' \<and>
    (\<forall>x. page_down v \<le> x \<and> x < page_up (v + len) \<longrightarrow>
       (\<exists>e. tbl (table (space ms')) (of_addr x) = Some e \<and> linear_entry M (attr_mmio 2 MemoryAttr_default) (- KERNEL_OFFSET) (of_addr x) e))"
proof -
  have env: "mmu_env M tbl" by unfold_locales (fact assms(1))
  have k: "aligned (- KERNEL_OFFSET)" by (simp add: aligned_def KERNEL_OFFSET_def)
  from mmu_env.push_linear[OF env assms(2,3,5,6) k assms(7), of "attr_mmio 2 MemoryAttr_default" name] obtain ms' where
    "ms_push M v (v + len) (attr_mmio 2 MemoryAttr_default) (Linear (- KERNEL_OFFSET)) name ms = Inr ms'" "ms_ok M tbl ms'" "linear_ok M tbl ms'"
    "\<forall>x. area_at (areas ms') x = (if page_down v \<le> x \<and> x < page_up (v + len)
       then Some (attr_mmio 2 MemoryAttr_default, Linear (- KERNEL_OFFSET), name) else area_at (areas ms) x)" by blast
  then show ?thesis using k assms(4) unfolding linear_ok_def by (intro exI[of _ ms']) (simp add: ioremap_def Let_def)
qed

text \<open>The function that runs with a page table activated sees that table, and afterwards the old one is active again.\<close>

lemma with_table_restores:
  assumes "with_table token f r = (ret, r')" "aligned token" "aligned (active_token r)"
    and "\<And>r. active_token (snd (f r)) = active_token r"
  shows "active_token r' = active_token r" "\<exists>r1. active_token r1 = token \<and> fst (f r1) = ret \<and> (tlb_clean r \<longrightarrow> tlb_clean r1)"
proof -
  have t: "start_address (of_addr token) = token" "start_address (of_addr (active_token r)) = active_token r"
    using assms(2,3) by (simp_all add: start_address_of_addr aligned_page_down_id)
  let ?r1 = "activate token r"
  have r1: "active_token ?r1 = token" "tlb_clean r \<longrightarrow> tlb_clean ?r1"
    using t(1) by (auto simp: activate_def Let_def active_token_def set_token_def flush_tlb_def)
  have w: "fst (f ?r1) = ret" "r' = (if active_token r \<noteq> token then flush_tlb (set_token (active_token r) (snd (f ?r1))) else snd (f ?r1))"
    using assms(1) by (auto simp: with_table_def activate_def Let_def split: prod.splits if_splits)
  show "active_token r' = active_token r" using w(2) assms(4)[of ?r1] r1(1) t(2)
    by (auto simp: active_token_def set_token_def flush_tlb_def)
  show "\<exists>r1. active_token r1 = token \<and> fst (f r1) = ret \<and> (tlb_clean r \<longrightarrow> tlb_clean r1)" using r1 w(1) by blast
qed

text \<open>Each poll of a thread starts with its own table active and no stale translation.\<close>

lemma switch_poll_own_table:
  assumes "aligned vmtoken"
  shows "switch_poll vmtoken poll r = poll (r\<lparr>ttbr0 := vmtoken, tlb_clean := True\<rparr>)"
  using assms by (simp add: switch_poll_def set_page_table_def start_address_of_addr aligned_page_down_id)

section \<open>A machine\<close>

text \<open>A page table with blocks beside its pages.\<close>

definition lift_mmu :: "('pt, 'b) mmu \<Rightarrow> ('pt \<times> (u64 \<rightharpoonup> u64), 'b) mmu" where
  "lift_mmu M =
     \<lparr>EF = EF M, pte_flags = pte_flags M, pte_addr = pte_addr M, pte_attr = pte_attr M, pte_set_addr = pte_set_addr M,
      pte_set_attr = pte_set_attr M, MairNormal = MairNormal M, MairDevice = MairDevice M, MairNormalNonCacheable = MairNormalNonCacheable M,
      map_to = (\<lambda>p f pt. map_option (\<lambda>t. (t, snd pt)) (map_to M p f (fst pt))),
      unmap_page = (\<lambda>p pt. map_option (\<lambda>t. (t, snd pt)) (unmap_page M p (fst pt))),
      get_entry_mut = (\<lambda>p pt. get_entry_mut M p (fst pt)), put_entry = (\<lambda>p e pt. (put_entry M p e (fst pt), snd pt)),
      translate_page = (\<lambda>p pt. translate_page M p (fst pt)), buddy_alloc = buddy_alloc M, buddy_dealloc = buddy_dealloc M\<rparr>"

definition demo_blocks :: "('t \<times> (u64 \<rightharpoonup> u64)) block_ops" where
  "demo_blocks =
     \<lparr>align_down = (\<lambda>x a. x AND NOT (a - 1)), align_up = (\<lambda>x a. (x + a - 1) AND NOT (a - 1)),
      block_frames = (\<lambda>s e. map (\<lambda>i. of_nat (i * 0x200000)) [unat s div 0x200000 ..< unat e div 0x200000]), block_page = block_base,
      map_block = (\<lambda>v p pt. if snd pt v = None then Some (fst pt, (snd pt)(v \<mapsto> p)) else None)\<rparr>"

lemma lift_sel [simp]:
  "has_flag (lift_mmu M) = has_flag M" "e_present (lift_mmu M) = e_present M" "e_execute (lift_mmu M) = e_execute M"
  "e_writable (lift_mmu M) = e_writable M" "e_user (lift_mmu M) = e_user M" "EF (lift_mmu M) = EF M" "pte_addr (lift_mmu M) = pte_addr M"
  by (simp_all add: fun_eq_iff has_flag_def e_present_def e_execute_def e_writable_def e_user_def) (simp_all add: lift_mmu_def)

lemma lift_laws:
  assumes "mmu_laws M tbl"
  shows "mmu_laws (lift_mmu M) (\<lambda>pt. tbl (fst pt))"
proof -
  have "flag_laws (lift_mmu M) = flag_laws M" unfolding flag_laws_def lift_sel by (simp add: lift_mmu_def)
  moreover have "table_laws (lift_mmu M) (\<lambda>pt. tbl (fst pt))"
    using assms unfolding mmu_laws_def table_laws_def lift_sel by (fastforce simp: lift_mmu_def)
  moreover have "frames_available (lift_mmu M) (\<lambda>pt. tbl (fst pt))"
    using assms by (simp add: mmu_laws_def frames_available_def lift_mmu_def)
  ultimately show ?thesis using assms by (simp add: mmu_laws_def)
qed

lemma unat_block_base: "unat (block_base x) = unat x div 0x200000 * 0x200000"
proof -
  have "unat (take_bit 21 x) = unat x mod 2 ^ 21" by (simp only: unsigned_take_bit_eq take_bit_eq_mod[where ?'a = nat])
  moreover have "unat (take_bit 21 x) \<le> unat x" unfolding calculation by (rule mod_less_eq_dividend)
  then have "take_bit 21 x \<le> x" by (simp add: word_le_nat_alt)
  ultimately show ?thesis using unat_sub_no_wrap[of "take_bit 21 x" x] by (simp add: block_base_diff minus_mod_eq_div_mult)
qed

lemma block_range:
  assumes "s < e" "unat e + 2 ^ 21 < 2 ^ 64"
  shows "distinct (map (\<lambda>i. of_nat (i * 0x200000) :: u64) [unat s div 0x200000 ..< (unat e + 0x1FFFFF) div 0x200000]) \<and>
    (\<lambda>i. of_nat (i * 0x200000) :: u64) ` {unat s div 0x200000 ..< (unat e + 0x1FFFFF) div 0x200000} = block_base ` {x. s \<le> x \<and> x < e}"
proof -
  let ?n = "0x200000 :: nat" and ?f = "\<lambda>i. of_nat (i * 0x200000) :: u64"
  have last: "i * ?n < unat e" if "i < (unat e + 0x1FFFFF) div ?n" for i
    using that by (simp add: less_eq_div_iff_mult_less_eq Suc_le_eq[symmetric])
  have u: "unat (?f i) = i * ?n" if "i < (unat e + 0x1FFFFF) div ?n" for i
    using last[OF that] unat_lt_64[of e] by (simp only: unat_of_nat) simp
  have "inj_on ?f {..< (unat e + 0x1FFFFF) div ?n}"
    by (rule inj_onI) (metis lessThan_iff mult_right_cancel u zero_neq_numeral)
  then have d: "distinct (map ?f [unat s div ?n ..< (unat e + 0x1FFFFF) div ?n])"
    by (auto simp: distinct_map intro: inj_on_subset)
  have base: "block_base x = ?f i" if "unat x div ?n = i" "i < (unat e + 0x1FFFFF) div ?n" for x i
    using u[OF that(2)] that(1) by (simp add: word_unat_eq_iff unat_block_base)
  have "?f i \<in> block_base ` {x. s \<le> x \<and> x < e}" if "unat s div ?n \<le> i" "i < (unat e + 0x1FFFFF) div ?n" for i
  proof -
    let ?x = "max s (?f i)"
    have "unat ?x div ?n = i" using that(1) u[OF that(2)] by (auto simp: max_def word_le_nat_alt div_le_mono less_eq_div_iff_mult_less_eq)
    moreover have "?x < e" using assms(1) last[OF that(2)] u[OF that(2)] by (auto simp: max_def word_less_nat_alt)
    ultimately show ?thesis using base[of ?x i] that(2) by (intro image_eqI[of _ _ ?x]) auto
  qed
  moreover have "block_base x \<in> ?f ` {unat s div ?n ..< (unat e + 0x1FFFFF) div ?n}" if "s \<le> x" "x < e" for x
  proof -
    have "unat s div ?n \<le> unat x div ?n" using that(1) by (simp add: word_le_nat_alt div_le_mono)
    moreover have "unat x div ?n < (unat e + 0x1FFFFF) div ?n" using that(2) by (simp add: word_less_nat_alt)
    ultimately show ?thesis using base[of x "unat x div ?n"] by auto
  qed
  ultimately show ?thesis using d by auto
qed

lemma demo_ranges: "range_laws demo_blocks"
proof -
  have lo: "unat (align_down demo_blocks s ALIGN_2MIB) div 0x200000 = unat s div 0x200000" for s
    using unat_block_base[of s] by (simp add: demo_blocks_def block_base_def mask_eq_exp_minus_1)
  have hi: "unat (align_up demo_blocks e ALIGN_2MIB) div 0x200000 = (unat e + 0x1FFFFF) div 0x200000" if "unat e + 2 ^ 21 < 2 ^ 64" for e
    using unat_block_base[of "e + 0x1FFFFF"] unat_add_no_wrap[of e "0x1FFFFF"] that
    by (simp add: demo_blocks_def block_base_def mask_eq_exp_minus_1 add.commute[of "0x1FFFFF" e])
  have fs: "block_frames demo_blocks a b = map (\<lambda>i. of_nat (i * 0x200000)) [unat a div 0x200000 ..< unat b div 0x200000]" for a b
    by (simp add: demo_blocks_def)
  have "let fs = block_frames demo_blocks (align_down demo_blocks s ALIGN_2MIB) (align_up demo_blocks e ALIGN_2MIB)
      in distinct fs \<and> set fs = block_base ` {x. s \<le> x \<and> x < e}" if "s < e" "unat e + 2 ^ 21 < 2 ^ 64" for s e
    using block_range[OF that] unfolding Let_def fs lo hi[OF that(2)] by (simp only: set_map set_upt)
  then show ?thesis unfolding range_laws_def by (auto simp: demo_blocks_def)
qed

lemma demo_block_laws: "block_laws (lift_mmu M) demo_blocks (\<lambda>pt. tbl (fst pt)) snd"
  unfolding block_laws_def using demo_ranges by (auto simp: demo_blocks_def lift_mmu_def)

definition demo_symbols :: symbols where
  "demo_symbols =
     \<lparr>stext = 0xffff000040080000, etext = 0xffff000040082000, sdata = 0xffff000040083000, edata = 0xffff000040084000,
      srodata = 0xffff000040082000, erodata = 0xffff000040083000, sgot = 0xffff000040083000, egot = 0xffff000040083000,
      sbss = 0xffff000040086000, ebss = 0xffff000040088000, bootstack = 0xffff000040084000, bootstacktop = 0xffff000040086000,
      kernel_end = 0xffff000040088000\<rparr>"

lemma demo_layout: "link_layout demo_symbols"
  by (simp add: link_layout_def demo_symbols_def Let_def aligned_def)


theorem free_frames_exact_witness:
  "{i * PAGE_SIZE + MEMORY_OFFSET | i. 0x88 \<le> i \<and> i < 0x40000} = {f. aligned f \<and> 0x40088000 \<le> f \<and> f < 0x80000000}"
proof -
  have k: "as_lower_range (kernel_end demo_symbols) = 0x40088000"
    by (simp add: as_lower_range_def demo_symbols_def KERNEL_OFFSET_def)
  have "free_frames demo_symbols (MEMORY_OFFSET, 0x80000000) = (0x88, 0x40000)"
    unfolding free_frames_def fst_conv snd_conv k by (simp add: MEMORY_OFFSET_def PAGE_SIZE_def)
  from free_frames_exact[OF _ _ _ _ this, unfolded k] show ?thesis by (simp add: MEMORY_OFFSET_def aligned_def)
qed

end
