(* ===== verification/Boot_Paging.thy ===== *)
theory Boot_Paging
  imports Kernel_Memory
begin

text \<open>
  The first page table (\<^verbatim>\<open>src/kernel/src/arch/aarch64/boot/mod.rs\<close>): before the kernel runs, memory and devices are mapped by blocks of two
  megabytes, once at their physical addresses and once in the upper half. The four tables lie in the image of the kernel, at the addresses of their
  symbols; an entry of a table is a \<open>boot_entry\<close>. How the processor translates an address is \<open>boot_walk\<close>.
\<close>

section \<open>Creating the tables\<close>

text \<open>The address of a symbol, relative to where the code runs (\<^verbatim>\<open>src/kernel/src/lang.rs\<close>): \<^verbatim>\<open>adrp\<close> gives the page that it lies in.\<close>

definition symbol_addr :: "usize \<Rightarrow> usize" where
  "symbol_addr x = x AND NOT (mask 12)"

text \<open>A block of \<^verbatim>\<open>default_block\<close> permissions: the bits added to them, and the memory type.\<close>

datatype mair_type = MairNormal | MairDevice

record block_flags =
  uxn :: bool
  pxn :: bool
  mair_attr :: mair_type

datatype boot_entry = Invalid | TableAt u64 | BlockAt u64 block_flags

type_synonym boot_table = "nat \<Rightarrow> boot_entry"
type_synonym boot_tables = "u64 \<Rightarrow> boot_table"

abbreviation MEMORY_START :: usize where "MEMORY_START \<equiv> 0x40000000"
abbreviation MEMORY_END :: usize where "MEMORY_END \<equiv> 0x80000000"
abbreviation device_flags :: block_flags where "device_flags \<equiv> \<lparr>uxn = True, pxn = True, mair_attr = MairDevice\<rparr>"
abbreviation memory_flags :: block_flags where "memory_flags \<equiv> \<lparr>uxn = True, pxn = False, mair_attr = MairNormal\<rparr>"

definition map_2mib :: "'pt block_ops \<Rightarrow> (u64 \<Rightarrow> nat) \<Rightarrow> usize \<Rightarrow> usize \<Rightarrow> block_flags \<Rightarrow> boot_table \<Rightarrow> boot_table" where
  "map_2mib B p2_index s e flags p2 =
     (let aligned_start = align_down B s ALIGN_2MIB; aligned_end = align_up B e ALIGN_2MIB
      in fold (\<lambda>paddr p2. p2(p2_index (block_page B paddr) := BlockAt paddr flags)) (block_frames B aligned_start aligned_end) p2)"

record boot_symbols =
  page_table_lvl4 :: usize
  page_table_lvl3 :: usize
  page_table_lvl2_0 :: usize
  page_table_lvl2_1 :: usize

abbreviation clear_table :: "usize \<Rightarrow> boot_tables \<Rightarrow> boot_tables" where
  "clear_table a T \<equiv> T(a := (\<lambda>_. Invalid))"

abbreviation set_frame :: "usize \<Rightarrow> nat \<Rightarrow> u64 \<Rightarrow> boot_tables \<Rightarrow> boot_tables" where
  "set_frame a i frame T \<equiv> T(a := (T a)(i := TableAt frame))"

definition create_init_paging :: "'pt block_ops \<Rightarrow> (u64 \<Rightarrow> nat) \<Rightarrow> boot_symbols \<Rightarrow> boot_tables \<Rightarrow> boot_tables" where
  "create_init_paging B p2_index L T =
     (let p4 = symbol_addr (page_table_lvl4 L); p3 = symbol_addr (page_table_lvl3 L);
          p2_0 = symbol_addr (page_table_lvl2_0 L); p2_1 = symbol_addr (page_table_lvl2_1 L);
          T = clear_table p4 T; T = clear_table p3 T; T = clear_table p2_0 T; T = clear_table p2_1 T;
          frame_lvl3 = start_address (of_addr (symbol_addr (page_table_lvl3 L)));
          frame_lvl2_0 = start_address (of_addr (symbol_addr (page_table_lvl2_0 L)));
          frame_lvl2_1 = start_address (of_addr (symbol_addr (page_table_lvl2_1 L)));
          T = set_frame p4 0 frame_lvl3 T; T = set_frame p4 256 frame_lvl3 T;
          T = set_frame p3 0 frame_lvl2_0 T; T = set_frame p3 1 frame_lvl2_1 T;
          T = T(p2_0 := map_2mib B p2_index PERIPHERALS_START PERIPHERALS_END device_flags (T p2_0))
      in T(p2_1 := map_2mib B p2_index MEMORY_START MEMORY_END memory_flags (T p2_1)))"

text \<open>
  What \<^verbatim>\<open>enable_mmu\<close> leaves behind, without debug assertions: both base registers hold the boot table, cached translations are gone, the stack of the
  core and the return address are those of the upper half, and translation is on. The constants that it writes to the control registers (addresses of 48
  bits, tables of four kilobytes, the memory types) are not part of the state; \<open>boot_walk\<close> and \<open>mair_type\<close> rely on them.
\<close>

record boot_cpu =
  translation :: mmu_regs
  sp :: usize
  lr :: usize
  mmu_on :: bool

definition enable_mmu :: "boot_symbols \<Rightarrow> symbols \<Rightarrow> usize \<Rightarrow> boot_cpu \<Rightarrow> boot_cpu" where
  "enable_mmu L K cpuid c =
     (let frame_lvl4 = start_address (of_addr (symbol_addr (page_table_lvl4 L)))
      in c\<lparr>translation := flush_tlb ((translation c)\<lparr>ttbr0 := frame_lvl4, ttbr1 := frame_lvl4\<rparr>),
           sp := as_upper_range (symbol_addr (bootstacktop K) - push_bit 18 cpuid),
           lr := as_upper_range (lr c), mmu_on := True\<rparr>)"

text \<open>\<open>clear_bss\<close> writes words of eight bytes, at the addresses that \<^verbatim>\<open>step_by\<close> gives.\<close>

function clear_words :: "usize \<Rightarrow> usize \<Rightarrow> (usize \<Rightarrow> u8) \<Rightarrow> usize \<Rightarrow> u8" where
  "clear_words i e m =
     (if i < e
      then let m = (\<lambda>a. if a - i < 8 then 0 else m a)
           in if unat i + 8 < 2 ^ 64 then clear_words (i + 8) e m else m
      else m)"
  by pat_completeness auto
termination
proof (relation "measure (\<lambda>(i, e, m). 2 ^ 64 - unat i)")
  fix i e :: usize and m x :: "usize \<Rightarrow> u8"
  assume "unat i + 8 < 2 ^ 64"
  moreover from this have "unat (i + 8) = unat i + 8" using unat_add_no_wrap[of i 8] by simp
  ultimately show "((i + 8, e, x), i, e, m) \<in> measure (\<lambda>(i, e, m). 2 ^ 64 - unat i)" by simp
qed simp

declare clear_words.simps [simp del]

definition clear_bss :: "symbols \<Rightarrow> (usize \<Rightarrow> u8) \<Rightarrow> usize \<Rightarrow> u8" where
  "clear_bss K m = clear_words (symbol_addr (sbss K)) (symbol_addr (ebss K)) m"

section \<open>What the processor makes of them\<close>

text \<open>
  Translation of an address in either half by three levels of tables, nine bits of the address each, down to a block of two megabytes; the bits above
  the 48th only choose the base register.
\<close>

definition table_index :: "nat \<Rightarrow> u64 \<Rightarrow> nat" where
  "table_index k v = unat v div 2 ^ k mod 512"

definition boot_walk :: "boot_tables \<Rightarrow> u64 \<Rightarrow> u64 \<Rightarrow> (u64 \<times> block_flags) option" where
  "boot_walk T root v =
     (case T root (table_index 39 v) of
        TableAt a \<Rightarrow>
          (case T a (table_index 30 v) of
             TableAt b \<Rightarrow> (case T b (table_index 21 v) of BlockAt p fl \<Rightarrow> Some (p + take_bit 21 v, fl) | _ \<Rightarrow> None)
           | _ \<Rightarrow> None)
      | _ \<Rightarrow> None)"

text \<open>The index that the crate computes is that of the architecture, and the image holds the tables in four pages of their own.\<close>

definition index_law :: "(u64 \<Rightarrow> nat) \<Rightarrow> bool" where
  "index_law p2_index \<longleftrightarrow> (\<forall>v. p2_index v = table_index 21 v)"

definition boot_layout :: "boot_symbols \<Rightarrow> bool" where
  "boot_layout L \<longleftrightarrow>
     distinct (map symbol_addr [page_table_lvl4 L, page_table_lvl3 L, page_table_lvl2_0 L, page_table_lvl2_1 L])"

lemma frame_symbol: "start_address (of_addr (symbol_addr x)) = symbol_addr x"
proof -
  have "start_address (of_addr y) = push_bit 12 (drop_bit 12 y)" for y
    by (simp add: start_address_def of_addr_def PAGE_SIZE_def push_bit_eq_mult drop_bit_eq_div)
  then show ?thesis by (auto simp: symbol_addr_def bit_simps intro!: bit_word_eqI)
qed

lemma fold_blocks:
  assumes "\<forall>f \<in> set fs. ix f = j \<longleftrightarrow> f = b"
  shows "fold (\<lambda>f t. t(ix f := E f)) fs t j = (if b \<in> set fs then E b else t j)"
  using assms by (induction fs arbitrary: t) auto

lemma map_2mib_entry:
  assumes "range_laws B" "index_law p2_index" "s < e" "unat e + 2 ^ 21 < 2 ^ 64" "2 ^ 21 dvd unat s" "2 ^ 21 dvd unat e"
    and "unat a div 2 ^ 30 = g" "unat s div 2 ^ 30 = g" "(unat e - 1) div 2 ^ 30 = g"
  shows "map_2mib B p2_index s e fl (\<lambda>_. Invalid) (table_index 21 a) = (if s \<le> a \<and> a < e then BlockAt (block_base a) fl else Invalid)"
proof -
  define fs where "fs = block_frames B (align_down B s ALIGN_2MIB) (align_up B e ALIGN_2MIB)"
  note fs = range_lawsD(2)[OF assms(1,3,4), folded fs_def] and page = range_lawsD(3)[OF assms(1,3,4)]
  have split: "unat x div 2 ^ 30 = unat x div 2 ^ 21 div 512" for x :: u64 by (simp add: div_mult2_eq[symmetric])
  have same: "table_index 21 x = table_index 21 a \<longleftrightarrow> unat x div 2 ^ 21 = unat a div 2 ^ 21" if "unat x div 2 ^ 30 = g" for x :: u64
    using that assms(7) unfolding table_index_def split by (metis div_mult_mod_eq)
  have base: "block_base x = block_base a \<longleftrightarrow> unat x div 2 ^ 21 = unat a div 2 ^ 21" for x
    by (simp add: word_unat_eq_iff unat_block_base)
  have ix: "table_index 21 (block_base x) = table_index 21 x" for x by (simp add: table_index_def unat_block_base)
  have inr: "unat x div 2 ^ 30 = g" if "s \<le> x" "x < e" for x
  proof -
    have "unat s \<le> unat x" "unat x \<le> unat e - 1" using that by (simp_all add: word_le_nat_alt word_less_nat_alt)
    from div_le_mono[OF this(1), of "2 ^ 30"] div_le_mono[OF this(2), of "2 ^ 30"] show ?thesis using assms(8,9) by simp
  qed
  have mem: "block_base a \<in> set fs \<longleftrightarrow> s \<le> a \<and> a < e"
  proof
    assume "block_base a \<in> set fs"
    then obtain x where x: "s \<le> x" "x < e" "block_base x = block_base a" unfolding fs by auto
    then have d: "unat x div 2 ^ 21 = unat a div 2 ^ 21" by (simp add: base)
    obtain m n where mn: "unat s = 2 ^ 21 * m" "unat e = 2 ^ 21 * n" using assms(5,6) by (auto elim!: dvdE)
    have "m \<le> unat x div 2 ^ 21" using div_le_mono[of "unat s" "unat x" "2 ^ 21"] x(1) mn(1) by (simp add: word_le_nat_alt)
    moreover have "unat x div 2 ^ 21 < n" using x(2) mn(2) by (simp add: word_less_nat_alt div_less_iff_less_mult mult.commute)
    ultimately have "m * 2 ^ 21 \<le> unat a" "unat a < n * 2 ^ 21"
      unfolding d by (simp_all add: less_eq_div_iff_mult_less_eq div_less_iff_less_mult)
    then show "s \<le> a \<and> a < e" by (simp add: word_le_nat_alt word_less_nat_alt mn mult.commute)
  qed (auto simp: fs)
  have "\<forall>f \<in> set fs. p2_index (block_page B f) = table_index 21 a \<longleftrightarrow> f = block_base a"
    using assms(2) inr same base by (auto simp: fs index_law_def page ix)
  from fold_blocks[of fs "\<lambda>f. p2_index (block_page B f)", OF this, of "\<lambda>f. BlockAt f fl"] mem
  show ?thesis by (simp add: map_2mib_def fs_def[symmetric])
qed

lemma low_index: "table_index 30 (take_bit 47 v) = table_index 30 v" "table_index 21 (take_bit 47 v) = table_index 21 v"
proof -
  have "take_bit 9 (drop_bit k (take_bit 47 (unat v))) = take_bit 9 (drop_bit k (unat v))" if "k + 9 \<le> 47" for k
    using that by (simp add: drop_bit_take_bit min.absorb1)
  from this[of 30] this[of 21] show "table_index 30 (take_bit 47 v) = table_index 30 v" "table_index 21 (take_bit 47 v) = table_index 21 v"
    by (simp_all add: table_index_def unsigned_take_bit_eq take_bit_eq_mod[where ?'a = nat] drop_bit_eq_div)
qed

lemma top_index: "table_index 39 v \<in> {0, 256} \<longleftrightarrow> unat (take_bit 47 v) < 2 ^ 39"
proof -
  have "take_bit 8 (drop_bit 39 (unat v)) = drop_bit 39 (take_bit 47 (unat v))" by (simp add: drop_bit_take_bit)
  then have "unat v div 2 ^ 39 mod 256 = unat (take_bit 47 v) div 2 ^ 39"
    by (simp add: unsigned_take_bit_eq take_bit_eq_mod[where ?'a = nat] drop_bit_eq_div)
  moreover have "n mod 512 \<in> {0, 256} \<longleftrightarrow> n mod 256 = 0" for n :: nat
  proof -
    have "n mod 512 mod 256 = n mod 256" by (simp add: mod_mod_cancel)
    moreover have "m \<in> {0, 256} \<longleftrightarrow> m mod 256 = 0" if "m < 512" for m :: nat using that by (auto elim!: dvdE simp: mod_eq_0_iff_dvd)
    ultimately show ?thesis by (metis mod_less_divisor zero_less_numeral)
  qed
  ultimately show ?thesis by (simp add: table_index_def div_eq_0_iff)
qed

lemma boot_tables_content:
  assumes "boot_layout L" "T' = create_init_paging B p2_index L T"
  shows "T' (symbol_addr (page_table_lvl4 L)) j = (if j \<in> {0, 256} then TableAt (symbol_addr (page_table_lvl3 L)) else Invalid)"
    and "T' (symbol_addr (page_table_lvl3 L)) j =
      (if j = 0 then TableAt (symbol_addr (page_table_lvl2_0 L)) else if j = 1 then TableAt (symbol_addr (page_table_lvl2_1 L)) else Invalid)"
    and "T' (symbol_addr (page_table_lvl2_0 L)) = map_2mib B p2_index PERIPHERALS_START PERIPHERALS_END device_flags (\<lambda>_. Invalid)"
    and "T' (symbol_addr (page_table_lvl2_1 L)) = map_2mib B p2_index MEMORY_START MEMORY_END memory_flags (\<lambda>_. Invalid)"
  using assms(1) unfolding assms(2) boot_layout_def create_init_paging_def Let_def frame_symbol by auto

lemma boot_walk_exact:
  assumes "range_laws B" "index_law p2_index" "boot_layout L"
  shows "boot_walk (create_init_paging B p2_index L T) (symbol_addr (page_table_lvl4 L)) v =
    (let a = take_bit 47 v
     in if PERIPHERALS_START \<le> a \<and> a < PERIPHERALS_END then Some (a, device_flags)
        else if MEMORY_START \<le> a \<and> a < MEMORY_END then Some (a, memory_flags) else None)"
proof -
  define a where "a = take_bit 47 v"
  note T = boot_tables_content[OF assms(3) refl, of B p2_index T]
  note e0 = map_2mib_entry[OF assms(1,2), of PERIPHERALS_START PERIPHERALS_END a 0 device_flags, simplified]
  note e1 = map_2mib_entry[OF assms(1,2), of MEMORY_START MEMORY_END a 1 memory_flags, simplified]
  have off: "block_base a + take_bit 21 v = a" by (simp add: block_base_diff a_def)
  note ix = low_index[of v, folded a_def, symmetric] and top = top_index[of v, folded a_def]
  have above: "\<not> a < PERIPHERALS_END" "\<not> a < MEMORY_END" if "2 ^ 31 \<le> unat a" using that by (simp_all add: word_less_nat_alt)
  show ?thesis
  proof (cases "unat a < 2 ^ 39")
    case False
    then show ?thesis using above top unfolding boot_walk_def T by (simp add: a_def[symmetric] del: insert_iff)
  next
    case True
    then have lt: "unat a div 2 ^ 30 < 512" by (simp add: div_less_iff_less_mult)
    then have i30: "table_index 30 v = unat a div 2 ^ 30" unfolding ix(1) by (simp add: table_index_def)
    consider (lo) "unat a div 2 ^ 30 = 0" | (hi) "unat a div 2 ^ 30 = 1" | (out) "unat a div 2 ^ 30 > 1" by linarith
    then show ?thesis
    proof cases
      case lo
      then have "\<not> MEMORY_START \<le> a" by (simp add: word_le_nat_alt div_eq_0_iff)
      then show ?thesis using e0 lo True top off unfolding boot_walk_def T i30
        by (simp add: T ix(2) a_def[symmetric] del: insert_iff)
    next
      case hi
      then have "\<not> a < PERIPHERALS_END" by (simp add: word_less_nat_alt)
      then show ?thesis using e1 hi True top off unfolding boot_walk_def T i30
        by (simp add: T ix(2) a_def[symmetric] del: insert_iff)
    next
      case out
      then have "2 ^ 31 \<le> unat a" by simp
      from above[OF this] show ?thesis using out True top
        unfolding boot_walk_def T i30 by (simp add: T a_def[symmetric] del: insert_iff)
    qed
  qed
qed

lemma low_halves:
  fixes a :: u64
  assumes "a < 2 ^ 47"
  shows "take_bit 47 a = a" "take_bit 47 (as_upper_range a) = a" "take_bit 47 (phys_to_virt a) = a" "as_upper_range a = a + KERNEL_OFFSET"
proof -
  show t: "take_bit 47 a = a" using assms by (simp add: word_unat_eq_iff unsigned_take_bit_eq take_bit_eq_mod[where ?'a = nat] word_less_nat_alt)
  then have hi: "\<not> bit a n" if "47 \<le> n" for n using that by (metis bit_take_bit_iff not_less)
  then have add: "a OR push_bit k c = a + push_bit k c" if "47 \<le> k" for k c
    by (subst disjunctive_add) (use that in \<open>auto simp: bit_simps\<close>)
  have up: "as_upper_range a = a OR push_bit 48 0xFFFF" and win: "phys_to_virt a = a OR push_bit 47 0x1FFFF"
    using add[of 47 "0x1FFFF"] by (simp_all add: phys_to_virt_def PHYSICAL_MEMORY_OFFSET_def as_upper_range_def KERNEL_OFFSET_def)
  show "take_bit 47 (as_upper_range a) = a" "take_bit 47 (phys_to_virt a) = a"
    unfolding up win by (simp_all only: take_bit_or t take_bit_push_bit) simp_all
  show "as_upper_range a = a + KERNEL_OFFSET" using add[of 48 "0xFFFF"] by (simp add: up KERNEL_OFFSET_def)
qed

text \<open>\<open>clear_bss\<close> clears the words it visits and nothing else.\<close>

lemma clear_words_exact:
  assumes "i \<le> e" "8 dvd unat e - unat i"
  shows "clear_words i e m a = (if i \<le> a \<and> a < e then 0 else m a)"
  using assms
proof (induction i e m rule: clear_words.induct)
  case (1 i e m)
  show ?case
  proof (cases "i < e")
    case True
    then have lt: "unat i < unat e" by (simp add: word_less_nat_alt)
    with dvd_imp_le[OF 1(3)] have ge: "unat i + 8 \<le> unat e" by linarith
    then have no: "unat i + 8 < 2 ^ 64" using unat_lt_64[of e] by simp
    then have u: "unat (i + 8) = unat i + 8" using unat_add_no_wrap[of i 8] by simp
    have step: "clear_words (i + 8) e (\<lambda>a. if a - i < 8 then 0 else m a) a = (if i + 8 \<le> a \<and> a < e then 0 else if a - i < 8 then 0 else m a)"
      using 1(1)[OF True refl no] ge u dvd_diff_nat[OF 1(3) dvd_refl] by (simp add: word_le_nat_alt)
    have near: "a - i < 8 \<longleftrightarrow> i \<le> a \<and> a < i + 8"
      using u no by (auto simp: word_le_nat_alt word_less_nat_alt unat_sub_if' split: if_splits)
    show ?thesis unfolding clear_words.simps[of i e m] using True no step near ge u
      by (auto simp: word_le_nat_alt word_less_nat_alt)
  next
    case False
    then show ?thesis by (subst clear_words.simps) auto
  qed
qed

lemma clear_bss_exact:
  assumes "symbol_addr (sbss K) = sbss K" "symbol_addr (ebss K) = ebss K" "sbss K \<le> ebss K"
  shows "clear_bss K m a = (if sbss K \<le> a \<and> a < ebss K then 0 else m a)"
proof -
  have "8 dvd unat (symbol_addr x)" for x
  proof -
    have "take_bit 3 (symbol_addr x) = 0" by (auto simp: symbol_addr_def bit_simps intro!: bit_word_eqI)
    then have "unat (symbol_addr x) mod 2 ^ 3 = 0" by (metis unsigned_take_bit_eq take_bit_eq_mod unsigned_0)
    then show ?thesis by (simp add: mod_eq_0_iff_dvd)
  qed
  from this[of "sbss K"] this[of "ebss K"] have "8 dvd unat (ebss K) - unat (sbss K)" by (simp add: assms(1,2) dvd_diff_nat)
  from clear_words_exact[OF assms(3) this] show ?thesis by (simp add: clear_bss_def assms(1,2))
qed

section \<open>The first steps with translation\<close>

text \<open>C19: The tables that \<open>create_init_paging\<close> leaves in the image translate, in both halves of the address space, exactly the devices and the
  memory to themselves: devices as device memory that nobody executes, memory as normal memory that only the kernel executes. Every other address
  faults. In particular an address of the kernel image and the window on physical memory mean what the lower half means.\<close>
theorem boot_map_exact:
  fixes T :: boot_tables and B :: "'pt block_ops"
  assumes "range_laws B" "index_law p2_index" "boot_layout L"
  defines "walk \<equiv> boot_walk (create_init_paging B p2_index L T) (symbol_addr (page_table_lvl4 L))"
  shows "(\<forall>v. walk v = (let a = take_bit 47 v
      in if PERIPHERALS_START \<le> a \<and> a < PERIPHERALS_END then Some (a, device_flags)
         else if MEMORY_START \<le> a \<and> a < MEMORY_END then Some (a, memory_flags) else None)) \<and>
    (\<forall>a < 2 ^ 47. walk (as_upper_range a) = walk a \<and> walk (phys_to_virt a) = walk a)"
  using boot_walk_exact[OF assms(1-3), of T] by (simp add: walk_def low_halves(1-3))

definition demo_boot :: boot_symbols where
  "demo_boot = \<lparr>page_table_lvl4 = 0x40090000, page_table_lvl3 = 0x40091000, page_table_lvl2_0 = 0x40092000, page_table_lvl2_1 = 0x40093000\<rparr>"

lemma demo_boot_layout: "boot_layout demo_boot"
  by (simp add: boot_layout_def demo_boot_def symbol_addr_def mask_eq_exp_minus_1)

lemma index_lawI: "index_law (table_index 21)"
  by (simp add: index_law_def)

theorem boot_map_exact_witness:
  "boot_walk (create_init_paging demo_blocks (table_index 21) demo_boot (\<lambda>_ _. Invalid)) (symbol_addr (page_table_lvl4 demo_boot)) 0xffff000040080123 =
     Some (0x40080123, memory_flags) \<and>
   boot_walk (create_init_paging demo_blocks (table_index 21) demo_boot (\<lambda>_ _. Invalid)) (symbol_addr (page_table_lvl4 demo_boot)) 0x10000000 = None"
  using boot_map_exact[OF demo_ranges index_lawI demo_boot_layout, of "\<lambda>_ _. Invalid", THEN conjunct1, THEN spec, of "0xffff000040080123"]
    boot_map_exact[OF demo_ranges index_lawI demo_boot_layout, of "\<lambda>_ _. Invalid", THEN conjunct1, THEN spec, of "0x10000000"]
  by (simp add: Let_def take_bit_eq_mod)

text \<open>C20: A core that turns on translation goes on where it was: both base registers hold the boot table, the return address leads to the same
  instruction, now in the upper half and executable, and each of the four cores has its own quarter of the boot stack below its stack pointer.\<close>
theorem enable_mmu_continues:
  fixes T :: boot_tables and B :: "'pt block_ops"
  assumes "range_laws B" "index_law p2_index" "boot_layout L" "cpuid < 4"
    and stack: "symbol_addr (bootstacktop K) = bootstacktop K" "bootstacktop K = bootstack K + 0x100000"
      "MEMORY_START \<le> bootstack K" "bootstack K < MEMORY_END - 0x100000"
    and code: "MEMORY_START \<le> lr c" "lr c < MEMORY_END"
  defines "c' \<equiv> enable_mmu L K cpuid c"
    and "walk \<equiv> boot_walk (create_init_paging B p2_index L T)"
  shows "mmu_on c' \<and> tlb_clean (translation c') \<and> ttbr0 (translation c') = ttbr1 (translation c') \<and>
    walk (ttbr1 (translation c')) (lr c') = Some (lr c, memory_flags) \<and>
    (\<forall>k. 0 < k \<and> k \<le> 0x40000 \<longrightarrow>
       walk (ttbr1 (translation c')) (sp c' - k) = Some (bootstack K + push_bit 18 (4 - cpuid) - k, memory_flags))"
proof -
  define x where "x = bootstacktop K - push_bit 18 cpuid"
  have root: "ttbr1 (translation c') = symbol_addr (page_table_lvl4 L)" "lr c' = as_upper_range (lr c)" "sp c' = as_upper_range x"
    by (simp_all add: c'_def enable_mmu_def flush_tlb_def frame_symbol stack(1) x_def Let_def)
  have mem: "walk (ttbr1 (translation c')) (as_upper_range p) = Some (p, memory_flags)" if "MEMORY_START \<le> p" "p < MEMORY_END" for p
  proof -
    have p: "p < 2 ^ 47" "\<not> p < PERIPHERALS_END" using that by (simp_all add: word_le_nat_alt word_less_nat_alt)
    show ?thesis using boot_walk_exact[OF assms(1-3), of T] that p low_halves(2)[OF p(1)] by (simp add: walk_def root(1) Let_def)
  qed
  have "cpuid = 0 \<or> cpuid = 1 \<or> cpuid = 2 \<or> cpuid = 3"
    using \<open>cpuid < 4\<close> by (simp add: word_less_nat_alt word_unat_eq_iff) linarith
  then have q: "x = bootstack K + push_bit 18 (4 - cpuid)" "0x40000 \<le> unat (push_bit 18 (4 - cpuid))" "unat (push_bit 18 (4 - cpuid)) \<le> 0x100000"
    by (auto simp: x_def stack(2) push_bit_eq_mult)
  have b: "0x40000000 \<le> unat (bootstack K)" "unat (bootstack K) < 0x7FF00000" using stack(3,4) by (simp_all add: word_le_nat_alt word_less_nat_alt)
  then have x: "unat x = unat (bootstack K) + unat (push_bit 18 (4 - cpuid))"
    using q(3) unat_add_no_wrap[of "bootstack K" "push_bit 18 (4 - cpuid)"] by (simp add: q(1))
  have "walk (ttbr1 (translation c')) (sp c' - k) = Some (x - k, memory_flags)" if "0 < k" "k \<le> 0x40000" for k
  proof -
    have k: "0 < unat k" "unat k \<le> 0x40000" using that by (simp_all add: word_le_nat_alt unat_gt_0)
    have xk: "unat (x - k) = unat x - unat k" using unat_sub_no_wrap[of k x] x q(2) k by (simp add: word_le_nat_alt)
    have r: "MEMORY_START \<le> x - k" "x - k < MEMORY_END" "x < 2 ^ 47" "x - k < 2 ^ 47"
      using xk x q(2,3) b k by (simp_all add: word_le_nat_alt word_less_nat_alt)
    from mem[OF r(1,2)] low_halves(4)[OF r(3)] low_halves(4)[OF r(4)] show ?thesis by (simp add: root(3) algebra_simps)
  qed
  then show ?thesis using mem[OF code] root by (simp add: q(1) c'_def enable_mmu_def flush_tlb_def Let_def)
qed

theorem enable_mmu_continues_witness:
  "let c' = enable_mmu demo_boot (demo_symbols\<lparr>bootstack := 0x40100000, bootstacktop := 0x40200000\<rparr>) 1
       \<lparr>translation = \<lparr>ttbr0 = 0, ttbr1 = 0, tlb_clean = False\<rparr>, sp = 0x4007ffff, lr = 0x40080123, mmu_on = False\<rparr>;
     walk = boot_walk (create_init_paging demo_blocks (table_index 21) demo_boot (\<lambda>_ _. Invalid))
   in walk (ttbr1 (translation c')) (lr c') = Some (0x40080123, memory_flags) \<and>
      walk (ttbr1 (translation c')) (sp c' - 8) = Some (0x401bfff8, memory_flags)"
  using enable_mmu_continues[OF demo_ranges index_lawI demo_boot_layout, of 1 "demo_symbols\<lparr>bootstack := 0x40100000, bootstacktop := 0x40200000\<rparr>"
    "\<lparr>translation = \<lparr>ttbr0 = 0, ttbr1 = 0, tlb_clean = False\<rparr>, sp = 0x4007ffff, lr = 0x40080123, mmu_on = False\<rparr>" "\<lambda>_ _. Invalid"]
  by (auto simp: symbol_addr_def mask_eq_exp_minus_1 Let_def push_bit_eq_mult dest: spec[where x = 8])

end
