(* ===== verification/Spec2Isabelle.thy ===== *)
theory Spec2Isabelle
  imports Sched_Invariant Sync_Spin Elf_Load Device_Drivers Syscall_Dispatch Boot_Paging
begin

text \<open>
  \<^bold>\<open>The queen kernel\<close>

  Queen is a small AArch64 kernel in Rust (\<^verbatim>\<open>src/kernel/src\<close>). User programs run as threads of processes; each thread is an
  asynchronous task of an executor with a completely fair scheduler. A task enters user code, and every trap brings it back: a page fault goes to
  the memory set of the process, a system call to the dispatcher, an interrupt to the interrupt controller and from there to the drivers. Calls
  that wait subscribe a waker to an event bus or to the timer queue. This development models these parts and proves what each of them promises.

  \<^bold>\<open>How the code is modelled\<close>

  \<^item> A struct is a \<^theory_text>\<open>record\<close>, an enum a \<^theory_text>\<open>datatype\<close>, \<open>usize\<close>, \<open>u64\<close>, \<open>u32\<close>, \<open>u8\<close> are words of their width, and arithmetic wraps as it does in the
    release profile. A panic (\<open>unwrap\<close>, \<open>assert!\<close>, \<open>todo!\<close>, an index out of range, a division by zero) is a value of type \<open>panic\<close>, on the left of \<open>'a outcome\<close>.
  \<^item> State is passed explicitly. \<^verbatim>\<open>Arc\<close> and \<^verbatim>\<open>Weak\<close> are references into a store, so sharing is visible. A region under a lock is one
    step; where the code lets the lock go between two regions, the steps are separate and other activities may come between them.
  \<^item> An asynchronous function is a machine whose state says where it waits and whose \<open>poll\<close> is a function. Wakers are names; an operation returns
    the wakers it calls.
  \<^item> A loop whose end depends on a device, on user memory or on other tasks is a \<^theory_text>\<open>partial_function\<close> into \<open>option\<close>, and \<open>None\<close> means that it does not
    return. Other loops are structural or have a termination proof with a measure. No fuel is used.
  \<^item> Code of other crates and hardware is an argument: a record of functions, with what the kernel relies on as a predicate on that record.
    These are \<open>crates\<close> (priority queue, arena and runnables: \<open>crate_laws\<close>), \<open>mmu\<close> (page table of the \<^verbatim>\<open>aarch64\<close> crate and the frame
    allocator: \<open>mmu_laws\<close>), \<open>inode_ops\<close> (\<^verbatim>\<open>queen_fs\<close>: \<open>inode_laws\<close>), \<open>flag_ops\<close>, \<open>context_ops\<close>, \<open>elf_file\<close> (\<^verbatim>\<open>xmas_elf\<close>),
    \<open>block_ops\<close> (ranges and blocks of two megabytes of the \<^verbatim>\<open>aarch64\<close> crate: \<open>range_laws\<close>, \<open>block_laws\<close>), \<open>symbols\<close> and \<open>boot_symbols\<close>
    (addresses that the linker chooses: \<open>link_layout\<close>, \<open>boot_layout\<close>), \<open>reg_ops\<close> (\<^verbatim>\<open>tock_registers\<close>: \<open>reg_laws\<close>), \<open>fdt\<close> (\<^verbatim>\<open>fdt_rs\<close>: \<open>fdt_laws\<close>), and the devices themselves as \<open>mmio\<close> (\<open>uart_laws\<close>,
    \<open>gicd_laws\<close>, \<open>gicc_laws\<close>). Each predicate holds for a concrete instance, at which the witness of each property evaluates.

  \<^bold>\<open>The theories\<close>

  \<^item> \<open>Kernel_Prelude\<close>: machine words, panics, the outcome type, loops over lists that may panic, the association lists that stand for
    \<^verbatim>\<open>BTreeMap\<close>. \<open>Ordered_Map\<close>: the laws of ordered maps as locales and their interpretations.
  \<^item> \<open>Sched_Arith\<close>, \<open>Sched_Queue\<close>, \<open>Sched_Invariant\<close> (\<^verbatim>\<open>task/executor\<close>): weights, virtual runtimes and slices; the run queue, the executor,
    stealing and waking; the invariant that counts, loads and queue contents agree, that the executor does not get stuck, that the task chosen has
    the least virtual runtime, that slices fit in the period, and the histories in which the counts go wrong.
  \<^item> \<open>Event_Bus\<close> (\<^verbatim>\<open>sync/event_bus.rs\<close>, \<^verbatim>\<open>fs/devfs/tty.rs\<close>), \<open>Kernel_Timer\<close> (\<^verbatim>\<open>task/timer.rs\<close>, \<^verbatim>\<open>task/future.rs\<close>, \<^verbatim>\<open>arch/aarch64/timer.rs\<close>),
    \<open>Sync_Spin\<close> (\<^verbatim>\<open>sync/spin.rs\<close>): who is woken and when, the terminal, that timers expire exactly when due, and that nested critical sections restore
    the interrupt mask.
  \<^item> \<open>Memory_Paging\<close>, \<open>Memory_Handler\<close>, \<open>Memory_Set\<close> (\<^verbatim>\<open>memory\<close>, \<^verbatim>\<open>arch/aarch64/paging.rs\<close>): pages and page table entries, the four handlers
    and the areas of an address space. Handlers meet one contract, the locale \<open>page_handler\<close>. The lemmas show that areas stay disjoint, sorted and backed, that
    removing a range removes exactly that range, that a fault fills the page with the right bytes, and what the pointer checks accept.
  \<^item> \<open>Kernel_Memory\<close>, \<open>Boot_Paging\<close> (\<^verbatim>\<open>arch/aarch64/memory.rs\<close>, \<^verbatim>\<open>arch/aarch64/paging.rs\<close>, \<^verbatim>\<open>memory/paging.rs\<close>, \<^verbatim>\<open>arch/aarch64/boot/mod.rs\<close>): the base
    registers and running under another table, the address space of the kernel and its free frames, the tables used before it exists and the step
    that turns translation on. The kernel maps exactly its sections with their permissions and all of physical memory, the boot tables map exactly devices
    and memory, and a core continues at the same instruction on a stack of its own.
  \<^item> \<open>File_Handle\<close>, \<open>File_Syscalls\<close> (\<^verbatim>\<open>fs/file.rs\<close>, \<^verbatim>\<open>syscall/fs.rs\<close>, \<^verbatim>\<open>utils.rs\<close>): open files with shared descriptions, paths, C strings and
    every file system call.
  \<^item> \<open>Signal_Set\<close>, \<open>Signal_Delivery\<close> (\<^verbatim>\<open>signal\<close>, \<^verbatim>\<open>arch/aarch64/signal.rs\<close>): sets, actions, the queue of signals, the frame for a user handler.
  \<^item> \<open>Process_State\<close>, \<open>Process_Syscalls\<close>, \<open>Process_Tables\<close>, \<open>Process_Wait\<close> (\<^verbatim>\<open>process\<close>, \<^verbatim>\<open>syscall/process.rs\<close>): fork, clone, exit, wait; the tables
    stay consistent in every history, and a parent that waits does not miss the exit of a child.
  \<^item> \<open>Process_Abi\<close>, \<open>Elf_Load\<close> (\<^verbatim>\<open>process/abi.rs\<close>, \<^verbatim>\<open>process/structs.rs\<close>, \<^verbatim>\<open>Thread::new_user_vm\<close>): the initial stack and the segments of a program;
    a start routine that reads the stack finds the arguments, the environment and the auxiliary vector.
  \<^item> \<open>Device_Registers\<close>, \<open>Serial_Uart\<close>, \<open>Irq_Controller\<close>, \<open>Device_Tree\<close>, \<open>Device_Drivers\<close> (\<^verbatim>\<open>drivers\<close>, \<^verbatim>\<open>arch/aarch64/interrupt/mod.rs\<close>): register blocks,
    the PL011 serial port, the GICv2 interrupt controller, queries of the device tree, the clock, and the set-up that connects each device with its interrupt.
  \<^item> \<open>Trap_Entry\<close>, \<open>Syscall_Table\<close>, \<open>Syscall_Dispatch\<close> (\<^verbatim>\<open>arch/aarch64/interrupt\<close>, \<^verbatim>\<open>arch/aarch64/syscall.rs\<close>, \<^verbatim>\<open>syscall/mod.rs\<close>, \<^verbatim>\<open>Thread::spawn\<close>):
    the classes of traps, the numbers of the calls, and the dispatcher and the loop of a thread, which put the calls of the other theories together.
    The soundness of the loop is stated over all states a thread reaches, with steps of other threads in between.

  \<^bold>\<open>Bounds\<close>

  Addresses and counts are at machine width; where a theorem needs that a sum does not wrap, it says so. The signal loop ends because each turn
  takes a signal off the queue, the search for a free id and for a free area because candidates grow, the removal of a range because the
  areas still to visit get fewer, and waiting for the serial port because its laws say that it makes progress.

  \<^bold>\<open>Not modelled\<close>

  \<^item> \<^verbatim>\<open>entry.S\<close>, \<^verbatim>\<open>cpu.rs\<close>, \<^verbatim>\<open>logging.rs\<close>, \<^verbatim>\<open>backtrace.rs\<close>, \<^verbatim>\<open>lib.rs\<close>, \<^verbatim>\<open>main.rs\<close> and the panic handler in \<^verbatim>\<open>lang.rs\<close>: assembly, register
    writes and console output. Of \<^verbatim>\<open>enable_mmu\<close>, the constants written to the translation control and memory attribute registers.
  \<^item> \<^verbatim>\<open>drivers/irq/gicv3\<close>: commented out of the build. \<^verbatim>\<open>drivers/block\<close> and \<^verbatim>\<open>drivers/bus\<close>: empty.
  \<^item> Caches and barriers: they do not change the state of the model. Of cached translations, only whether they were flushed.
\<close>

end
